(* ===== verification/Alloc_Spec.thy ===== *)
theory Alloc_Spec
  imports Prelude
begin

text \<open>
  The contract of the kernel's memory manager interface
  (Kernel/memory_manager/include/memory_manager.h): \<open>malloc\<close> and \<open>free\<close> over an
  abstract state. The interface is the same for both implementations the Makefile can link
  (mem_bitmap.c, mem_buddy.c); each of them is an interpretation. Address 0 is NULL.
\<close>

text \<open>The states of a page or node, from the header's enumeration.\<close>

datatype page = FREE | ALLOCATED | PARCIAL | START_PAGE_BOUND | END_PAGE_BOUND | SINGLE_PAGE

text \<open>Two address ranges \<open>(address, bytes)\<close> that share no byte.\<close>

definition apart :: "nat \<times> nat \<Rightarrow> nat \<times> nat \<Rightarrow> bool" where
  "apart a b \<longleftrightarrow> fst a + snd a \<le> fst b \<or> fst b + snd b \<le> fst a"

lemma apart_sym: "apart a b \<Longrightarrow> apart b a"
  by (auto simp: apart_def)

text \<open>A set of ranges, any two of which are apart.\<close>

definition all_apart :: "(nat \<times> nat) set \<Rightarrow> bool" where
  "all_apart B \<longleftrightarrow> (\<forall>a\<in>B. \<forall>b\<in>B. a \<noteq> b \<longrightarrow> apart a b)"

text \<open>A client's use of the interface: requests and releases in any order.\<close>

datatype request = Malloc nat | Free nat

fun serve :: "('s \<Rightarrow> nat \<Rightarrow> (nat \<times> 's) option) \<Rightarrow> ('s \<Rightarrow> nat \<Rightarrow> 's option)
    \<Rightarrow> 's \<Rightarrow> request list \<Rightarrow> 's option" where
  "serve m f s [] = Some s"
| "serve m f s (Malloc n # rs) = do { (p, s') \<leftarrow> m s n; serve m f s' rs }"
| "serve m f s (Free p # rs) = do { s' \<leftarrow> f s p; serve m f s' rs }"

text \<open>Requests that release only what is live, as the C interface demands.\<close>

fun well_behaved :: "('s \<Rightarrow> nat \<Rightarrow> (nat \<times> 's) option) \<Rightarrow> ('s \<Rightarrow> nat \<Rightarrow> 's option)
    \<Rightarrow> ('s \<Rightarrow> (nat \<times> nat) set) \<Rightarrow> 's \<Rightarrow> request list \<Rightarrow> bool" where
  "well_behaved m f live s [] = True"
| "well_behaved m f live s (Malloc n # rs) =
     (case m s n of None \<Rightarrow> False | Some (p, s') \<Rightarrow> well_behaved m f live s' rs)"
| "well_behaved m f live s (Free p # rs) =
     (p \<in> fst ` live s \<and>
      (case f s p of None \<Rightarrow> False | Some s' \<Rightarrow> well_behaved m f live s' rs))"

locale allocator =
  fixes malloc :: "'s \<Rightarrow> nat \<Rightarrow> (nat \<times> 's) option"
    and free :: "'s \<Rightarrow> nat \<Rightarrow> 's option"
    and inv :: "'s \<Rightarrow> bool"
    and fits :: "'s \<Rightarrow> nat \<Rightarrow> bool"
    and live :: "'s \<Rightarrow> (nat \<times> nat) set"
  assumes malloc_total: "inv s \<Longrightarrow> fits s n \<Longrightarrow> \<exists>p s'. malloc s n = Some (p, s')"
    and malloc_inv: "inv s \<Longrightarrow> malloc s n = Some (p, s') \<Longrightarrow> inv s'"
    and malloc_fits: "malloc s n = Some (p, s') \<Longrightarrow> fits s' = fits s"
    and malloc_null: "inv s \<Longrightarrow> malloc s n = Some (0, s') \<Longrightarrow> live s' = live s"
    and malloc_live: "inv s \<Longrightarrow> malloc s n = Some (p, s') \<Longrightarrow> 0 < p \<Longrightarrow>
      \<exists>l. n \<le> l \<and> 0 < l \<and> live s' = insert (p, l) (live s) \<and> (\<forall>b\<in>live s. apart (p, l) b)"
    and free_live: "inv s \<Longrightarrow> (p, l) \<in> live s \<Longrightarrow>
      \<exists>s'. free s p = Some s' \<and> inv s' \<and> fits s' = fits s \<and> live s' = live s - {(p, l)}"
    and live_apart: "inv s \<Longrightarrow> all_apart (live s)"
    and live_pos: "inv s \<Longrightarrow> (p, l) \<in> live s \<Longrightarrow> 0 < l"
begin

lemma malloc_new:
  assumes "inv s" "malloc s n = Some (p, s')" "0 < p"
  shows "p \<notin> fst ` live s"
proof
  assume "p \<in> fst ` live s"
  then obtain m where m: "(p, m) \<in> live s" by auto
  obtain l where "0 < l" "apart (p, l) (p, m)"
    using malloc_live [OF assms] m by blast
  moreover have "0 < m" using live_pos [OF assms(1) m] .
  ultimately show False by (simp add: apart_def)
qed

lemma live_unique:
  assumes "inv s" "(p, l) \<in> live s" "(p, m) \<in> live s"
  shows "l = m"
proof (rule ccontr)
  assume "l \<noteq> m"
  then have "apart (p, l) (p, m)"
    using live_apart [OF assms(1)] assms(2,3) unfolding all_apart_def by blast
  moreover have "0 < l" "0 < m" using live_pos assms by blast+
  ultimately show False by (simp add: apart_def)
qed

text \<open>Releasing what was just obtained restores the set of live blocks.\<close>

lemma malloc_free_live:
  assumes "inv s" "malloc s n = Some (p, s')" "0 < p"
  shows "\<exists>t. free s' p = Some t \<and> inv t \<and> live t = live s"
proof -
  obtain l where l: "live s' = insert (p, l) (live s)"
    using malloc_live [OF assms] by blast
  have "inv s'" using malloc_inv [OF assms(1,2)] .
  moreover have "(p, l) \<in> live s'" using l by simp
  ultimately obtain t where "free s' p = Some t" "inv t" "live t = live s' - {(p, l)}"
    using free_live by blast
  moreover have "(p, l) \<notin> live s" using malloc_new [OF assms] by force
  ultimately show ?thesis using l by simp
qed

text \<open>The same laws over the start addresses alone, which is what a client keeps.\<close>

lemma malloc_owned:
  assumes "inv s" "fits s n"
  obtains p s' where "malloc s n = Some (p, s')" "inv s'"
    "p = 0 \<Longrightarrow> fst ` live s' = fst ` live s"
    "p \<noteq> 0 \<Longrightarrow> p \<notin> fst ` live s" "p \<noteq> 0 \<Longrightarrow> fst ` live s' = insert p (fst ` live s)"
proof -
  obtain p s' where m: "malloc s n = Some (p, s')" using malloc_total [OF assms] by blast
  show thesis
  proof (rule that [OF m malloc_inv [OF assms(1) m]])
    show "fst ` live s' = fst ` live s" if "p = 0" using malloc_null assms(1) m that by blast
    show "p \<notin> fst ` live s" if "p \<noteq> 0" using malloc_new [OF assms(1) m] that by simp
    show "fst ` live s' = insert p (fst ` live s)" if "p \<noteq> 0"
      using malloc_live [OF assms(1) m] that by force
  qed
qed

lemma free_owned:
  assumes "inv s" "p \<in> fst ` live s"
  obtains s' where "free s p = Some s'" "inv s'" "fst ` live s' = fst ` live s - {p}"
proof -
  obtain l where l: "(p, l) \<in> live s" using assms(2) by auto
  obtain s' where s': "free s p = Some s'" "inv s'" "live s' = live s - {(p, l)}"
    using free_live [OF assms(1) l] by blast
  have "fst ` (live s - {(p, l)}) = fst ` live s - {p}"
  proof (intro set_eqI iffI)
    fix x assume "x \<in> fst ` (live s - {(p, l)})"
    then obtain m where m: "(x, m) \<in> live s" "(x, m) \<noteq> (p, l)" by fastforce
    have "x = p \<Longrightarrow> m = l" using live_unique [OF assms(1)] l m(1) by blast
    with m(2) have "x \<noteq> p" by auto
    with m show "x \<in> fst ` live s - {p}" by force
  next
    fix x assume "x \<in> fst ` live s - {p}"
    then obtain m where "(x, m) \<in> live s" "x \<noteq> p" by auto
    then have "(x, m) \<in> live s - {(p, l)}" by simp
    then show "x \<in> fst ` (live s - {(p, l)})" by force
  qed
  with that [OF s'(1,2)] s'(3) show thesis by simp
qed

text \<open>
  A client that releases only live blocks never meets undefined behaviour in the
  implementation, and at every point its live blocks are pairwise apart.
\<close>

lemma serve_inv:
  assumes "inv s" "well_behaved malloc free live s rs"
  shows "\<exists>t. serve malloc free s rs = Some t \<and> inv t \<and> all_apart (live t)"
  using assms
proof (induction rs arbitrary: s)
  case Nil
  then show ?case by (simp add: live_apart)
next
  case (Cons r rs)
  show ?case
  proof (cases r)
    case (Malloc n)
    with Cons.prems obtain p s' where m: "malloc s n = Some (p, s')"
      and wb: "well_behaved malloc free live s' rs"
      by (auto split: option.splits)
    have "inv s'" using malloc_inv [OF Cons.prems(1) m] .
    from Cons.IH [OF this wb] show ?thesis using Malloc m by simp
  next
    case (Free p)
    with Cons.prems obtain l s' where l: "(p, l) \<in> live s" and f: "free s p = Some s'"
      and wb: "well_behaved malloc free live s' rs"
      by (auto split: option.splits)
    have "inv s'" using free_live [OF Cons.prems(1) l] f by auto
    from Cons.IH [OF this wb] show ?thesis using Free f by simp
  qed
qed

end

end
