(* ===== verification/Mem_Bitmap.thy ===== *)
theory Mem_Bitmap
  imports Alloc_Spec
begin

text \<open>
  Kernel/memory_manager/mem_bitmap.c, the page allocator the default build links: the
  \<open>heap\<close> structure, its initialisation, \<open>malloc\<close>, \<open>free\<close> and the accounting of
  \<open>print_mem\<close>. The array of page states at \<open>base_addres\<close> is the list \<open>pages\<close>; an
  access outside it is \<open>None\<close>. The messages that malloc and free draw on the screen are
  not part of the state. The lemmas parse the page array into the blocks it encodes, show
  what each operation does to these blocks, and discharge the allocator contract.
\<close>

section \<open>State\<close>

definition INVALID_ADDRESS :: nat where "INVALID_ADDRESS = 2 ^ 64 - 1"
definition PAGE_SIZE :: nat where "PAGE_SIZE = 32"
definition MAX_MEM :: nat where "MAX_MEM = 408944640"

record heap =
  heap_start :: nat
  heap_size :: nat
  heap_end :: nat
  page_qty :: nat
  page_size :: nat
  last_freed_page :: nat
  pages_ptr :: nat
  pages :: "page list"

text \<open>The static structure before \<open>init_mm\<close>: zero-initialised.\<close>

definition heap_zero :: heap where
  "heap_zero = \<lparr>heap_start = 0, heap_size = 0, heap_end = 0, page_qty = 0, page_size = 0,
     last_freed_page = 0, pages_ptr = 0, pages = []\<rparr>"

section \<open>Operations\<close>

definition initialize_pages :: "heap \<Rightarrow> heap" where
  "initialize_pages h = h\<lparr>pages := map (\<lambda>i. FREE) [0..<page_qty h]\<rparr>"

definition init_mm :: "nat \<Rightarrow> nat \<Rightarrow> heap \<Rightarrow> heap" where
  "init_mm base_addres mem_ammount h =
     (let bitmap_size = mem_ammount div PAGE_SIZE + (if mem_ammount mod PAGE_SIZE \<noteq> 0 then 1 else 0);
          needed = (if mem_ammount mod PAGE_SIZE \<noteq> 0 then wrap64 (bitmap_size * PAGE_SIZE)
                    else mem_ammount);
          bitmap_pages = bitmap_size div PAGE_SIZE + (if bitmap_size mod PAGE_SIZE \<noteq> 0 then 1 else 0);
          total_mem_needed = wrap64 (needed + bitmap_pages * PAGE_SIZE)
      in if total_mem_needed > MAX_MEM then h
         else if bitmap_pages > bitmap_size then h
         else initialize_pages
           (h\<lparr>page_size := PAGE_SIZE,
              page_qty := bitmap_size,
              heap_start := wrap64 (base_addres + bitmap_pages * PAGE_SIZE),
              heap_size := total_mem_needed,
              heap_end := wrap64 (base_addres + total_mem_needed),
              last_freed_page := 0,
              pages_ptr := base_addres\<rparr>))"

text \<open>A division by zero traps, hence the option.\<close>

definition size_to_num_of_pages :: "heap \<Rightarrow> nat \<Rightarrow> nat option" where
  "size_to_num_of_pages h sz =
     (if page_size h = 0 then None
      else Some (sz div page_size h + (if sz mod page_size h \<noteq> 0 then 1 else 0)))"

function find_pages_loop :: "page list \<Rightarrow> nat \<Rightarrow> nat \<Rightarrow> nat \<Rightarrow> nat \<Rightarrow> nat option" where
  "find_pages_loop ps qty needed i found =
     (if i < qty then
        (if ps ! i = FREE then
           (if found + 1 = needed then Some (i + 1 - needed)
            else find_pages_loop ps qty needed (i + 1) (found + 1))
         else find_pages_loop ps qty needed (i + 1) 0)
      else None)"
  by pat_completeness auto
termination
  by (relation "measure (\<lambda>(ps, qty, needed, i, found). qty - i)") auto

declare find_pages_loop.simps [simp del]

definition find_pages :: "heap \<Rightarrow> nat \<Rightarrow> nat \<Rightarrow> nat" where
  "find_pages h pages_needed start_page =
     (case find_pages_loop (pages h) (page_qty h) pages_needed start_page 0 of
        Some page_index \<Rightarrow> page_index
      | None \<Rightarrow> INVALID_ADDRESS)"

text \<open>The state \<open>malloc\<close> gives page \<open>i\<close> of a block, and its marking loop.\<close>

definition page_mark :: "nat \<Rightarrow> nat \<Rightarrow> nat \<Rightarrow> page" where
  "page_mark page_index pages_needed i =
     (if i = page_index then (if pages_needed = 1 then SINGLE_PAGE else START_PAGE_BOUND)
      else if i = page_index + pages_needed - 1 then END_PAGE_BOUND
      else ALLOCATED)"

definition mark_pages :: "page list \<Rightarrow> nat \<Rightarrow> nat \<Rightarrow> page list" where
  "mark_pages ps page_index pages_needed =
     fold (\<lambda>i ps. ps[i := page_mark page_index pages_needed i])
       [page_index..<page_index + pages_needed] ps"

definition malloc :: "heap \<Rightarrow> nat \<Rightarrow> (nat \<times> heap) option" where
  "malloc h sz = do {
     pages_needed \<leftarrow> size_to_num_of_pages h sz;
     let first = find_pages h pages_needed (last_freed_page h);
     let page_index = (if first = INVALID_ADDRESS then find_pages h pages_needed 0 else first);
     if page_index = INVALID_ADDRESS then Some (0, h)
     else Some (wrap64 (heap_start h + page_index * page_size h),
                h\<lparr>pages := mark_pages (pages h) page_index pages_needed\<rparr>)
   }"

definition page_at :: "page list \<Rightarrow> nat \<Rightarrow> page option" where
  "page_at ps i = (if i < length ps then Some (ps ! i) else None)"

definition get_page_index :: "heap \<Rightarrow> nat \<Rightarrow> nat option" where
  "get_page_index h mem =
     (if mem > heap_end h \<or> mem < heap_start h then Some INVALID_ADDRESS
      else if page_size h = 0 then None
      else Some ((mem - heap_start h) div page_size h))"

text \<open>The backwards search \<open>while (pages[i] != START_PAGE_BOUND) i--\<close>.\<close>

primrec back_to_start :: "page list \<Rightarrow> nat \<Rightarrow> nat option" where
  "back_to_start ps 0 =
     do { p \<leftarrow> page_at ps 0; if p = START_PAGE_BOUND then Some 0 else None }"
| "back_to_start ps (Suc i) =
     do { p \<leftarrow> page_at ps (Suc i);
          if p = START_PAGE_BOUND then Some (Suc i) else back_to_start ps i }"

definition get_first_page_index :: "heap \<Rightarrow> nat \<Rightarrow> nat option" where
  "get_first_page_index h mem =
     (if mem > heap_end h \<or> mem < heap_start h then Some INVALID_ADDRESS
      else do {
        page_idx \<leftarrow> get_page_index h mem;
        p \<leftarrow> page_at (pages h) page_idx;
        if p = SINGLE_PAGE then Some page_idx
        else if p = START_PAGE_BOUND then Some page_idx
        else if p = END_PAGE_BOUND \<or> p = ALLOCATED then back_to_start (pages h) page_idx
        else Some INVALID_ADDRESS
      })"

text \<open>The forward loop of \<open>free\<close>, with the assignment that follows it.\<close>

function free_run :: "page list \<Rightarrow> nat \<Rightarrow> page list option" where
  "free_run ps i =
     (if i < length ps then
        (if ps ! i = END_PAGE_BOUND then Some (ps[i := FREE])
         else free_run (ps[i := FREE]) (i + 1))
      else None)"
  by pat_completeness auto
termination
  by (relation "measure (\<lambda>(ps, i). length ps - i)") auto

declare free_run.simps [simp del]

definition free :: "heap \<Rightarrow> nat \<Rightarrow> heap option" where
  "free h mem = do {
     page_index \<leftarrow> get_page_index h mem;
     if page_index = INVALID_ADDRESS then Some h
     else do {
       p \<leftarrow> page_at (pages h) page_index;
       if p = FREE then Some h
       else if p = SINGLE_PAGE then Some (h\<lparr>pages := (pages h)[page_index := FREE]\<rparr>)
       else do {
         i \<leftarrow> get_first_page_index h mem;
         ps \<leftarrow> free_run (pages h) i;
         Some (h\<lparr>pages := ps\<rparr>)
       }
     }
   }"

fun count_free :: "page list \<Rightarrow> int \<Rightarrow> int" where
  "count_free [] free_pages = free_pages"
| "count_free (p # ps) free_pages = count_free ps (if p = FREE then free_pages + 1 else free_pages)"

definition calculate_free_pages :: "heap \<Rightarrow> int" where
  "calculate_free_pages h = count_free (take (page_qty h) (pages h)) 0"

text \<open>The three numbers \<open>print_mem\<close> draws, converted to \<open>int\<close> by \<open>draw_number\<close>.\<close>

definition print_mem :: "heap \<Rightarrow> int \<times> int \<times> int" where
  "print_mem h =
     (let free_bytes = nat (calculate_free_pages h) * page_size h
      in (to_int32 (int (heap_size h)),
          to_int32 (int (sub64 (heap_size h) free_bytes)),
          to_int32 (int (wrap64 free_bytes))))"

section \<open>The blocks a page array encodes\<close>

text \<open>
  \<open>scan i st ps\<close> parses \<open>ps\<close>, whose first page has index \<open>i\<close>; \<open>st\<close> is the start of a
  block that is still open. A block of one page is \<open>SINGLE_PAGE\<close>; a longer one is
  \<open>START_PAGE_BOUND\<close>, \<open>ALLOCATED\<close> pages and \<open>END_PAGE_BOUND\<close>.
\<close>

fun scan :: "nat \<Rightarrow> nat option \<Rightarrow> page list \<Rightarrow> (nat \<times> nat) list option" where
  "scan i None [] = Some []"
| "scan i (Some s) [] = None"
| "scan i None (FREE # ps) = scan (i + 1) None ps"
| "scan i None (SINGLE_PAGE # ps) = map_option ((#) (i, 1)) (scan (i + 1) None ps)"
| "scan i None (START_PAGE_BOUND # ps) = scan (i + 1) (Some i) ps"
| "scan i (Some s) (ALLOCATED # ps) = scan (i + 1) (Some s) ps"
| "scan i (Some s) (END_PAGE_BOUND # ps) =
     map_option ((#) (s, i + 1 - s)) (scan (i + 1) None ps)"
| "scan i st (p # ps) = None"

definition blocks :: "page list \<Rightarrow> (nat \<times> nat) set" where
  "blocks ps = (case scan 0 None ps of None \<Rightarrow> {} | Some bs \<Rightarrow> set bs)"

definition block_pages :: "nat \<Rightarrow> page list" where
  "block_pages n =
     (if n = 1 then [SINGLE_PAGE]
      else START_PAGE_BOUND # replicate (n - 2) ALLOCATED @ [END_PAGE_BOUND])"

lemma length_block_pages [simp]: "0 < n \<Longrightarrow> length (block_pages n) = n"
  by (auto simp: block_pages_def)

lemma scan_append:
  "scan i st xs = Some bs \<Longrightarrow>
   scan i st (xs @ ys) = map_option ((@) bs) (scan (i + length xs) None ys)"
  by (induction i st xs arbitrary: bs rule: scan.induct)
     (auto simp: map_option_case split: option.splits)

lemma scan_before_free:
  "scan i st (xs @ FREE # ys) = Some bs \<Longrightarrow> \<exists>b. scan i st xs = Some b"
  by (induction i st xs arbitrary: bs rule: scan.induct) auto

lemma scan_free [simp]: "scan i None (replicate n FREE @ ys) = scan (i + n) None ys"
  by (induction n arbitrary: i) auto

lemma scan_allocated [simp]:
  "scan i (Some s) (replicate n ALLOCATED @ ys) = scan (i + n) (Some s) ys"
  by (induction n arbitrary: i) auto

lemma scan_block [simp]:
  "0 < n \<Longrightarrow> scan i None (block_pages n @ ys) = map_option ((#) (i, n)) (scan (i + n) None ys)"
proof (cases n)
  case (Suc m)
  then show ?thesis by (cases m) (simp_all add: block_pages_def)
qed simp

lemma scan_open:
  "scan i (Some s) ps = Some bs \<Longrightarrow>
   \<exists>k ys bs'. ps = replicate k ALLOCATED @ END_PAGE_BOUND # ys \<and>
     bs = (s, i + k + 1 - s) # bs' \<and> scan (i + k + 1) None ys = Some bs'"
proof (induction ps arbitrary: i bs)
  case (Cons p ps)
  show ?case
  proof (cases p)
    case ALLOCATED
    with Cons.prems have "scan (i + 1) (Some s) ps = Some bs" by simp
    from Cons.IH [OF this] obtain k ys bs' where
      "ps = replicate k ALLOCATED @ END_PAGE_BOUND # ys"
      "bs = (s, i + 1 + k + 1 - s) # bs'" "scan (i + 1 + k + 1) None ys = Some bs'" by blast
    with ALLOCATED show ?thesis
      by (intro exI [of _ "Suc k"] exI [of _ ys] exI [of _ bs']) simp
  next
    case END_PAGE_BOUND
    with Cons.prems show ?thesis
      by (intro exI [of _ 0]) (auto simp: replicate_0)
  qed (use Cons.prems in simp_all)
qed simp

lemma block_pages_open:
  "START_PAGE_BOUND # replicate k ALLOCATED @ END_PAGE_BOUND # ys = block_pages (k + 2) @ ys"
  by (simp add: block_pages_def)

text \<open>
  An induction rule over parsed arrays: nothing, a free page in front, or a block in front.
\<close>

lemma scan_cases:
  assumes "scan i None ps = Some bs"
  obtains "ps = []" "bs = []"
  | qs where "ps = FREE # qs" "scan (i + 1) None qs = Some bs"
  | n rest bs' where "0 < n" "ps = block_pages n @ rest" "scan (i + n) None rest = Some bs'"
      "bs = (i, n) # bs'"
proof (cases ps)
  case Nil
  with assms that(1) show thesis by simp
next
  case (Cons p qs)
  show thesis
  proof (cases p)
    case FREE
    with Cons assms that(2) show thesis by simp
  next
    case SINGLE_PAGE
    with assms Cons that(3) [of 1 qs] show thesis by (auto simp: block_pages_def)
  next
    case START_PAGE_BOUND
    with assms Cons have "scan (i + 1) (Some i) qs = Some bs" by simp
    from scan_open [OF this] obtain k ys b' where
      "qs = replicate k ALLOCATED @ END_PAGE_BOUND # ys"
      "bs = (i, k + 2) # b'" "scan (i + k + 2) None ys = Some b'" by auto
    with Cons START_PAGE_BOUND that(3) [of "k + 2" ys b'] block_pages_open [of k ys]
    show thesis by (simp add: add.assoc)
  qed (use assms Cons in simp_all)
qed

lemma scan_induct [consumes 1, case_names Nil Free Block]:
  assumes "scan i None ps = Some bs"
    and "\<And>i. P i [] []"
    and "\<And>i qs bs. scan (i + 1) None qs = Some bs \<Longrightarrow> P (i + 1) qs bs \<Longrightarrow> P i (FREE # qs) bs"
    and "\<And>i n rest bs. 0 < n \<Longrightarrow> scan (i + n) None rest = Some bs \<Longrightarrow> P (i + n) rest bs \<Longrightarrow>
      P i (block_pages n @ rest) ((i, n) # bs)"
  shows "P i ps bs"
  using assms(1)
proof (induction "length ps" arbitrary: i ps bs rule: less_induct)
  case less
  from less.prems show ?case
    by (cases rule: scan_cases) (use less.hyps assms(2-4) in auto)
qed

text \<open>Every block found by the parser is a segment of the array, with both sides parsed.\<close>

lemma scan_member:
  "scan i None ps = Some bs \<Longrightarrow> (s, n) \<in> set bs \<Longrightarrow>
   \<exists>xs ys b1 b2. ps = xs @ block_pages n @ ys \<and> s = i + length xs \<and> 0 < n \<and>
     scan i None xs = Some b1 \<and> scan (s + n) None ys = Some b2 \<and> bs = b1 @ (s, n) # b2"
proof (induction rule: scan_induct)
  case (Nil i)
  then show ?case by simp
next
  case (Free i qs bs)
  then obtain xs ys b1 b2 where "qs = xs @ block_pages n @ ys" "s = i + 1 + length xs" "0 < n"
    "scan (i + 1) None xs = Some b1" "scan (s + n) None ys = Some b2" "bs = b1 @ (s, n) # b2"
    by blast
  then show ?case
    by (intro exI [of _ "FREE # xs"] exI [of _ ys] exI [of _ b1] exI [of _ b2]) simp
next
  case (Block i m rest bs)
  show ?case
  proof (cases "(s, n) = (i, m)")
    case True
    with Block.hyps show ?thesis
      by (intro exI [of _ "[]"] exI [of _ rest] exI [of _ "[]"] exI [of _ bs]) simp
  next
    case False
    with Block.prems Block.IH obtain xs ys b1 b2 where "rest = xs @ block_pages n @ ys"
      "s = i + m + length xs" "0 < n" "scan (i + m) None xs = Some b1"
      "scan (s + n) None ys = Some b2" "bs = b1 @ (s, n) # b2"
      by auto
    with Block.hyps show ?thesis
      by (intro exI [of _ "block_pages m @ xs"] exI [of _ ys]
          exI [of _ "(i, m) # b1"] exI [of _ b2]) simp
  qed
qed

lemma scan_cover:
  "scan i None ps = Some bs \<Longrightarrow> k < length ps \<Longrightarrow> ps ! k \<noteq> FREE \<Longrightarrow>
   \<exists>s n. (s, n) \<in> set bs \<and> s \<le> i + k \<and> i + k < s + n"
proof (induction arbitrary: k rule: scan_induct)
  case (Nil i)
  then show ?case by simp
next
  case (Free i qs bs)
  then show ?case by (cases k) fastforce+
next
  case (Block i n rest bs)
  show ?case
  proof (cases "k < n")
    case True
    then show ?thesis by (intro exI [of _ i] exI [of _ n]) simp
  next
    case False
    with Block.prems Block.hyps have "k - n < length rest" "rest ! (k - n) \<noteq> FREE"
      by (auto simp: nth_append)
    from Block.IH [OF this] False show ?thesis by auto
  qed
qed

lemma scan_bounds:
  assumes "scan i None ps = Some bs" "(s, n) \<in> set bs"
  shows "i \<le> s \<and> 0 < n \<and> s + n \<le> i + length ps"
  using scan_member [OF assms] by auto

lemma scan_disjoint:
  assumes "scan i None ps = Some bs" "(s, n) \<in> set bs" "(t, m) \<in> set bs" "(s, n) \<noteq> (t, m)"
  shows "s + n \<le> t \<or> t + m \<le> s"
proof -
  obtain xs ys b1 b2 where d: "ps = xs @ block_pages n @ ys" "s = i + length xs"
    "scan i None xs = Some b1" "scan (s + n) None ys = Some b2" "bs = b1 @ (s, n) # b2"
    using scan_member [OF assms(1,2)] by blast
  then consider "(t, m) \<in> set b1" | "(t, m) \<in> set b2"
    using assms(3,4) by auto
  then show ?thesis
    using scan_bounds d by cases (fastforce)+
qed

text \<open>Replacing a run of free pages by a block, and a block by free pages.\<close>

lemma blocks_insert:
  assumes "scan 0 None (xs @ replicate n FREE @ ys) = Some bs" "0 < n"
  shows "\<exists>bs'. scan 0 None (xs @ block_pages n @ ys) = Some bs' \<and>
    set bs' = insert (length xs, n) (set bs) \<and>
    (\<forall>(s, m)\<in>set bs. s + m \<le> length xs \<or> length xs + n \<le> s)"
proof -
  obtain b1 where b1: "scan 0 None xs = Some b1"
    using assms scan_before_free [of 0 None xs "replicate (n - 1) FREE @ ys"]
    by (cases n) auto
  from assms(1) obtain b2 where b2: "scan (length xs + n) None ys = Some b2" "bs = b1 @ b2"
    by (auto simp: scan_append [OF b1])
  have "(s, m) \<in> set b1 \<Longrightarrow> s + m \<le> length xs" for s m
    using scan_bounds [OF b1] by fastforce
  moreover have "(s, m) \<in> set b2 \<Longrightarrow> length xs + n \<le> s" for s m
    using scan_bounds [OF b2(1)] by blast
  ultimately show ?thesis
    using b2 assms(2) by (auto simp: scan_append [OF b1])
qed

lemma blocks_remove:
  assumes "scan 0 None ps = Some bs" "(s, n) \<in> set bs"
  shows "\<exists>xs ys bs'. ps = xs @ block_pages n @ ys \<and> s = length xs \<and> 0 < n \<and>
    scan 0 None (xs @ replicate n FREE @ ys) = Some bs' \<and> set bs' = set bs - {(s, n)}"
proof -
  obtain xs ys b1 b2 where d: "ps = xs @ block_pages n @ ys" "s = length xs" "0 < n"
    "scan 0 None xs = Some b1" "scan (s + n) None ys = Some b2" "bs = b1 @ (s, n) # b2"
    using scan_member [OF assms] by auto
  have "(s, n) \<notin> set b1" using scan_bounds [OF d(4)] d(2,3) by fastforce
  moreover have "(s, n) \<notin> set b2" using scan_bounds [OF d(5)] d(3) by fastforce
  moreover have "scan 0 None (xs @ replicate n FREE @ ys) = Some (b1 @ b2)"
    using d by (simp add: scan_append [OF d(4)])
  ultimately show ?thesis using d by (intro exI [of _ xs] exI [of _ ys]) auto
qed

section \<open>The search for free pages\<close>

definition run_at :: "page list \<Rightarrow> nat \<Rightarrow> nat \<Rightarrow> nat \<Rightarrow> bool" where
  "run_at ps qty n r \<longleftrightarrow> r + n \<le> qty \<and> (\<forall>j. r \<le> j \<and> j < r + n \<longrightarrow> ps ! j = FREE)"

text \<open>
  The loop returns the first run at or after the point where its current count began, and
  \<open>None\<close> exactly when there is none.
\<close>

lemma find_pages_loop_spec:
  assumes "found \<le> i" "found < n" "\<And>j. i - found \<le> j \<Longrightarrow> j < i \<Longrightarrow> ps ! j = FREE"
  shows "case find_pages_loop ps qty n i found of
      None \<Rightarrow> \<forall>r \<ge> i - found. \<not> run_at ps qty n r
    | Some r \<Rightarrow> i - found \<le> r \<and> run_at ps qty n r \<and>
        (\<forall>r'. i - found \<le> r' \<and> r' < r \<longrightarrow> \<not> run_at ps qty n r')"
  using assms
proof (induction ps qty n i found rule: find_pages_loop.induct)
  case (1 ps qty n i found)
  note run = find_pages_loop.simps [of ps qty n i found]
  consider (stop) "\<not> i < qty" | (hit) "i < qty" "ps ! i = FREE" "found + 1 = n"
    | (more) "i < qty" "ps ! i = FREE" "found + 1 \<noteq> n" | (used) "i < qty" "ps ! i \<noteq> FREE"
    by blast
  then show ?case
  proof cases
    case stop
    with "1.prems" show ?thesis by (auto simp: run run_at_def)
  next
    case hit
    have "run_at ps qty n (i - found)"
      unfolding run_at_def
    proof (intro conjI allI impI)
      fix j assume "i - found \<le> j \<and> j < i - found + n"
      with hit "1.prems" show "ps ! j = FREE" by (cases "j = i") auto
    qed (use hit "1.prems" in auto)
    moreover have "i + 1 - n = i - found" using hit by simp
    ultimately show ?thesis using hit by (auto simp: run)
  next
    case more
    have next_: "ps ! j = FREE" if "i + 1 - (found + 1) \<le> j" "j < i + 1" for j
      using that more "1.prems"(3) [of j] by (cases "j = i") auto
    have "case find_pages_loop ps qty n (i + 1) (found + 1) of
      None \<Rightarrow> \<forall>r \<ge> i + 1 - (found + 1). \<not> run_at ps qty n r
    | Some r \<Rightarrow> i + 1 - (found + 1) \<le> r \<and> run_at ps qty n r \<and>
        (\<forall>r'. i + 1 - (found + 1) \<le> r' \<and> r' < r \<longrightarrow> \<not> run_at ps qty n r')"
      by (rule "1.IH"(1) [OF more]) (use more "1.prems" next_ in auto)
    moreover have "i + 1 - (found + 1) = i - found" by simp
    ultimately show ?thesis using more by (simp only: run refl if_True if_False)
  next
    case used
    have IH: "case find_pages_loop ps qty n (i + 1) 0 of
      None \<Rightarrow> \<forall>r \<ge> i + 1 - 0. \<not> run_at ps qty n r
    | Some r \<Rightarrow> i + 1 - 0 \<le> r \<and> run_at ps qty n r \<and>
        (\<forall>r'. i + 1 - 0 \<le> r' \<and> r' < r \<longrightarrow> \<not> run_at ps qty n r')"
      by (rule "1.IH"(2) [OF used]) (use "1.prems" in auto)
    have blocked: "\<not> run_at ps qty n r" if "i - found \<le> r" "r < i + 1" for r
    proof -
      have "r \<le> i" "i < r + n" using that "1.prems" by auto
      with used show ?thesis unfolding run_at_def by blast
    qed
    show ?thesis
    proof (cases "find_pages_loop ps qty n (i + 1) 0")
      case None
      with IH used blocked show ?thesis by (auto simp: run not_less [symmetric])
    next
      case (Some r)
      have "\<not> run_at ps qty n r'" if "i - found \<le> r'" "r' < r" for r'
        using blocked [of r'] IH Some that by (cases "r' < i + 1") auto
      with IH Some used show ?thesis by (auto simp: run)
    qed
  qed
qed

lemma find_pages_loop_0: "find_pages_loop ps qty 0 i found = None"
proof (induction ps qty "0 :: nat" i found rule: find_pages_loop.induct)
  case (1 ps qty i found)
  then show ?case by (subst find_pages_loop.simps) auto
qed

section \<open>Marking and releasing pages\<close>

lemma fold_update_prefix:
  assumes "length xs = a" "length zs = k"
  shows "fold (\<lambda>i ps. ps[i := f i]) [a..<a + k] (xs @ zs @ ys) = xs @ map f [a..<a + k] @ ys"
  using assms
proof (induction k arbitrary: zs ys)
  case (Suc k)
  then obtain z zs' where z: "zs = zs' @ [z]" "length zs' = k"
    by (metis length_Suc_conv_rev)
  have "fold (\<lambda>i ps. ps[i := f i]) [a..<a + k] (xs @ zs' @ z # ys) = xs @ map f [a..<a + k] @ z # ys"
    using Suc.IH [OF Suc.prems(1) z(2)] by simp
  then show ?case using z Suc.prems by (simp add: list_update_append)
qed simp

lemma map_page_mark:
  assumes "0 < n"
  shows "map (page_mark a n) [a..<a + n] = block_pages n"
proof (cases "n = 1")
  case True
  then show ?thesis by (simp add: page_mark_def block_pages_def)
next
  case False
  define m where "m = n - 2"
  with False assms have m: "n = Suc (Suc m)" by simp
  have "\<forall>i\<in>set [Suc a..<Suc a + m]. page_mark a n i = ALLOCATED"
    by (auto simp: page_mark_def m)
  then have mid: "map (page_mark a n) [Suc a..<Suc a + m] = replicate m ALLOCATED"
    by (metis (no_types, lifting) diff_add_inverse length_upt map_eq_conv map_replicate_const)
  have "[a..<a + n] = a # [Suc a..<Suc a + m] @ [Suc a + m]"
    by (simp add: m upt_conv_Cons)
  moreover have "page_mark a n a = START_PAGE_BOUND" "page_mark a n (Suc a + m) = END_PAGE_BOUND"
    by (simp_all add: page_mark_def m)
  ultimately show ?thesis using False mid by (simp add: block_pages_def m)
qed

lemma mark_pages_run:
  "0 < n \<Longrightarrow> mark_pages (xs @ replicate n FREE @ ys) (length xs) n = xs @ block_pages n @ ys"
  unfolding mark_pages_def by (subst fold_update_prefix) (simp_all add: map_page_mark)

lemma free_run_block:
  "set ms \<subseteq> {START_PAGE_BOUND, ALLOCATED} \<Longrightarrow>
   free_run (xs @ ms @ END_PAGE_BOUND # ys) (length xs) = Some (xs @ replicate (length ms + 1) FREE @ ys)"
proof (induction ms arbitrary: xs)
  case Nil
  then show ?case by (subst free_run.simps) simp
next
  case (Cons m ms)
  have "free_run (xs @ (m # ms) @ END_PAGE_BOUND # ys) (length xs) =
    free_run ((xs @ [FREE]) @ ms @ END_PAGE_BOUND # ys) (length (xs @ [FREE]))"
    using Cons.prems by (subst free_run.simps) auto
  also have "\<dots> = Some ((xs @ [FREE]) @ replicate (length ms + 1) FREE @ ys)"
    by (rule Cons.IH) (use Cons.prems in auto)
  finally show ?case by simp
qed

lemma back_to_start_run:
  assumes "k \<le> length ms" "set ms \<subseteq> {ALLOCATED, END_PAGE_BOUND}"
  shows "back_to_start (xs @ START_PAGE_BOUND # ms @ ys) (length xs + k) = Some (length xs)"
  using assms(1)
proof (induction k)
  case 0
  show ?case by (cases "length xs") (auto simp: page_at_def nth_append)
next
  case (Suc k)
  have "ms ! k \<in> set ms" using Suc.prems by simp
  then have "ms ! k \<noteq> START_PAGE_BOUND" using assms(2) by auto
  then have "(xs @ START_PAGE_BOUND # ms @ ys) ! Suc (length xs + k) \<noteq> START_PAGE_BOUND"
    using Suc.prems by (simp add: nth_append)
  then show ?case using Suc by (simp add: page_at_def)
qed

section \<open>The heap invariant and its live blocks\<close>

definition heap_inv :: "heap \<Rightarrow> bool" where
  "heap_inv h \<longleftrightarrow> page_size h = PAGE_SIZE \<and> page_qty h = length (pages h) \<and>
     last_freed_page h = 0 \<and> 0 < heap_start h \<and>
     heap_end h = heap_start h + PAGE_SIZE * page_qty h \<and> heap_end h < 2 ^ 64 \<and>
     pages_ptr h + page_qty h \<le> heap_start h \<and> scan 0 None (pages h) \<noteq> None"

definition live :: "heap \<Rightarrow> (nat \<times> nat) set" where
  "live h = (\<lambda>(i, n). (heap_start h + PAGE_SIZE * i, PAGE_SIZE * n)) ` blocks (pages h)"

text \<open>How many pages a request takes.\<close>

definition pages_for :: "nat \<Rightarrow> nat" where
  "pages_for sz = sz div PAGE_SIZE + (if sz mod PAGE_SIZE \<noteq> 0 then 1 else 0)"

lemma pages_for_0 [simp]: "pages_for 0 = 0"
  by (simp add: pages_for_def PAGE_SIZE_def)

lemma pages_for_pos [simp]: "0 < pages_for sz \<longleftrightarrow> 0 < sz"
  by (auto simp: pages_for_def PAGE_SIZE_def div_greater_zero_iff)

lemma pages_for_ge: "sz \<le> PAGE_SIZE * pages_for sz"
  unfolding pages_for_def PAGE_SIZE_def by simp presburger

lemma run_at_split:
  assumes "run_at ps (length ps) n i"
  shows "ps = take i ps @ replicate n FREE @ drop (i + n) ps \<and> length (take i ps) = i"
proof -
  have "i + n \<le> length ps" using assms by (simp add: run_at_def)
  moreover have "ps ! (i + j) = FREE" if "j < n" for j
    using assms that by (simp add: run_at_def)
  ultimately show ?thesis using split_run [of i n ps FREE] by simp
qed

text \<open>
  What \<open>malloc\<close> does on every heap: it fails on an empty request and when no run of free
  pages is long enough; otherwise it takes the first such run.
\<close>

lemma malloc_cases:
  assumes inv: "heap_inv h"
  obtains (fail) "malloc h sz = Some (0, h)"
      "sz = 0 \<or> (\<forall>r. \<not> run_at (pages h) (length (pages h)) (pages_for sz) r)"
    | (ok) i xs ys where "0 < sz" "pages h = xs @ replicate (pages_for sz) FREE @ ys" "length xs = i"
      "malloc h sz = Some (heap_start h + PAGE_SIZE * i, h\<lparr>pages := xs @ block_pages (pages_for sz) @ ys\<rparr>)"
      "\<forall>r < i. \<not> run_at (pages h) (length (pages h)) (pages_for sz) r"
proof -
  let ?n = "pages_for sz" and ?ps = "pages h"
  let ?loop = "find_pages_loop ?ps (length ?ps) ?n 0 0"
  have hdr: "page_size h = PAGE_SIZE" "page_qty h = length ?ps" "last_freed_page h = 0"
    "heap_end h = heap_start h + PAGE_SIZE * length ?ps" "heap_end h < 2 ^ 64"
    using inv by (auto simp: heap_inv_def)
  have need: "size_to_num_of_pages h sz = Some ?n"
    by (simp add: size_to_num_of_pages_def hdr pages_for_def) (simp add: PAGE_SIZE_def)
  show thesis
  proof (cases ?loop)
    case None
    then have "find_pages h ?n 0 = INVALID_ADDRESS" by (simp add: find_pages_def hdr)
    then have m: "malloc h sz = Some (0, h)" by (simp add: malloc_def need hdr)
    have "sz = 0 \<or> (\<forall>r. \<not> run_at ?ps (length ?ps) ?n r)"
      using find_pages_loop_spec [of 0 0 ?n ?ps "length ?ps"] None by (cases "sz = 0") auto
    with m show thesis by (rule fail)
  next
    case (Some i)
    then have pos: "0 < sz"
      using find_pages_loop_0 [of ?ps "length ?ps" 0 0] by (cases "sz = 0") auto
    then have spec: "run_at ?ps (length ?ps) ?n i" "\<forall>r < i. \<not> run_at ?ps (length ?ps) ?n r"
      using find_pages_loop_spec [of 0 0 ?n ?ps "length ?ps"] Some by auto
    let ?xs = "take i ?ps" and ?ys = "drop (i + ?n) ?ps"
    have split: "?ps = ?xs @ replicate ?n FREE @ ?ys" "length ?xs = i"
      using run_at_split [OF spec(1)] by blast+
    have "i + ?n \<le> length ?ps" using spec(1) by (simp add: run_at_def)
    then have small: "heap_start h + PAGE_SIZE * i < 2 ^ 64" "i < INVALID_ADDRESS"
      using hdr(4,5) by (auto simp: PAGE_SIZE_def INVALID_ADDRESS_def)
    have "mark_pages ?ps i ?n = ?xs @ block_pages ?n @ ?ys"
      using mark_pages_run [of ?n ?xs ?ys] split pos by (metis pages_for_pos)
    moreover have "find_pages h ?n 0 = i" using Some by (simp add: find_pages_def hdr)
    ultimately have "malloc h sz =
        Some (heap_start h + PAGE_SIZE * i, h\<lparr>pages := ?xs @ block_pages ?n @ ?ys\<rparr>)"
      using small by (simp add: malloc_def need hdr mult.commute)
    with pos split spec(2) show thesis by (intro ok)
  qed
qed

text \<open>Releasing through any address inside a block frees exactly its pages.\<close>

lemma free_block:
  assumes inv: "heap_inv h" and ps: "pages h = xs @ block_pages n @ ys" "0 < n"
    and q: "heap_start h + PAGE_SIZE * length xs \<le> q" "q < heap_start h + PAGE_SIZE * (length xs + n)"
  shows "free h q = Some (h\<lparr>pages := xs @ replicate n FREE @ ys\<rparr>)"
proof -
  have hdr: "page_size h = PAGE_SIZE" "heap_end h = heap_start h + PAGE_SIZE * length (pages h)"
    "heap_end h < 2 ^ 64"
    using inv by (auto simp: heap_inv_def)
  define k where "k = (q - heap_start h) div PAGE_SIZE - length xs"
  have k: "(q - heap_start h) div PAGE_SIZE = length xs + k" "k < n"
    using q by (auto simp: k_def PAGE_SIZE_def less_diff_conv2 div_less_iff_less_mult)
  have "length xs + n \<le> length (pages h)" using ps by simp
  then have "PAGE_SIZE * (length xs + n) \<le> PAGE_SIZE * length (pages h)" by (rule mult_le_mono2)
  then have le: "q < heap_end h" "heap_start h \<le> q" using q hdr(2) by linarith+
  have small: "length xs + k < INVALID_ADDRESS"
    using hdr(2,3) ps k(2) by (simp add: PAGE_SIZE_def INVALID_ADDRESS_def)
  have idx: "get_page_index h q = Some (length xs + k)"
    using le hdr k by (simp add: get_page_index_def PAGE_SIZE_def)
  show ?thesis
  proof (cases "n = 1")
    case True
    then show ?thesis
      using ps k(2) small by (simp add: free_def idx page_at_def block_pages_def)
  next
    case False
    define ms where "ms = replicate (n - 2) ALLOCATED @ [END_PAGE_BOUND]"
    have bl: "block_pages n = START_PAGE_BOUND # ms" "length ms = n - 1"
      using False ps(2) by (simp_all add: block_pages_def ms_def)
    have mem: "(START_PAGE_BOUND # ms) ! k \<in> {START_PAGE_BOUND, ALLOCATED, END_PAGE_BOUND}"
      using k(2) bl nth_mem [of k "START_PAGE_BOUND # ms"] by (auto simp: ms_def)
    have at: "page_at (pages h) (length xs + k) = Some ((START_PAGE_BOUND # ms) ! k)"
      using k(2) bl ps by (cases k) (auto simp: page_at_def nth_append)
    have "back_to_start (pages h) (length xs + k) = Some (length xs)"
      using back_to_start_run [of k ms xs ys] k(2) bl ps(1)
      by (simp add: ms_def set_replicate_conv_if split: if_splits)
    moreover have "(START_PAGE_BOUND # ms) ! k = START_PAGE_BOUND \<Longrightarrow> k = 0"
      using k(2) bl by (cases k) (auto simp: ms_def nth_append split: if_splits)
    ultimately have first: "get_first_page_index h q = Some (length xs)"
      using le mem by (auto simp: get_first_page_index_def idx at)
    have len: "length (START_PAGE_BOUND # replicate (n - 2) ALLOCATED) + 1 = n"
      using False ps(2) by simp
    have "free_run (pages h) (length xs) = Some (xs @ replicate n FREE @ ys)"
      using free_run_block [of "START_PAGE_BOUND # replicate (n - 2) ALLOCATED" xs ys] ps(1) bl(1)
      by (simp only: len) (simp add: ms_def set_replicate_conv_if split: if_splits)
    then show ?thesis
      using mem small by (auto simp: free_def idx at first)
  qed
qed

lemma heap_inv_pages:
  "heap_inv h \<Longrightarrow> length ps = length (pages h) \<Longrightarrow> scan 0 None ps = Some bs \<Longrightarrow>
   heap_inv (h\<lparr>pages := ps\<rparr>)"
  by (auto simp: heap_inv_def)

lemma heap_inv_scan: "heap_inv h \<Longrightarrow> \<exists>bs. scan 0 None (pages h) = Some bs"
  by (auto simp: heap_inv_def)

lemma live_scan:
  "scan 0 None (pages h) = Some bs \<Longrightarrow>
   live h = (\<lambda>(i, n). (heap_start h + PAGE_SIZE * i, PAGE_SIZE * n)) ` set bs"
  by (simp add: live_def blocks_def)

lemma PAGE_SIZE_pos [simp]: "0 < PAGE_SIZE"
  by (simp add: PAGE_SIZE_def)

lemma page_offset_inj:
  "((\<lambda>(i, n). (a + PAGE_SIZE * i, PAGE_SIZE * n)) x = (\<lambda>(i, n). (a + PAGE_SIZE * i, PAGE_SIZE * n)) y)
   = (x = y)"
  by (cases x; cases y) (simp add: PAGE_SIZE_def)

text \<open>The effect of a successful request on invariant and live blocks.\<close>

lemma malloc_insert:
  assumes inv: "heap_inv h" and ps: "pages h = xs @ replicate n FREE @ ys" and n: "0 < n"
  defines "h' \<equiv> h\<lparr>pages := xs @ block_pages n @ ys\<rparr>"
    and "p \<equiv> heap_start h + PAGE_SIZE * length xs"
  shows "heap_inv h' \<and> live h' = insert (p, PAGE_SIZE * n) (live h) \<and>
    (\<forall>b\<in>live h. apart (p, PAGE_SIZE * n) b)"
proof -
  obtain bs where bs: "scan 0 None (pages h) = Some bs" using heap_inv_scan [OF inv] ..
  obtain bs' where bs': "scan 0 None (xs @ block_pages n @ ys) = Some bs'"
    "set bs' = insert (length xs, n) (set bs)"
    "\<forall>(s, m)\<in>set bs. s + m \<le> length xs \<or> length xs + n \<le> s"
    using blocks_insert [OF bs [unfolded ps] n] by blast
  have "heap_inv h'"
    unfolding h'_def by (rule heap_inv_pages [OF inv _ bs'(1)]) (simp add: ps n)
  moreover have "live h' = insert (p, PAGE_SIZE * n) (live h)"
    using bs bs' by (simp add: live_scan h'_def p_def)
  moreover have "apart (p, PAGE_SIZE * n) b" if b: "b \<in> live h" for b
  proof -
    obtain s m where sm: "(s, m) \<in> set bs" "b = (heap_start h + PAGE_SIZE * s, PAGE_SIZE * m)"
      using b by (auto simp: live_scan [OF bs])
    then consider "s + m \<le> length xs" | "length xs + n \<le> s" using bs'(3) by auto
    then show ?thesis
      by cases (drule mult_le_mono2 [of _ _ PAGE_SIZE],
        simp add: apart_def sm p_def distrib_left)+
  qed
  ultimately show ?thesis by blast
qed

text \<open>The effect of releasing a live block through any of its addresses.\<close>

lemma free_live_block:
  assumes inv: "heap_inv h" and b: "(p, l) \<in> live h" and q: "p \<le> q" "q < p + l"
  shows "\<exists>h'. free h q = Some h' \<and> heap_inv h' \<and> live h' = live h - {(p, l)} \<and>
    h' = h\<lparr>pages := pages h'\<rparr>"
proof -
  obtain bs where bs: "scan 0 None (pages h) = Some bs" using heap_inv_scan [OF inv] ..
  obtain i n where i: "(i, n) \<in> set bs" "p = heap_start h + PAGE_SIZE * i" "l = PAGE_SIZE * n"
    using b by (auto simp: live_scan [OF bs])
  obtain xs ys bs' where d: "pages h = xs @ block_pages n @ ys" "i = length xs" "0 < n"
    "scan 0 None (xs @ replicate n FREE @ ys) = Some bs'" "set bs' = set bs - {(i, n)}"
    using blocks_remove [OF bs i(1)] by blast
  let ?h = "h\<lparr>pages := xs @ replicate n FREE @ ys\<rparr>"
  have "free h q = Some ?h"
    using free_block [OF inv d(1,3)] q i d(2) by (simp add: distrib_left)
  moreover have "heap_inv ?h"
    by (rule heap_inv_pages [OF inv _ d(4)]) (simp add: d)
  moreover have "live ?h = live h - {(p, l)}"
  proof -
    have "live ?h = (\<lambda>(i, n). (heap_start h + PAGE_SIZE * i, PAGE_SIZE * n)) ` (set bs - {(i, n)})"
      using d by (simp add: live_scan)
    also have "\<dots> = live h - {(p, l)}"
      unfolding live_scan [OF bs] i using page_offset_inj [of "heap_start h"] by fast
    finally show ?thesis .
  qed
  ultimately show ?thesis by simp
qed

lemma live_all_apart:
  assumes "heap_inv h"
  shows "all_apart (live h)"
proof -
  obtain bs where bs: "scan 0 None (pages h) = Some bs" using heap_inv_scan [OF assms] ..
  show ?thesis
    unfolding all_apart_def
  proof (intro ballI impI)
    fix a b assume ab: "a \<in> live h" "b \<in> live h" "a \<noteq> b"
    then obtain s n t m where st: "(s, n) \<in> set bs" "(t, m) \<in> set bs"
      "a = (heap_start h + PAGE_SIZE * s, PAGE_SIZE * n)"
      "b = (heap_start h + PAGE_SIZE * t, PAGE_SIZE * m)" "(s, n) \<noteq> (t, m)"
      by (auto simp: live_scan [OF bs])
    then consider "s + n \<le> t" | "t + m \<le> s" using scan_disjoint [OF bs] by blast
    then show "apart a b"
      by cases (drule mult_le_mono2 [of _ _ PAGE_SIZE], simp add: apart_def st distrib_left)+
  qed
qed

text \<open>The bitmap allocator provides the memory manager interface.\<close>

interpretation bitmap: allocator malloc free heap_inv "\<lambda>h n. True" live
proof
  fix h :: heap and sz p :: nat and h' :: heap
  show "heap_inv h \<Longrightarrow> \<exists>p h'. malloc h sz = Some (p, h')"
    by (erule malloc_cases [of h sz]) blast+
  show "heap_inv h'" if "heap_inv h" "malloc h sz = Some (p, h')"
    using that(1)
  proof (cases rule: malloc_cases [of h sz])
    case fail
    with that show ?thesis by simp
  next
    case (ok i xs ys)
    with malloc_insert [OF that(1) ok(2)] that(2) show ?thesis by simp
  qed
  show "live h' = live h" if "heap_inv h" "malloc h sz = Some (0, h')"
  proof -
    have "0 < heap_start h" using that(1) by (simp add: heap_inv_def)
    with that(2) have "h' = h"
      by (cases rule: malloc_cases [OF that(1), of sz]) auto
    then show ?thesis by simp
  qed
  show "\<exists>l. sz \<le> l \<and> 0 < l \<and> live h' = insert (p, l) (live h) \<and> (\<forall>b\<in>live h. apart (p, l) b)"
    if "heap_inv h" "malloc h sz = Some (p, h')" "0 < p"
    using that(1)
  proof (cases rule: malloc_cases [of h sz])
    case fail
    with that show ?thesis by simp
  next
    case (ok i xs ys)
    with that(2) have "p = heap_start h + PAGE_SIZE * length xs"
      "h' = h\<lparr>pages := xs @ block_pages (pages_for sz) @ ys\<rparr>" by auto
    with malloc_insert [OF that(1) ok(2)] ok(1) pages_for_ge [of sz] show ?thesis
      by (intro exI [of _ "PAGE_SIZE * pages_for sz"]) simp
  qed
  show "\<exists>s'. free h p = Some s' \<and> heap_inv s' \<and> (\<lambda>n. True) = (\<lambda>n. True) \<and> live s' = live h - {(p, l)}"
    if a: "heap_inv h" "(p, l) \<in> live h" for l
  proof -
    obtain bs where bs: "scan 0 None (pages h) = Some bs" using heap_inv_scan [OF a(1)] ..
    have "0 < l" using a(2) scan_bounds [OF bs] by (auto simp: live_scan [OF bs])
    then show ?thesis using free_live_block [OF a, of p] by auto
  qed
  show "heap_inv h \<Longrightarrow> all_apart (live h)" by (rule live_all_apart)
  show "0 < l" if a: "heap_inv h" "(p, l) \<in> live h" for l
  proof -
    obtain bs where bs: "scan 0 None (pages h) = Some bs" using heap_inv_scan [OF a(1)] ..
    show ?thesis using a(2) scan_bounds [OF bs] by (auto simp: live_scan [OF bs])
  qed
qed simp

section \<open>Properties\<close>

lemma init_mm_ok:
  assumes bm: "bm = mem div 32 + (if mem mod 32 \<noteq> 0 then 1 else 0)"
    and bp: "bp = bm div 32 + (if bm mod 32 \<noteq> 0 then 1 else 0)"
    and fit: "bm * 32 + bp * 32 \<le> MAX_MEM" "base + MAX_MEM < 2 ^ 64" "bp \<le> bm"
  shows "init_mm base mem h = initialize_pages
    (h\<lparr>page_size := 32, page_qty := bm, heap_start := base + bp * 32,
       heap_size := bm * 32 + bp * 32, heap_end := base + (bm * 32 + bp * 32),
       last_freed_page := 0, pages_ptr := base\<rparr>)"
proof -
  have small: "wrap64 (bm * 32) = bm * 32" "wrap64 (bm * 32 + bp * 32) = bm * 32 + bp * 32"
    "wrap64 (base + bp * 32) = base + bp * 32"
    "wrap64 (base + (bm * 32 + bp * 32)) = base + (bm * 32 + bp * 32)"
    using fit(1,2) unfolding MAX_MEM_def by (auto intro!: wrap64_id)
  have need: "(if mem mod 32 \<noteq> 0 then bm * 32 else mem) = bm * 32"
    using bm by (cases "mem mod 32 = 0") auto
  have guards: "(bm * 32 + bp * 32 > MAX_MEM) = False" "(bp > bm) = False"
    using fit(1,3) by simp_all
  show ?thesis
    unfolding init_mm_def Let_def PAGE_SIZE_def bm [symmetric] bp [symmetric] small need guards
      if_False ..
qed

text \<open>When \<open>init_mm\<close> accepts a memory range, the heap it sets up satisfies the
  allocator invariant, has no live block, and its data pages end exactly at the byte count
  it reserved; the bitmap lies below the first data page.\<close>

lemma init_mm_establishes:
  assumes "0 < base" "base + MAX_MEM < 2 ^ 64" "0 < mem"
    and "32 * (mem div 32 + 1) + 32 * (mem div 1024 + 2) \<le> MAX_MEM"
  shows "heap_inv (init_mm base mem h) \<and> live (init_mm base mem h) = {} \<and>
    heap_end (init_mm base mem h) = base + heap_size (init_mm base mem h) \<and>
    mem \<le> PAGE_SIZE * page_qty (init_mm base mem h)"
proof -
  define bm where "bm = mem div 32 + (if mem mod 32 \<noteq> 0 then 1 else 0)"
  define bp where "bp = bm div 32 + (if bm mod 32 \<noteq> 0 then 1 else 0)"
  have bm: "mem \<le> 32 * bm" "bm \<le> mem div 32 + 1" "0 < bm"
    unfolding bm_def using assms(3) by (auto simp: div_greater_zero_iff)
  have "bm div 32 \<le> (mem div 32 + 1) div 32" using bm(2) by (rule div_le_mono)
  also have "\<dots> \<le> mem div 1024 + 1" by simp
  finally have bp: "bm \<le> 32 * bp" "bp \<le> mem div 1024 + 2" "bp \<le> bm"
    unfolding bp_def using bm(3) by (auto split: if_splits)
  have eq: "init_mm base mem h = initialize_pages
    (h\<lparr>page_size := 32, page_qty := bm, heap_start := base + bp * 32,
       heap_size := bm * 32 + bp * 32, heap_end := base + (bm * 32 + bp * 32),
       last_freed_page := 0, pages_ptr := base\<rparr>)"
    by (rule init_mm_ok [OF bm_def bp_def]) (use assms bm bp in auto)
  have free: "map (\<lambda>i. FREE) [0..<bm] = replicate bm FREE @ []"
    by (simp add: map_replicate_const)
  have "scan 0 None (map (\<lambda>i. FREE) [0..<bm]) = Some []"
    unfolding free scan_free by simp
  moreover have "base + (32 * bm + 32 * bp) < 2 ^ 64"
    using assms bm bp by (simp add: MAX_MEM_def)
  ultimately show ?thesis
    using bm bp assms(1)
    by (simp add: eq initialize_pages_def heap_inv_def live_def blocks_def PAGE_SIZE_def)
qed

lemma init_mm_establishes_example:
  "heap_inv (init_mm 4096 100 heap_zero) \<and> live (init_mm 4096 100 heap_zero) = {} \<and>
   heap_end (init_mm 4096 100 heap_zero) = 4096 + heap_size (init_mm 4096 100 heap_zero) \<and>
   100 \<le> PAGE_SIZE * page_qty (init_mm 4096 100 heap_zero)"
  by (rule init_mm_establishes) (simp_all add: MAX_MEM_def)

text \<open>A small heap for the witnesses: four pages, the data starting at 4128.\<close>

definition heap4 :: heap where
  "heap4 = init_mm 4096 128 heap_zero"

lemma heap4_eq: "heap4 = \<lparr>heap_start = 4128, heap_size = 160, heap_end = 4256, page_qty = 4,
    page_size = 32, last_freed_page = 0, pages_ptr = 4096, pages = [FREE, FREE, FREE, FREE]\<rparr>"
  by (simp add: heap4_def init_mm_def initialize_pages_def heap_zero_def PAGE_SIZE_def MAX_MEM_def
      wrap64_def upt_rec)

lemma heap4_inv: "heap_inv heap4"
  by (simp add: heap4_eq heap_inv_def PAGE_SIZE_def)

definition heap4a :: heap where
  "heap4a = heap4\<lparr>pages := [START_PAGE_BOUND, END_PAGE_BOUND, FREE, FREE]\<rparr>"

lemma heap4a_inv: "heap_inv heap4a"
  by (simp add: heap4a_def heap4_eq heap_inv_def PAGE_SIZE_def)

lemmas malloc_eval = malloc_def size_to_num_of_pages_def find_pages_def find_pages_loop.simps
  INVALID_ADDRESS_def mark_pages_def page_mark_def upt_rec wrap64_def

lemma heap4_malloc: "malloc heap4 40 = Some (4128, heap4a)"
  by (simp add: heap4a_def heap4_eq malloc_eval)

lemma heap4a_live: "(4128, 64) \<in> live heap4a"
  by (simp add: heap4a_def heap4_eq live_def blocks_def PAGE_SIZE_def)

text \<open>C3: \<open>malloc\<close> equals the first-fit reference: it takes the first run of enough free
  pages, rewrites exactly these pages to one block, and returns the address of its first
  page; with no such run, or an empty request, it returns NULL and changes nothing.\<close>

theorem malloc_first_fit:
  assumes "heap_inv h"
  shows "malloc h sz =
    (if sz = 0 then Some (0, h)
     else case find (run_at (pages h) (page_qty h) (pages_for sz)) [0..<page_qty h] of
       None \<Rightarrow> Some (0, h)
     | Some i \<Rightarrow> Some (heap_start h + PAGE_SIZE * i,
         h\<lparr>pages := take i (pages h) @ block_pages (pages_for sz) @ drop (i + pages_for sz) (pages h)\<rparr>))"
  using assms
proof (cases rule: malloc_cases [of h sz])
  case fail
  moreover have "page_qty h = length (pages h)" using assms by (simp add: heap_inv_def)
  ultimately show ?thesis
    by (auto simp: find_None_iff find_Some_iff split: option.splits)
next
  case (ok i xs ys)
  have qty: "page_qty h = length (pages h)" using assms by (simp add: heap_inv_def)
  have at: "run_at (pages h) (page_qty h) (pages_for sz) i"
    using ok qty by (auto simp: run_at_def nth_append)
  have "i < page_qty h" using ok(1,2,3) qty by simp
  then have "find (run_at (pages h) (page_qty h) (pages_for sz)) [0..<page_qty h] = Some i"
    using at ok(5) qty by (auto simp: find_Some_iff intro!: exI [of _ i])
  with ok show ?thesis by simp
qed

theorem malloc_first_fit_witness:
  "heap_inv heap4 \<and> malloc heap4 40 = Some (4128, heap4a)"
  using malloc_first_fit [OF heap4_inv, of 40] heap4_inv heap4_malloc by simp

text \<open>C21: releasing the block that \<open>malloc\<close> has just returned restores the heap exactly.\<close>

theorem malloc_free_roundtrip:
  assumes "heap_inv h" "malloc h sz = Some (p, h')" "p \<noteq> 0"
  shows "free h' p = Some h"
  using assms(1)
proof (cases rule: malloc_cases [of h sz])
  case fail
  with assms show ?thesis by simp
next
  case (ok i xs ys)
  with assms(2) have h': "h' = h\<lparr>pages := xs @ block_pages (pages_for sz) @ ys\<rparr>"
    and p: "p = heap_start h + PAGE_SIZE * length xs" by auto
  have n: "0 < pages_for sz" using ok(1) by simp
  have inv: "heap_inv h'" using malloc_insert [OF assms(1) ok(2) n] h' by simp
  have "free h' p = Some (h'\<lparr>pages := xs @ replicate (pages_for sz) FREE @ ys\<rparr>)"
    by (rule free_block [OF inv]) (use h' p n in auto)
  also have "h'\<lparr>pages := xs @ replicate (pages_for sz) FREE @ ys\<rparr> = h"
    using ok(2) h' by simp
  finally show ?thesis .
qed

theorem malloc_free_roundtrip_witness: "free heap4a 4128 = Some heap4"
  by (rule malloc_free_roundtrip [OF heap4_inv heap4_malloc]) simp

text \<open>\<open>free\<close> called with any address inside a live block, not only its first byte,
  releases exactly that block and leaves every other block live.\<close>

lemma free_interior_pointer:
  assumes "heap_inv h" "(p, l) \<in> live h" "p \<le> q" "q < p + l"
  shows "\<exists>h'. free h q = Some h' \<and> heap_inv h' \<and> live h' = live h - {(p, l)} \<and>
    h' = h\<lparr>pages := pages h'\<rparr>"
  by (rule free_live_block [OF assms])

lemma free_interior_pointer_example:
  "\<exists>h'. free heap4a 4170 = Some h' \<and> heap_inv h' \<and> live h' = live heap4a - {(4128, 64)} \<and>
    h' = heap4a\<lparr>pages := pages h'\<rparr>"
  by (rule free_interior_pointer [OF heap4a_inv heap4a_live]) simp_all

text \<open>C27: the bounds check of \<open>get_page_index\<close> is off by one. On a heap that satisfies
  the invariant, \<open>free\<close> reads outside the page array for the one address \<open>heap_end\<close> and
  for no other; for addresses outside the heap it changes nothing.\<close>

theorem free_out_of_bounds_iff:
  assumes "heap_inv h"
  shows "(free h q = None) = (q = heap_end h) \<and>
    (q < heap_start h \<or> heap_end h < q \<longrightarrow> free h q = Some h)"
proof -
  have hdr: "page_size h = PAGE_SIZE" "heap_end h = heap_start h + PAGE_SIZE * length (pages h)"
    "heap_end h < 2 ^ 64"
    using assms by (auto simp: heap_inv_def)
  obtain bs where bs: "scan 0 None (pages h) = Some bs" using heap_inv_scan [OF assms] ..
  let ?k = "(q - heap_start h) div PAGE_SIZE"
  have small: "length (pages h) < INVALID_ADDRESS"
    using hdr by (simp add: INVALID_ADDRESS_def PAGE_SIZE_def)
  consider (out) "q < heap_start h \<or> heap_end h < q" | (at_end) "q = heap_end h" "heap_start h \<le> q"
    | (ins) "heap_start h \<le> q" "q < heap_end h" using hdr(2) by linarith
  then show ?thesis
  proof cases
    case out
    then show ?thesis using hdr(2) by (auto simp: free_def get_page_index_def)
  next
    case at_end
    then have "free h q = None"
      using hdr small by (simp add: free_def get_page_index_def page_at_def PAGE_SIZE_def)
    with at_end show ?thesis by auto
  next
    case ins
    then have k: "?k < length (pages h)" "?k < INVALID_ADDRESS"
      using hdr small by (auto simp: PAGE_SIZE_def less_mult_imp_div_less)
    have "free h q \<noteq> None"
    proof (cases "pages h ! ?k = FREE")
      case True
      then show ?thesis
        using ins k hdr(1) by (simp add: free_def get_page_index_def page_at_def PAGE_SIZE_def)
    next
      case False
      obtain s n where sn: "(s, n) \<in> set bs" "s \<le> ?k" "?k < s + n"
        using scan_cover [OF bs k(1) False] by auto
      have b: "(heap_start h + PAGE_SIZE * s, PAGE_SIZE * n) \<in> live h"
        using sn(1) by (auto simp: live_scan [OF bs])
      have "heap_start h + PAGE_SIZE * s \<le> q \<and> q < heap_start h + PAGE_SIZE * s + PAGE_SIZE * n"
        using sn(2,3) ins(1) unfolding PAGE_SIZE_def by linarith
      then show ?thesis using free_live_block [OF assms b, of q] by auto
    qed
    with ins show ?thesis by auto
  qed
qed

theorem free_out_of_bounds_iff_witness:
  "free heap4 4256 = None \<and> free heap4 4000 = Some heap4"
  using free_out_of_bounds_iff [OF heap4_inv, of 4256] free_out_of_bounds_iff [OF heap4_inv, of 4000]
  by (simp add: heap4_eq)

text \<open>Every page is free or belongs to exactly one block.\<close>

lemma count_free_acc: "count_free ps a = a + count_free ps 0"
proof (induction ps arbitrary: a)
  case (Cons p ps)
  show ?case using Cons.IH [of "a + 1"] Cons.IH [of a] Cons.IH [of 1] by simp
qed simp

lemma count_free_append: "count_free (xs @ ys) a = count_free ys (count_free xs a)"
  by (induction xs arbitrary: a) auto

lemma count_free_block [simp]: "count_free (block_pages n) a = a"
proof -
  have "count_free (replicate k ALLOCATED) a = a" for k
    by (induction k) auto
  then show ?thesis by (simp add: block_pages_def count_free_append)
qed

lemma scan_count:
  "scan i None ps = Some bs \<Longrightarrow> count_free ps 0 + int (sum_list (map snd bs)) = int (length ps)"
proof (induction rule: scan_induct)
  case (Free i qs bs)
  then show ?case using count_free_acc [of qs 1] by simp
next
  case (Block i n rest bs)
  then show ?case by (simp add: count_free_append)
qed simp

lemma scan_distinct: "scan i None ps = Some bs \<Longrightarrow> distinct bs"
proof (induction rule: scan_induct)
  case (Block i n rest bs)
  then show ?case using scan_bounds [of "i + n" rest bs i n] by auto
qed simp_all

text \<open>Accounting: that of \<open>print_mem\<close> is conservative: the bytes of the free pages that
  \<open>calculate_free_pages\<close> counts and the bytes of the live blocks add up to the data pages
  of the heap.\<close>

lemma free_pages_conservation:
  assumes "heap_inv h"
  shows "int PAGE_SIZE * calculate_free_pages h + int (\<Sum>(p, l)\<in>live h. l)
    = int (PAGE_SIZE * page_qty h)"
proof -
  obtain bs where bs: "scan 0 None (pages h) = Some bs" using heap_inv_scan [OF assms] ..
  let ?f = "\<lambda>(i, n). (heap_start h + PAGE_SIZE * i, PAGE_SIZE * n)"
  have "(\<Sum>(p, l)\<in>live h. l) = (\<Sum>x\<in>set bs. case ?f x of (p, l) \<Rightarrow> l)"
    unfolding live_scan [OF bs]
    by (subst sum.reindex) (auto simp: inj_on_def PAGE_SIZE_def comp_def)
  also have "\<dots> = (\<Sum>x\<in>set bs. PAGE_SIZE * snd x)"
    by (rule sum.cong) auto
  also have "\<dots> = PAGE_SIZE * sum_list (map snd bs)"
    using scan_distinct [OF bs] by (simp add: sum_list_distinct_conv_sum_set sum_distrib_left)
  finally have "(\<Sum>(p, l)\<in>live h. l) = PAGE_SIZE * sum_list (map snd bs)" .
  moreover have "page_qty h = length (pages h)" using assms by (simp add: heap_inv_def)
  moreover have "int PAGE_SIZE * (count_free (pages h) 0 + int (sum_list (map snd bs)))
      = int PAGE_SIZE * int (length (pages h))"
    using scan_count [OF bs] by simp
  ultimately show ?thesis
    by (simp add: calculate_free_pages_def distrib_left)
qed

lemma free_pages_example:
  "int PAGE_SIZE * calculate_free_pages heap4a + int (\<Sum>(p, l)\<in>live heap4a. l)
    = int (PAGE_SIZE * page_qty heap4a)"
  by (rule free_pages_conservation [OF heap4a_inv])



end
