(* ===== verification/Mem_Buddy.thy ===== *)
theory Mem_Buddy
  imports Alloc_Spec
begin

unbundle bit_operations_syntax

text \<open>
  Kernel/memory_manager/mem_buddy.c, the buddy allocator the Makefile's \<open>buddy\<close> target
  links. The tree of \<open>Node\<close> structures is the datatype \<open>node\<close>: both child pointers are
  NULL (\<open>None\<close>) or both are set. Each node carries the address of its own record, so that
  the placement of the node table is part of the model. The lemmas give the tree invariant,
  the blocks it hands out, and the allocator contract; the properties also show what the
  placement of the table and the counter \<open>mem_allocated\<close> do.
\<close>

section \<open>State\<close>

datatype node =
  Node (addr: nat) (start: nat) (node_size: nat) (state: page) (index: nat)
    (childs: "(node \<times> node) option")

record buddy =
  root :: node
  mem_allocated :: nat

text \<open>The size in bytes of the structure \<open>Node\<close>: six fields of eight bytes.\<close>

definition sizeof_Node :: nat where "sizeof_Node = 48"

section \<open>Operations\<close>

definition init_mm :: "nat \<Rightarrow> nat \<Rightarrow> buddy \<Rightarrow> buddy" where
  "init_mm base_addres mem_ammount b =
     b\<lparr>root := Node base_addres mem_ammount mem_ammount FREE 0 None\<rparr>"

definition check_state :: "node \<Rightarrow> node" where
  "check_state nd = (case nd of Node a st sz s ix ch \<Rightarrow>
     (case ch of
        None \<Rightarrow> Node a st sz FREE ix ch
      | Some (l, r) \<Rightarrow>
          if state r = FREE \<and> state l = FREE then Node a st sz FREE ix ch
          else if state l = ALLOCATED \<and> state r = ALLOCATED then Node a st sz ALLOCATED ix ch
          else Node a st sz PARCIAL ix ch))"

definition create_childs :: "node \<Rightarrow> node \<times> node" where
  "create_childs nd =
     (let left_index = wrap64 (index nd * 2 + 1);
          right_index = wrap64 (left_index + 1);
          new_size = node_size nd div 2
      in (Node (wrap64 (addr nd + sizeof_Node * left_index)) (start nd) new_size FREE left_index None,
          Node (wrap64 (addr nd + sizeof_Node * right_index)) (wrap64 (start nd + new_size)) new_size
            FREE right_index None))"

text \<open>
  \<open>malloc_rec\<close> threads the global \<open>mem_allocated\<close> and returns the pointer, the node as the
  call leaves it, and the counter. With \<open>bytes = 0\<close> the splitting recursion never ends,
  which is \<open>None\<close>; \<open>malloc\<close> never passes 0.
\<close>

fun depth :: "node \<Rightarrow> nat" where
  "depth (Node a st sz s ix None) = 0"
| "depth (Node a st sz s ix (Some (l, r))) = Suc (max (depth l) (depth r))"

function malloc_rec :: "node \<Rightarrow> nat \<Rightarrow> nat \<Rightarrow> (nat \<times> node \<times> nat) option" where
  "malloc_rec (Node a st sz s ix ch) bytes ma =
     (if s = ALLOCATED then Some (0, Node a st sz s ix ch, ma)
      else case ch of
        Some (l, r) \<Rightarrow>
          do { (new_node, l', ma') \<leftarrow> malloc_rec l bytes ma;
               if new_node = 0 then
                 do { (new_node, r', ma') \<leftarrow> malloc_rec r bytes ma';
                      Some (new_node, check_state (Node a st sz s ix (Some (l', r'))), ma') }
               else Some (new_node, check_state (Node a st sz s ix (Some (l', r))), ma') }
      | None \<Rightarrow>
          if bytes > sz then Some (0, Node a st sz s ix ch, ma)
          else if sz div 2 \<ge> bytes then
            (if bytes = 0 then None
             else case create_childs (Node a st sz s ix ch) of (l, r) \<Rightarrow>
               do { (new_node, l', ma') \<leftarrow> malloc_rec l bytes ma;
                    Some (new_node, check_state (Node a st sz s ix (Some (l', r))), ma') })
          else Some (st, Node a st sz ALLOCATED ix ch, wrap64 (ma + bytes)))"
  by pat_completeness auto
termination
  by (relation "measures [\<lambda>(nd, bytes, ma). depth nd, \<lambda>(nd, bytes, ma). node_size nd]")
     (auto simp: create_childs_def Let_def)

declare malloc_rec.simps [simp del]

definition IS_POWER_OF_TWO :: "nat \<Rightarrow> bool" where
  "IS_POWER_OF_TWO x \<longleftrightarrow> x \<noteq> 0 \<and> (x AND (x - 1)) = 0"

text \<open>The rounding loop on the \<open>int\<close> variable \<open>i\<close>; doubling past 2^31 is undefined.\<close>

function round_loop :: "nat \<Rightarrow> nat \<Rightarrow> nat option" where
  "round_loop i bytes =
     (if i < bytes then (if 0 < i \<and> i * 2 < 2 ^ 31 then round_loop (i * 2) bytes else None)
      else Some i)"
  by pat_completeness auto
termination
  by (relation "measure (\<lambda>(i, bytes). bytes - i)") auto

declare round_loop.simps [simp del]

definition malloc :: "buddy \<Rightarrow> nat \<Rightarrow> (nat \<times> buddy) option" where
  "malloc b bytes =
     (if node_size (root b) < bytes then Some (0, b)
      else do {
        n \<leftarrow> (if IS_POWER_OF_TWO bytes then Some bytes else round_loop 1 bytes);
        (rta, nd, ma) \<leftarrow> malloc_rec (root b) n (mem_allocated b);
        Some (rta, b\<lparr>root := nd, mem_allocated := ma\<rparr>)
      })"

fun free_rec :: "node \<Rightarrow> nat \<Rightarrow> nat \<Rightarrow> node \<times> nat" where
  "free_rec (Node a st sz s ix (Some (l, r))) ptr ma =
     (let (ch, ma') =
            (if start r > ptr then (case free_rec l ptr ma of (l', ma') \<Rightarrow> ((l', r), ma'))
             else (case free_rec r ptr ma of (r', ma') \<Rightarrow> ((l, r'), ma')));
          nd = check_state (Node a st sz s ix (Some ch))
      in (if state nd = FREE then Node a st sz FREE ix None else nd, ma'))"
| "free_rec (Node a st sz s ix None) ptr ma =
     (if s = ALLOCATED \<and> st = ptr then (Node a st sz FREE ix None, sub64 ma sz)
      else (Node a st sz s ix None, ma))"

definition free :: "buddy \<Rightarrow> nat \<Rightarrow> buddy option" where
  "free b mem = (case free_rec (root b) mem (mem_allocated b) of
     (nd, ma) \<Rightarrow> Some (b\<lparr>root := nd, mem_allocated := ma\<rparr>))"

text \<open>The three numbers \<open>print_mem\<close> draws: total, free, allocated.\<close>

definition print_mem :: "buddy \<Rightarrow> int \<times> int \<times> int" where
  "print_mem b = (to_int32 (int (node_size (root b))),
     to_int32 (int (sub64 (node_size (root b)) (mem_allocated b))),
     to_int32 (int (mem_allocated b)))"

section \<open>The tree invariant and the blocks it encodes\<close>

text \<open>
  In a well-formed tree children halve their parent's range, an inner node is ALLOCATED when
  both its children are, PARCIAL otherwise, and never has two FREE children.
\<close>

fun wf_node :: "node \<Rightarrow> bool" where
  "wf_node (Node a st sz s ix None) \<longleftrightarrow>
     0 < st \<and> 0 < sz \<and> st + sz < 2 ^ 64 \<and> (s = FREE \<or> s = ALLOCATED)"
| "wf_node (Node a st sz s ix (Some (l, r))) \<longleftrightarrow>
     0 < st \<and> st + sz < 2 ^ 64 \<and> wf_node l \<and> wf_node r \<and> start l = st \<and> node_size l = sz div 2 \<and>
     start r = st + sz div 2 \<and> node_size r = sz div 2 \<and> \<not> (state l = FREE \<and> state r = FREE) \<and>
     s = (if state l = ALLOCATED \<and> state r = ALLOCATED then ALLOCATED else PARCIAL)"

fun leaves :: "node \<Rightarrow> page \<Rightarrow> (nat \<times> nat) set" where
  "leaves (Node a st sz s ix None) s' = (if s = s' then {(st, sz)} else {})"
| "leaves (Node a st sz s ix (Some (l, r))) s' = leaves l s' \<union> leaves r s'"

abbreviation blocks :: "node \<Rightarrow> (nat \<times> nat) set" where
  "blocks nd \<equiv> leaves nd ALLOCATED"

definition same_place :: "node \<Rightarrow> node \<Rightarrow> bool" where
  "same_place nd nd' \<longleftrightarrow> addr nd' = addr nd \<and> start nd' = start nd \<and>
     node_size nd' = node_size nd \<and> index nd' = index nd"

lemma same_place_refl [simp]: "same_place nd nd"
  by (simp add: same_place_def)

lemma wf_bounds: "wf_node nd \<Longrightarrow> 0 < start nd \<and> 0 < node_size nd \<and> start nd + node_size nd < 2 ^ 64"
proof (induction nd rule: wf_node.induct)
  case (2 a st sz s ix l r)
  then have "0 < sz div 2" by auto
  with 2 show ?case by auto
qed auto

lemma leaves_bounds:
  "wf_node nd \<Longrightarrow> (p, l) \<in> leaves nd s \<Longrightarrow>
   start nd \<le> p \<and> p + l \<le> start nd + node_size nd \<and> 0 < l"
proof (induction nd s arbitrary: p l rule: leaves.induct)
  case (2 a st sz s ix x y s')
  have half: "sz div 2 + sz div 2 \<le> sz" by simp
  from 2 half show ?case by fastforce
qed (auto split: if_splits)

lemma leaves_apart:
  "wf_node nd \<Longrightarrow> a \<in> leaves nd s \<Longrightarrow> b \<in> leaves nd s' \<Longrightarrow> a \<noteq> b \<Longrightarrow> apart a b"
proof (induction nd arbitrary: a b rule: wf_node.induct)
  case (1 ad st sz t ix)
  then show ?case by (auto split: if_splits)
next
  case (2 ad st sz t ix l r)
  have sep: "apart u v \<and> apart v u" if "u \<in> leaves l w" "v \<in> leaves r w'" for u v w w'
    using leaves_bounds [of l "fst u" "snd u" w] leaves_bounds [of r "fst v" "snd v" w'] that 2(3)
    by (auto simp: apart_def)
  from 2 sep show ?case unfolding leaves.simps wf_node.simps by blast
qed

lemma leaves_disjoint: "wf_node nd \<Longrightarrow> s \<noteq> s' \<Longrightarrow> a \<in> leaves nd s \<Longrightarrow> a \<notin> leaves nd s'"
proof (induction nd arbitrary: a rule: wf_node.induct)
  case (2 ad st sz t ix l r)
  have sep: "u \<in> leaves l w \<Longrightarrow> u \<in> leaves r w' \<Longrightarrow> False" for u w w'
    using leaves_bounds [of l "fst u" "snd u" w] leaves_bounds [of r "fst u" "snd u" w'] 2(3)
    by (cases u) simp
  from 2 sep show ?case unfolding leaves.simps wf_node.simps by blast
qed (auto split: if_splits)

lemma allocated_no_free: "wf_node nd \<Longrightarrow> state nd = ALLOCATED \<Longrightarrow> leaves nd FREE = {}"
  by (induction nd rule: wf_node.induct) (auto split: if_splits)

lemma free_is_leaf: "wf_node nd \<Longrightarrow> state nd = FREE \<Longrightarrow> childs nd = None"
  by (cases nd rule: wf_node.cases) (auto split: if_splits)

lemma wf_state: "wf_node nd \<Longrightarrow> state nd = FREE \<or> state nd = ALLOCATED \<or> state nd = PARCIAL"
  by (cases nd rule: wf_node.cases) auto

lemma check_state_wf:
  "wf_node (Node a st sz s ix ch) \<Longrightarrow> ch \<noteq> None \<Longrightarrow> check_state (Node a st sz s ix ch) = Node a st sz s ix ch"
  by (auto simp: check_state_def split: option.splits)

lemma check_state_inner:
  "wf_node l \<Longrightarrow> wf_node r \<Longrightarrow> 0 < st \<Longrightarrow> st + sz < 2 ^ 64 \<Longrightarrow> start l = st \<Longrightarrow> node_size l = sz div 2 \<Longrightarrow>
   start r = st + sz div 2 \<Longrightarrow> node_size r = sz div 2 \<Longrightarrow> state l \<noteq> FREE \<or> state r \<noteq> FREE \<Longrightarrow>
   wf_node (check_state (Node a st sz s ix (Some (l, r))))"
  by (auto simp: check_state_def)

lemma check_state_fields [simp]:
  "addr (check_state nd) = addr nd" "start (check_state nd) = start nd"
  "node_size (check_state nd) = node_size nd" "index (check_state nd) = index nd"
  "childs (check_state nd) = childs nd"
  by (cases nd; auto simp: check_state_def split: option.splits)+

lemma check_state_leaves [simp]:
  "leaves (check_state (Node a st sz s ix (Some (l, r)))) t = leaves l t \<union> leaves r t"
  by (simp add: check_state_def)

lemma check_state_not_free:
  "state l \<noteq> FREE \<or> state r \<noteq> FREE \<Longrightarrow> state (check_state (Node a st sz s ix (Some (l, r)))) \<noteq> FREE"
  by (auto simp: check_state_def)

section \<open>Allocation\<close>

lemma malloc_rec_size:
  "malloc_rec nd n ma = Some (p, nd', ma') \<Longrightarrow> same_place nd nd'"
  apply (cases nd)
  apply (simp add: malloc_rec.simps same_place_def)
  apply (auto simp: bind_eq_Some_conv split: if_splits option.splits prod.splits)
  done

lemma create_childs_wf:
  assumes "wf_node (Node a st sz FREE ix None)" "0 < sz div 2" "create_childs (Node a st sz FREE ix None) = (l, r)"
  shows "wf_node l \<and> wf_node r \<and> start l = st \<and> node_size l = sz div 2 \<and> start r = st + sz div 2 \<and>
    node_size r = sz div 2 \<and> state l = FREE \<and> state r = FREE \<and> childs l = None \<and> childs r = None"
  using assms by (auto simp: create_childs_def Let_def)

text \<open>
  What one call of \<open>malloc_rec\<close> does: it fails only when no free leaf is big enough, and then
  leaves everything as it was; otherwise it carves one block out of the front of one free
  leaf, and \<open>free_rec\<close> at that address undoes it.
\<close>

definition malloc_post :: "node \<Rightarrow> nat \<Rightarrow> nat \<Rightarrow> nat \<Rightarrow> node \<Rightarrow> nat \<Rightarrow> bool" where
  "malloc_post nd n ma p nd' ma' \<longleftrightarrow> wf_node nd' \<and> same_place nd nd' \<and>
     (if p = 0 then nd' = nd \<and> ma' = ma \<and> (\<forall>(q, m)\<in>leaves nd FREE. m < n)
      else state nd' \<noteq> FREE \<and> ma' = wrap64 (ma + n) \<and>
        (\<exists>l m. n \<le> l \<and> l div 2 < n \<and> l \<le> m \<and> (p, m) \<in> leaves nd FREE \<and>
           blocks nd' = insert (p, l) (blocks nd) \<and>
           (\<forall>ma0. free_rec nd' p ma0 = (nd, sub64 ma0 l))))"

lemma malloc_post_new:
  "p \<noteq> 0 \<Longrightarrow> wf_node nd' \<Longrightarrow> same_place nd nd' \<Longrightarrow> state nd' \<noteq> FREE \<Longrightarrow> ma' = wrap64 (ma + n) \<Longrightarrow>
   n \<le> l \<Longrightarrow> l div 2 < n \<Longrightarrow> l \<le> m \<Longrightarrow> (p, m) \<in> leaves nd FREE \<Longrightarrow>
   blocks nd' = insert (p, l) (blocks nd) \<Longrightarrow>
   (\<And>ma0. free_rec nd' p ma0 = (nd, sub64 ma0 l)) \<Longrightarrow> malloc_post nd n ma p nd' ma'"
  unfolding malloc_post_def by auto

lemma leaves_left_less:
  "wf_node (Node a st sz s ix (Some (l, r))) \<Longrightarrow> (p, m) \<in> leaves l t \<Longrightarrow> p < start r"
  using leaves_bounds [of l p m t] by auto

lemma leaves_right_ge:
  "wf_node (Node a st sz s ix (Some (l, r))) \<Longrightarrow> (p, m) \<in> leaves r t \<Longrightarrow> \<not> p < start r"
  using leaves_bounds [of r p m t] by auto

lemma malloc_post_left:
  assumes wf: "wf_node (Node a st sz s ix (Some (l, r)))"
    and post: "malloc_post l n ma p l' ma'" and p: "p \<noteq> 0"
  shows "malloc_post (Node a st sz s ix (Some (l, r))) n ma p
    (check_state (Node a st sz s ix (Some (l', r)))) ma'"
proof -
  from post p obtain k m where k: "n \<le> k" "k div 2 < n" "k \<le> m" "(p, m) \<in> leaves l FREE"
    "blocks l' = insert (p, k) (blocks l)" "\<And>ma0. free_rec l' p ma0 = (l, sub64 ma0 k)"
    and sp: "same_place l l'" and l': "wf_node l'" "state l' \<noteq> FREE" "ma' = wrap64 (ma + n)"
    unfolding malloc_post_def by auto
  have w: "wf_node (check_state (Node a st sz s ix (Some (l', r))))"
    using wf sp l' by (intro check_state_inner) (auto simp: same_place_def)
  have "free_rec (check_state (Node a st sz s ix (Some (l', r)))) p ma0
      = (Node a st sz s ix (Some (l, r)), sub64 ma0 k)" for ma0
  proof -
    have "p < start r" using leaves_left_less [OF wf k(4)] .
    moreover have "check_state (Node a st sz t ix (Some (l, r))) = Node a st sz s ix (Some (l, r))" for t
      using check_state_wf [OF wf] by (simp add: check_state_def)
    moreover have "s \<noteq> FREE" using wf by auto
    ultimately show ?thesis
      using k(6) by (auto simp: check_state_def [of "Node a st sz s ix (Some (l', r))"])
  qed
  then show ?thesis
    by (intro malloc_post_new [OF p w _ _ l'(3) k(1-3)])
      (use k sp l'(2) in \<open>simp_all add: same_place_def check_state_not_free\<close>)
qed

lemma malloc_post_right:
  assumes wf: "wf_node (Node a st sz s ix (Some (l, r)))"
    and post: "malloc_post r n ma p r' ma'" and p: "p \<noteq> 0"
  shows "malloc_post (Node a st sz s ix (Some (l, r))) n ma p
    (check_state (Node a st sz s ix (Some (l, r')))) ma'"
proof -
  from post p obtain k m where k: "n \<le> k" "k div 2 < n" "k \<le> m" "(p, m) \<in> leaves r FREE"
    "blocks r' = insert (p, k) (blocks r)" "\<And>ma0. free_rec r' p ma0 = (r, sub64 ma0 k)"
    and sp: "same_place r r'" and r': "wf_node r'" "state r' \<noteq> FREE" "ma' = wrap64 (ma + n)"
    unfolding malloc_post_def by auto
  have w: "wf_node (check_state (Node a st sz s ix (Some (l, r'))))"
    using wf sp r' by (intro check_state_inner) (auto simp: same_place_def)
  have "free_rec (check_state (Node a st sz s ix (Some (l, r')))) p ma0
      = (Node a st sz s ix (Some (l, r)), sub64 ma0 k)" for ma0
  proof -
    have "\<not> p < start r'" using leaves_right_ge [OF wf k(4)] sp by (simp add: same_place_def)
    moreover have "check_state (Node a st sz t ix (Some (l, r))) = Node a st sz s ix (Some (l, r))" for t
      using check_state_wf [OF wf] by (simp add: check_state_def)
    moreover have "s \<noteq> FREE" using wf by auto
    ultimately show ?thesis
      using k(6) by (auto simp: check_state_def [of "Node a st sz s ix (Some (l, r'))"])
  qed
  then show ?thesis
    by (intro malloc_post_new [OF p w _ _ r'(3) k(1-3)])
      (use k sp r'(2) in \<open>simp_all add: same_place_def check_state_not_free\<close>)
qed

lemma malloc_rec_split:
  assumes wf: "wf_node (Node a st sz FREE ix None)" and ch: "create_childs (Node a st sz FREE ix None) = (l, r)"
    and n: "0 < n" "n \<le> sz div 2" and post: "malloc_post l n ma p l' ma'"
  shows "malloc_post (Node a st sz FREE ix None) n ma p (check_state (Node a st sz FREE ix (Some (l', r)))) ma'"
proof -
  have lr: "wf_node l" "wf_node r" "start l = st" "node_size l = sz div 2" "start r = st + sz div 2"
    "node_size r = sz div 2" "state l = FREE" "state r = FREE" "childs l = None" "childs r = None"
    using create_childs_wf [OF wf _ ch] n by auto
  have leaf: "leaves l FREE = {(st, sz div 2)}" "leaves l ALLOCATED = {}" "leaves r ALLOCATED = {}"
    using lr by (cases l; cases r; simp)+
  have p: "p \<noteq> 0" using post n leaf by (cases "p = 0") (auto simp: malloc_post_def)
  from post p obtain k m where k: "n \<le> k" "k div 2 < n" "k \<le> m" "(p, m) \<in> leaves l FREE"
    "blocks l' = insert (p, k) (blocks l)" "\<And>ma0. free_rec l' p ma0 = (l, sub64 ma0 k)"
    and sp: "same_place l l'" and l': "wf_node l'" "state l' \<noteq> FREE" "ma' = wrap64 (ma + n)"
    unfolding malloc_post_def by auto
  have pm: "p = st" "m = sz div 2" using k(4) leaf by auto
  have w: "wf_node (check_state (Node a st sz FREE ix (Some (l', r))))"
    using wf sp l' lr by (intro check_state_inner) (auto simp: same_place_def)
  have "free_rec (check_state (Node a st sz FREE ix (Some (l', r)))) p ma0
      = (Node a st sz FREE ix None, sub64 ma0 k)" for ma0
  proof -
    have "p < start r" using pm lr n by simp
    moreover have "check_state (Node a st sz t ix (Some (l, r))) = Node a st sz FREE ix (Some (l, r))" for t
      using lr by (simp add: check_state_def)
    ultimately show ?thesis
      using k(6) by (auto simp: check_state_def [of "Node a st sz FREE ix (Some (l', r))"])
  qed
  moreover have "k \<le> sz" using k(3) pm by linarith
  ultimately show ?thesis
    by (intro malloc_post_new [OF p w _ _ l'(3) k(1,2), where m = sz])
      (use k(5) l'(2) pm leaf in \<open>simp_all add: same_place_def check_state_not_free\<close>)
qed

lemma wf_not_allocated_leaf:
  "wf_node (Node a st sz s ix None) \<Longrightarrow> s \<noteq> ALLOCATED \<Longrightarrow> s = FREE"
  by simp

lemma malloc_rec_inner:
  assumes wf: "wf_node (Node a st sz s ix (Some (l, r)))" and s: "s \<noteq> ALLOCATED" and n: "0 < n"
    and l: "malloc_rec l n ma = Some (p, l', m1)" "malloc_post l n ma p l' m1"
    and r: "p = 0 \<Longrightarrow> \<exists>p2 r' m2. malloc_rec r n ma = Some (p2, r', m2) \<and> malloc_post r n ma p2 r' m2"
  shows "\<exists>p nd' ma'. malloc_rec (Node a st sz s ix (Some (l, r))) n ma = Some (p, nd', ma') \<and>
    malloc_post (Node a st sz s ix (Some (l, r))) n ma p nd' ma'"
proof (cases "p = 0")
  case False
  then show ?thesis
    using malloc_post_left [of a st sz s ix l r n ma p l' m1] l s wf n by (simp add: malloc_rec.simps)
next
  case True
  then have same: "l' = l" "m1 = ma" and no: "\<forall>(q, m)\<in>leaves l FREE. m < n"
    using l(2) by (auto simp: malloc_post_def)
  obtain p2 r' m2 where r: "malloc_rec r n ma = Some (p2, r', m2)" "malloc_post r n ma p2 r' m2"
    using r [OF True] by blast
  show ?thesis
  proof (cases "p2 = 0")
    case False
    then show ?thesis
      using malloc_post_right [of a st sz s ix l r n ma p2 r' m2] l r same s wf n True
      by (simp add: malloc_rec.simps)
  next
    case True
    with r have "r' = r" "m2 = ma" "\<forall>(q, m)\<in>leaves r FREE. m < n" by (auto simp: malloc_post_def)
    moreover have "check_state (Node a st sz s ix (Some (l, r))) = Node a st sz s ix (Some (l, r))"
      using wf s by (intro check_state_wf) auto
    ultimately show ?thesis
      using l r same s wf True no \<open>p = 0\<close> by (auto simp: malloc_rec.simps malloc_post_def)
  qed
qed

lemma malloc_rec_correct:
  assumes "wf_node nd" "0 < n"
  shows "\<exists>p nd' ma'. malloc_rec nd n ma = Some (p, nd', ma') \<and> malloc_post nd n ma p nd' ma'"
  using assms
proof (induction nd n ma rule: malloc_rec.induct)
  case (1 a st sz s ix ch n ma)
  consider (full) "s = ALLOCATED" | (inner) l r where "s \<noteq> ALLOCATED" "ch = Some (l, r)"
    | (small) "s = FREE" "ch = None" "sz < n"
    | (split) "s = FREE" "ch = None" "\<not> sz < n" "n \<le> sz div 2"
    | (take) "s = FREE" "ch = None" "\<not> sz < n" "\<not> n \<le> sz div 2"
  proof (cases ch)
    case None
    with 1 wf_not_allocated_leaf that show ?thesis by fastforce
  qed (use that in auto)
  then show ?case
  proof cases
    case full
    have "leaves (Node a st sz s ix ch) FREE = {}"
      by (rule allocated_no_free) (use 1 full in auto)
    with full 1 show ?thesis by (simp add: malloc_rec.simps malloc_post_def)
  next
    case inner
    then have wf: "wf_node l" "wf_node r" using 1 by auto
    obtain p l' m1 where l: "malloc_rec l n ma = Some (p, l', m1)" "malloc_post l n ma p l' m1"
      using 1(2) [OF inner refl wf(1) 1(5)] by blast
    have "\<exists>p2 r' m2. malloc_rec r n ma = Some (p2, r', m2) \<and> malloc_post r n ma p2 r' m2" if p: "p = 0"
    proof -
      have "l' = l" "m1 = ma" using l(2) p by (auto simp: malloc_post_def)
      then show ?thesis using 1(3) [OF inner refl l(1) refl refl p wf(2) 1(5)] by simp
    qed
    then show ?thesis using malloc_rec_inner [OF _ inner(1) 1(5) l] 1(4) inner(2) by simp
  next
    case small
    then show ?thesis using 1 by (simp add: malloc_rec.simps malloc_post_def)
  next
    case split
    obtain l r where ch: "create_childs (Node a st sz FREE ix None) = (l, r)"
      by (cases "create_childs (Node a st sz FREE ix None)")
    have wl: "wf_node l" using create_childs_wf [OF _ _ ch] split 1 by auto
    obtain p l' m1 where "malloc_rec l n ma = Some (p, l', m1)" "malloc_post l n ma p l' m1"
      using 1(1) [of l r] split wl 1(5) ch by auto
    then show ?thesis
      using malloc_rec_split [of a st sz ix l r n ma p l' m1] split 1 ch
      by (simp add: malloc_rec.simps)
  next
    case take
    have "malloc_post (Node a st sz FREE ix None) n ma st (Node a st sz ALLOCATED ix None) (wrap64 (ma + n))"
      by (intro malloc_post_new [where l = sz and m = sz]) (use take 1 in \<open>auto simp: same_place_def\<close>)
    with take 1 show ?thesis by (simp add: malloc_rec.simps)
  qed
qed

section \<open>Release\<close>

lemma free_rec_correct:
  "wf_node nd \<Longrightarrow> (p, l) \<in> blocks nd \<Longrightarrow>
   \<exists>nd'. free_rec nd p ma = (nd', sub64 ma l) \<and> wf_node nd' \<and> same_place nd nd' \<and>
     blocks nd' = blocks nd - {(p, l)}"
proof (induction nd p ma rule: free_rec.induct)
  case (2 a st sz s ix p ma)
  then show ?case by (auto simp: same_place_def)
next
  case (1 a st sz s ix x y p ma)
  let ?nd = "Node a st sz s ix (Some (x, y))"
  have wf: "wf_node x" "wf_node y" using 1 by auto
  have sep: "\<not> ((p, l) \<in> blocks x \<and> (p, l) \<in> blocks y)"
    using leaves_left_less [OF 1(3)] leaves_right_ge [OF 1(3)] by blast
  obtain x' y' where x': "wf_node x'" "same_place x x'" and y': "wf_node y'" "same_place y y'"
    and b: "blocks x' \<union> blocks y' = blocks ?nd - {(p, l)}"
    and step: "free_rec ?nd p ma = (let nd = check_state (Node a st sz s ix (Some (x', y'))) in
       (if state nd = FREE then Node a st sz FREE ix None else nd, sub64 ma l))"
  proof (cases "(p, l) \<in> blocks x")
    case True
    then have p: "p < start y" using leaves_left_less [OF 1(3)] by blast
    obtain x' where "free_rec x p ma = (x', sub64 ma l)" "wf_node x'" "same_place x x'"
      "blocks x' = blocks x - {(p, l)}"
      using 1(1) [OF p wf(1) True] by auto
    with that [of x' y] show thesis using wf p sep True by (auto simp: Let_def)
  next
    case False
    then have py: "(p, l) \<in> blocks y" using 1(4) by simp
    then have p: "\<not> p < start y" using leaves_right_ge [OF 1(3)] by blast
    obtain y' where "free_rec y p ma = (y', sub64 ma l)" "wf_node y'" "same_place y y'"
      "blocks y' = blocks y - {(p, l)}"
      using 1(2) [OF p wf(2) py] by auto
    with that [of x y'] show thesis using wf p False by (auto simp: Let_def)
  qed
  show ?case
  proof (cases "state x' = FREE \<and> state y' = FREE")
    case True
    have "blocks x' = {}" "blocks y' = {}"
      using True x' y' free_is_leaf [of x'] free_is_leaf [of y'] by (cases x'; cases y'; simp)+
    with True step b 1(3) wf_bounds [of ?nd] show ?thesis
      by (auto simp: check_state_def same_place_def)
  next
    case False
    have "wf_node (check_state (Node a st sz s ix (Some (x', y'))))"
      using False 1(3) x' y' by (intro check_state_inner) (auto simp: same_place_def)
    moreover have "state (check_state (Node a st sz s ix (Some (x', y')))) \<noteq> FREE"
      using False by (auto simp: check_state_def)
    ultimately show ?thesis using step b by (simp add: same_place_def Let_def)
  qed
qed

section \<open>The allocator contract\<close>

definition buddy_inv :: "buddy \<Rightarrow> bool" where
  "buddy_inv b \<longleftrightarrow> wf_node (root b)"

definition fits :: "buddy \<Rightarrow> nat \<Rightarrow> bool" where
  "fits b n \<longleftrightarrow> node_size (root b) < n \<or> n \<le> 2 ^ 30"

definition live :: "buddy \<Rightarrow> (nat \<times> nat) set" where
  "live b = blocks (root b)"

definition round_bytes :: "nat \<Rightarrow> nat option" where
  "round_bytes n = (if IS_POWER_OF_TWO n then Some n else round_loop 1 n)"

lemma round_loop_ge: "0 < i \<Longrightarrow> round_loop i n = Some m \<Longrightarrow> n \<le> m \<and> 0 < m"
proof (induction i n rule: round_loop.induct)
  case (1 i n)
  then show ?case by (simp add: round_loop.simps [of i n] split: if_splits)
qed

lemma round_loop_total: "0 < i \<Longrightarrow> n \<le> 2 ^ 30 \<Longrightarrow> \<exists>m. round_loop i n = Some m"
proof (induction i n rule: round_loop.induct)
  case (1 i n)
  then show ?case by (simp add: round_loop.simps [of i n])
qed

lemma round_loop_less: "0 < i \<Longrightarrow> i < 2 * n \<Longrightarrow> round_loop i n = Some m \<Longrightarrow> m < 2 * n"
proof (induction i n rule: round_loop.induct)
  case (1 i n)
  then show ?case by (simp add: round_loop.simps [of i n] split: if_splits)
qed

lemma round_bytes_ge: "round_bytes n = Some m \<Longrightarrow> n \<le> m \<and> 0 < m"
  using round_loop_ge [of 1 n m] by (auto simp: round_bytes_def IS_POWER_OF_TWO_def split: if_splits)

lemma round_bytes_less: "0 < n \<Longrightarrow> round_bytes n = Some m \<Longrightarrow> m < 2 * n"
  using round_loop_less [of 1 n m] by (auto simp: round_bytes_def split: if_splits)

lemma round_bytes_total: "n \<le> 2 ^ 30 \<Longrightarrow> \<exists>m. round_bytes n = Some m"
  using round_loop_total [of 1 n] by (auto simp: round_bytes_def)

lemma malloc_eq:
  "malloc b n = (if node_size (root b) < n then Some (0, b)
     else do { m \<leftarrow> round_bytes n; (p, nd, ma) \<leftarrow> malloc_rec (root b) m (mem_allocated b);
               Some (p, b\<lparr>root := nd, mem_allocated := ma\<rparr>) })"
  by (simp add: malloc_def round_bytes_def)

lemma malloc_cases_buddy [consumes 2, case_names large small]:
  assumes "buddy_inv b" "malloc b n = Some (p, b')"
  obtains "node_size (root b) < n" "p = 0" "b' = b"
  | m where "n \<le> node_size (root b)" "round_bytes n = Some m" "n \<le> m" "0 < m"
      "malloc_post (root b) m (mem_allocated b) p (root b') (mem_allocated b')"
proof (cases "node_size (root b) < n")
  case True
  show thesis by (rule that(1)) (use True assms(2) in \<open>simp_all add: malloc_eq\<close>)
next
  case False
  with assms(2) obtain m nd ma where m: "round_bytes n = Some m"
    and r: "malloc_rec (root b) m (mem_allocated b) = Some (p, nd, ma)"
    and b': "b' = b\<lparr>root := nd, mem_allocated := ma\<rparr>"
    by (cases "round_bytes n") (auto simp: malloc_eq bind_eq_Some_conv)
  have ge: "0 < m" "n \<le> m" using round_bytes_ge [OF m] by auto
  obtain q nd2 ma2 where q: "malloc_rec (root b) m (mem_allocated b) = Some (q, nd2, ma2)"
    "malloc_post (root b) m (mem_allocated b) q nd2 ma2"
    using malloc_rec_correct [of "root b" m] assms(1) ge unfolding buddy_inv_def by blast
  show thesis
    by (rule that(2) [OF _ m ge(2,1)]) (use False q r b' in simp_all)
qed

lemma malloc_same_size:
  "malloc b n = Some (p, b') \<Longrightarrow> same_place (root b) (root b')"
  using malloc_rec_size
  by (auto simp: malloc_def bind_eq_Some_conv split: if_splits)

lemma malloc_post_inv:
  "malloc_post nd n ma p nd' ma' \<Longrightarrow> wf_node nd'"
  by (simp add: malloc_post_def)

interpretation buddy: allocator malloc free buddy_inv fits live
proof (unfold_locales, goal_cases)
  case (1 b n)
  show ?case
  proof (cases "node_size (root b) < n")
    case True
    then show ?thesis by (simp add: malloc_def)
  next
    case False
    then obtain m where m: "round_bytes n = Some m" using 1 round_bytes_total by (auto simp: fits_def)
    then have "0 < m" using round_bytes_ge by blast
    then obtain p nd ma where "malloc_rec (root b) m (mem_allocated b) = Some (p, nd, ma)"
      using malloc_rec_correct [of "root b" m] 1(1) unfolding buddy_inv_def by blast
    with m False show ?thesis by (simp add: malloc_eq)
  qed
next
  case (2 b n p b')
  from 2 show ?case
    by (cases rule: malloc_cases_buddy) (use 2 in \<open>auto simp: buddy_inv_def malloc_post_def\<close>)
next
  case (3 b n p b')
  then show ?case using malloc_same_size by (fastforce simp: fits_def same_place_def)
next
  case (4 b n b')
  then show ?case
    by (cases rule: malloc_cases_buddy) (auto simp: live_def malloc_post_def)
next
  case (5 b n p b')
  from 5(1,2) show ?case
  proof (cases rule: malloc_cases_buddy)
    case large
    with 5 show ?thesis by simp
  next
    case (small m)
    then obtain l k where l: "m \<le> l" "l \<le> k" "(p, k) \<in> leaves (root b) FREE"
      "blocks (root b') = insert (p, l) (blocks (root b))"
      using 5 by (auto simp: malloc_post_def)
    have wf: "wf_node (root b)" using 5 by (simp add: buddy_inv_def)
    have "apart (p, l) q" if q: "q \<in> live b" for q
    proof -
      have "q \<noteq> (p, k)" using q l(3) leaves_disjoint [OF wf, of ALLOCATED FREE] by (auto simp: live_def)
      then have "apart (p, k) q"
        using leaves_apart [OF wf l(3), of q ALLOCATED] q by (auto simp: live_def)
      with l(2) show ?thesis by (auto simp: apart_def)
    qed
    with l small show ?thesis by (intro exI [of _ l]) (auto simp: live_def)
  qed
next
  case (6 b p l)
  then obtain nd where "free_rec (root b) p (mem_allocated b) = (nd, sub64 (mem_allocated b) l)"
    "wf_node nd" "same_place (root b) nd" "blocks nd = blocks (root b) - {(p, l)}"
    using free_rec_correct by (fastforce simp: buddy_inv_def live_def)
  then show ?case
    by (auto simp: free_def buddy_inv_def live_def fits_def same_place_def fun_eq_iff)
next
  case (7 b)
  then show ?case using leaves_apart by (auto simp: all_apart_def buddy_inv_def live_def)
next
  case (8 b p l)
  then show ?case using leaves_bounds by (auto simp: buddy_inv_def live_def)
qed

section \<open>Properties\<close>

definition kernel_buddy :: buddy where
  "kernel_buddy = init_mm 0x600000 0x2700000 \<lparr>root = Node 0 0 0 FREE 0 None, mem_allocated = 0\<rparr>"

lemma kernel_buddy_eq:
  "kernel_buddy = \<lparr>root = Node 6291456 40894464 40894464 FREE 0 None, mem_allocated = 0\<rparr>"
  by (simp add: kernel_buddy_def init_mm_def)

lemma kernel_buddy_inv: "buddy_inv kernel_buddy"
  by (simp add: kernel_buddy_eq buddy_inv_def)

lemmas buddy_eval = kernel_buddy_eq malloc_eq round_bytes_def round_loop.simps malloc_rec.simps
  create_childs_def check_state_def sizeof_Node_def wrap64_def

text \<open>C20: \<open>malloc\<close> of the buddy allocator, for every request that fits the rounding loop. It
  returns; on NULL nothing changed and either the request exceeds the heap or no free block
  holds the rounded size; otherwise the new live block starts a block that was free, holds the
  request, and is less than four times as big as it.\<close>

theorem buddy_malloc_correct:
  assumes "buddy_inv b" "fits b n"
  shows "\<exists>p b'. malloc b n = Some (p, b') \<and> buddy_inv b' \<and>
    (if p = 0 then b' = b \<and> (node_size (root b) < n \<or>
       (\<exists>m. round_bytes n = Some m \<and> (\<forall>(q, k)\<in>leaves (root b) FREE. k < m)))
     else \<exists>l k. (p, k) \<in> leaves (root b) FREE \<and> n \<le> l \<and> l \<le> k \<and> (0 < n \<longrightarrow> l < 4 * n) \<and>
       live b' = insert (p, l) (live b))"
proof -
  obtain p b' where m: "malloc b n = Some (p, b')" using buddy.malloc_total [OF assms] by blast
  have inv: "buddy_inv b'" using buddy.malloc_inv [OF assms(1) m] .
  from assms(1) m show ?thesis
  proof (cases rule: malloc_cases_buddy)
    case large
    with m inv show ?thesis by auto
  next
    case (small k)
    show ?thesis
    proof (cases "p = 0")
      case True
      then have "root b' = root b" "mem_allocated b' = mem_allocated b"
        "\<forall>(q, c)\<in>leaves (root b) FREE. c < k"
        using small(5) by (auto simp: malloc_post_def)
      with True m inv small(2) show ?thesis by auto
    next
      case False
      then obtain l c where l: "k \<le> l" "l div 2 < k" "l \<le> c" "(p, c) \<in> leaves (root b) FREE"
        "blocks (root b') = insert (p, l) (blocks (root b))"
        using small(5) by (auto simp: malloc_post_def)
      have "l < 4 * n" if "0 < n" using round_bytes_less [OF that small(2)] l(2) by linarith
      moreover have "n \<le> l" using l(1) small(3) by simp
      ultimately show ?thesis using False m inv l(3-5) unfolding live_def by auto
    qed
  qed
qed

theorem buddy_malloc_correct_witness:
  "\<exists>p b'. malloc kernel_buddy 4096 = Some (p, b') \<and> buddy_inv b' \<and>
    (if p = 0 then b' = kernel_buddy \<and> (node_size (root kernel_buddy) < 4096 \<or>
       (\<exists>m. round_bytes 4096 = Some m \<and> (\<forall>(q, k)\<in>leaves (root kernel_buddy) FREE. k < m)))
     else \<exists>l k. (p, k) \<in> leaves (root kernel_buddy) FREE \<and> 4096 \<le> l \<and> l \<le> k \<and>
       ((0::nat) < 4096 \<longrightarrow> l < 4 * 4096) \<and> live b' = insert (p, l) (live kernel_buddy))"
  by (rule buddy_malloc_correct [OF kernel_buddy_inv]) (simp add: fits_def)

text \<open>C22: releasing the block just obtained restores the tree exactly, merges included. The
  counter \<open>mem_allocated\<close> is not restored: \<open>malloc\<close> adds the rounded request and \<open>free\<close>
  subtracts the size of the block, which differ unless the block is exactly the request.\<close>

theorem buddy_roundtrip:
  assumes "buddy_inv b" "malloc b n = Some (p, b')" "p \<noteq> 0"
  shows "\<exists>m l. round_bytes n = Some m \<and> m \<le> l \<and> live b' = insert (p, l) (live b) \<and>
    free b' p = Some (b\<lparr>mem_allocated := sub64 (wrap64 (mem_allocated b + m)) l\<rparr>)"
  using assms(1,2)
proof (cases rule: malloc_cases_buddy)
  case large
  with assms show ?thesis by simp
next
  case (small m)
  then obtain l where l: "m \<le> l" "blocks (root b') = insert (p, l) (blocks (root b))"
    "free_rec (root b') p (mem_allocated b') = (root b, sub64 (mem_allocated b') l)"
    "mem_allocated b' = wrap64 (mem_allocated b + m)"
    using assms(3) by (auto simp: malloc_post_def)
  then have "free b' p = Some (b\<lparr>mem_allocated := sub64 (wrap64 (mem_allocated b + m)) l\<rparr>)"
    by (simp add: free_def)
  with l small show ?thesis unfolding live_def by blast
qed

lemma kernel_malloc_4096:
  "\<exists>b'. malloc kernel_buddy 4096 = Some (40894464, b') \<and> live b' = {(40894464, 4992)}"
  by (simp add: buddy_eval IS_POWER_OF_TWO_def live_def)

theorem buddy_roundtrip_witness:
  "\<exists>b' m l. malloc kernel_buddy 4096 = Some (40894464, b') \<and> round_bytes 4096 = Some m \<and> m \<le> l \<and>
    live b' = insert (40894464, l) (live kernel_buddy) \<and>
    free b' 40894464 = Some (kernel_buddy\<lparr>mem_allocated := sub64 (wrap64 (mem_allocated kernel_buddy + m)) l\<rparr>)"
proof -
  obtain b' where "malloc kernel_buddy 4096 = Some (40894464, b')" using kernel_malloc_4096 by blast
  with buddy_roundtrip [OF kernel_buddy_inv this] show ?thesis by auto
qed


text \<open>The address ranges of the node records of a tree.\<close>

fun records :: "node \<Rightarrow> (nat \<times> nat) set" where
  "records (Node a st sz s ix None) = {(a, sizeof_Node)}"
| "records (Node a st sz s ix (Some (l, r))) = insert (a, sizeof_Node) (records l \<union> records r)"


section \<open>Power-of-two heaps\<close>

lemma and_pred_pow2: "(x::nat) \<noteq> 0 \<Longrightarrow> x AND (x - 1) = 0 \<Longrightarrow> \<exists>k. x = 2 ^ k"
proof (induction x rule: less_induct)
  case (less x)
  show ?case
  proof (cases "even x")
    case True
    then obtain q where q: "x = 2 * q" by blast
    have q0: "q \<noteq> 0" "q < x" using less.prems q by auto
    have "x - 1 = 2 * (q - 1) + 1" using q q0 by simp
    then have "(x AND (x - 1)) = 2 * (q AND (q - 1))"
      unfolding q by (simp add: and_nat_rec [of "2 * q"])
    then obtain k where "q = 2 ^ k" using less.IH [OF q0(2,1)] less.prems by auto
    then have "x = 2 ^ Suc k" using q by simp
    then show ?thesis ..
  next
    case False
    then obtain q where q: "x = 2 * q + 1" by (metis oddE)
    then have "(x AND (x - 1)) = 2 * q"
      by (simp add: and_nat_rec [of "Suc (2 * q)"])
    then have "x = 2 ^ 0" using less.prems q by simp
    then show ?thesis ..
  qed
qed

lemma round_loop_pow2: "round_loop (2 ^ j) n = Some m \<Longrightarrow> \<exists>k. m = 2 ^ k"
proof (induction "(2::nat) ^ j" n arbitrary: j rule: round_loop.induct)
  case (1 n)
  show ?case
  proof (cases "2 ^ j < n")
    case True
    with 1(2) have "2 ^ j * 2 < (2::nat) ^ 31" "round_loop (2 ^ j * 2) n = Some m"
      by (simp_all add: round_loop.simps [of "2 ^ j" n] split: if_splits)
    with 1(1) [of "Suc j"] True show ?thesis by (simp add: mult.commute)
  next
    case False
    with 1(2) show ?thesis by (auto simp: round_loop.simps [of "2 ^ j" n])
  qed
qed

lemma round_bytes_pow2: "round_bytes n = Some m \<Longrightarrow> \<exists>k. m = 2 ^ k"
  using round_loop_pow2 [of 0 n m] and_pred_pow2 [of n]
  by (auto simp: round_bytes_def IS_POWER_OF_TWO_def split: if_splits)

lemma leaves_pow2: "wf_node nd \<Longrightarrow> node_size nd = 2 ^ k \<Longrightarrow> (p, l) \<in> leaves nd s \<Longrightarrow> \<exists>j. l = 2 ^ j"
proof (induction nd s arbitrary: k rule: leaves.induct)
  case (2 a st sz t ix x y s)
  have "0 < node_size x" using wf_bounds [of x] 2(3) by simp
  then obtain j where "k = Suc j" using 2(3,4) by (cases k) auto
  then have "node_size x = 2 ^ j" "node_size y = 2 ^ j" using 2(3,4) by auto
  with 2 show ?case by auto
qed (auto split: if_splits)

lemma pow2_between:
  assumes "(2::nat) ^ i \<le> 2 ^ j" "2 ^ j div 2 < (2::nat) ^ i"
  shows "(2::nat) ^ j = 2 ^ i"
proof -
  have "i \<le> j" using assms(1) by (simp add: power_increasing_iff)
  then show ?thesis using assms(2) by (cases j) (auto simp: le_Suc_eq)
qed

lemma leaves_finite [simp]: "finite (leaves nd s)"
  by (induction nd s rule: leaves.induct) auto

lemma leaves_sum: "wf_node nd \<Longrightarrow> (\<Sum>(p, l)\<in>leaves nd s. l) \<le> node_size nd"
proof (induction nd s rule: leaves.induct)
  case (2 a st sz t ix x y s)
  have "leaves x s \<inter> leaves y s = {}"
    using leaves_left_less [OF 2(3)] leaves_right_ge [OF 2(3)] by fast
  then have "(\<Sum>(p, l)\<in>leaves x s \<union> leaves y s. l)
      = (\<Sum>(p, l)\<in>leaves x s. l) + (\<Sum>(p, l)\<in>leaves y s. l)"
    by (intro sum.union_disjoint) auto
  also have "\<dots> \<le> sz div 2 + sz div 2" using 2 by (intro add_mono) auto
  also have "\<dots> \<le> sz" by simp
  finally show ?case by simp
qed auto

definition counted :: "buddy \<Rightarrow> bool" where
  "counted b \<longleftrightarrow> buddy_inv b \<and> mem_allocated b = (\<Sum>(p, l)\<in>live b. l)"

lemma live_sum_less: "buddy_inv b \<Longrightarrow> (\<Sum>(p, l)\<in>live b. l) < 2 ^ 64"
  using leaves_sum [of "root b" ALLOCATED] wf_bounds [of "root b"]
  by (simp add: buddy_inv_def live_def)

lemma counted_malloc:
  assumes "counted b" "node_size (root b) = 2 ^ k" "malloc b n = Some (p, b')"
  shows "counted b'"
proof -
  have inv: "buddy_inv b" "buddy_inv b'"
    using assms buddy.malloc_inv by (auto simp: counted_def)
  from inv(1) assms(3) show ?thesis
  proof (cases rule: malloc_cases_buddy)
    case large
    with assms(1) show ?thesis by simp
  next
    case (small m)
    show ?thesis
    proof (cases "p = 0")
      case True
      with small(5) assms(1) inv show ?thesis by (simp add: malloc_post_def counted_def live_def)
    next
      case False
      then obtain l where l: "m \<le> l" "l div 2 < m" "blocks (root b') = insert (p, l) (blocks (root b))"
        and ma: "mem_allocated b' = wrap64 (mem_allocated b + m)"
        using small(5) by (auto simp: malloc_post_def)
      have "same_place (root b) (root b')" using malloc_same_size [OF assms(3)] .
      then have "node_size (root b') = 2 ^ k" using assms(2) by (simp add: same_place_def)
      then obtain j where j: "l = 2 ^ j"
        using leaves_pow2 [of "root b'" k p l ALLOCATED] inv(2) l(3) by (auto simp: buddy_inv_def)
      obtain i where "m = 2 ^ i" using round_bytes_pow2 [OF small(2)] ..
      with l(1,2) j have lm: "l = m" using pow2_between by blast
      have "(p, l) \<notin> live b" using buddy.malloc_new [OF inv(1) assms(3)] False by force
      then have "(\<Sum>(p, l)\<in>live b'. l) = mem_allocated b + m"
        using l(3) lm assms(1) by (simp add: live_def counted_def)
      with live_sum_less [OF inv(2)] ma inv(2) show ?thesis by (simp add: counted_def)
    qed
  qed
qed

lemma counted_free:
  assumes "counted b" "(p, l) \<in> live b" "free b p = Some b'"
  shows "counted b' \<and> node_size (root b') = node_size (root b)"
proof -
  have inv: "buddy_inv b" using assms(1) by (simp add: counted_def)
  obtain nd where nd: "free_rec (root b) p (mem_allocated b) = (nd, sub64 (mem_allocated b) l)"
    "wf_node nd" "blocks nd = blocks (root b) - {(p, l)}" "same_place (root b) nd"
    using free_rec_correct [of "root b" p l] inv assms(2) by (auto simp: buddy_inv_def live_def)
  have b': "b' = b\<lparr>root := nd, mem_allocated := sub64 (mem_allocated b) l\<rparr>"
    using assms(3) nd(1) by (simp add: free_def)
  have fin: "finite (live b)" by (simp add: live_def)
  have "mem_allocated b = l + (\<Sum>(p, l)\<in>live b - {(p, l)}. l)"
    using assms(1,2) sum.remove [OF fin assms(2), of "\<lambda>(p, l). l"] by (simp add: counted_def)
  moreover have "mem_allocated b < 2 ^ 64" using live_sum_less [OF inv] assms(1) by (simp add: counted_def)
  ultimately have "sub64 (mem_allocated b) l = (\<Sum>(p, l)\<in>live b - {(p, l)}. l)"
    by (subst sub64_id) auto
  then show ?thesis using nd b' by (simp add: counted_def buddy_inv_def live_def same_place_def)
qed

lemma counted_serve:
  "counted b \<Longrightarrow> node_size (root b) = 2 ^ k \<Longrightarrow> well_behaved malloc free live b rs \<Longrightarrow>
   \<exists>b'. serve malloc free b rs = Some b' \<and> counted b'"
proof (induction rs arbitrary: b)
  case (Cons r rs)
  show ?case
  proof (cases r)
    case (Malloc n)
    with Cons.prems obtain p b1 where m: "malloc b n = Some (p, b1)"
      and wb: "well_behaved malloc free live b1 rs"
      by (auto split: option.splits)
    have "node_size (root b1) = 2 ^ k"
      using malloc_same_size [OF m] Cons.prems(2) by (simp add: same_place_def)
    from Cons.IH [OF counted_malloc [OF Cons.prems(1,2) m] this wb] show ?thesis
      using Malloc m by simp
  next
    case (Free p)
    with Cons.prems obtain l b1 where l: "(p, l) \<in> live b" and f: "free b p = Some b1"
      and wb: "well_behaved malloc free live b1 rs"
      by (auto split: option.splits)
    have "counted b1" "node_size (root b1) = 2 ^ k"
      using counted_free [OF Cons.prems(1) l f] Cons.prems(2) by auto
    from Cons.IH [OF this wb] show ?thesis using Free f by simp
  qed
qed simp

text \<open>C5: on a heap whose size is a power of two, whatever a client requests and releases,
  the allocator never meets undefined behaviour, its live blocks are pairwise disjoint and the
  counter \<open>mem_allocated\<close> is exactly the number of bytes in live blocks.\<close>

theorem buddy_pow2_exact:
  assumes "buddy_inv b" "node_size (root b) = 2 ^ k" "mem_allocated b = (\<Sum>(p, l)\<in>live b. l)"
    and "well_behaved malloc free live b rs"
  shows "\<exists>b'. serve malloc free b rs = Some b' \<and> all_apart (live b') \<and>
    mem_allocated b' = (\<Sum>(p, l)\<in>live b'. l)"
proof -
  have "counted b" using assms(1,3) by (simp add: counted_def)
  then obtain b' where b': "serve malloc free b rs = Some b'" "counted b'"
    using counted_serve [OF _ assms(2,4)] by blast
  moreover have "all_apart (live b')"
    using b'(2) by (intro buddy.live_apart) (simp add: counted_def)
  ultimately show ?thesis unfolding counted_def by blast
qed

definition buddy64 :: buddy where
  "buddy64 = init_mm 4096 64 \<lparr>root = Node 0 0 0 FREE 0 None, mem_allocated = 0\<rparr>"

lemma buddy64_eq: "buddy64 = \<lparr>root = Node 4096 64 64 FREE 0 None, mem_allocated = 0\<rparr>"
  by (simp add: buddy64_def init_mm_def)

lemma buddy64_malloc: "malloc buddy64 20 = Some (64, \<lparr>root = Node 4096 64 64 PARCIAL 0
  (Some (Node 4144 64 32 ALLOCATED 1 None, Node 4192 96 32 FREE 2 None)), mem_allocated = 32\<rparr>)"
  by (simp add: buddy64_eq buddy_eval IS_POWER_OF_TWO_def)

theorem buddy_pow2_exact_witness:
  "\<exists>b'. serve malloc free buddy64 [Malloc 20, Malloc 10, Free 64, Malloc 64] = Some b' \<and>
    all_apart (live b') \<and> mem_allocated b' = (\<Sum>(p, l)\<in>live b'. l)"
proof (rule buddy_pow2_exact [where k = 6])
  show "well_behaved malloc free live buddy64 [Malloc 20, Malloc 10, Free 64, Malloc 64]"
    by (simp add: buddy64_malloc)
      (simp add: buddy_eval IS_POWER_OF_TWO_def live_def free_def)
qed (simp_all add: buddy64_eq buddy_inv_def live_def)

end
