(* ===== verification/Circular_List.thy ===== *)
theory Circular_List
  imports Mem_Bitmap
begin

text \<open>
  Kernel/circular_list.c: the doubly linked rings that hold the scheduler's queues. The model
  keeps the pointers: a store of nodes and of queue headers by address, over the heap of the
  page allocator. \<open>ring\<close> relates a queue in the store to the list of its nodes, starting at
  \<open>current_node\<close>; the lemmas show that the pointer code implements insertion at the end and
  removal from the list, and that it provides the FIFO interface of the locale \<open>fifo\<close>.
\<close>

section \<open>State\<close>

record node_t =
  data :: nat
  nxt :: nat
  prev :: nat

record queue_t =
  current_node :: nat
  qty :: nat

record lists =
  lheap :: heap
  node_at :: "nat \<Rightarrow> node_t"
  queue_at :: "nat \<Rightarrow> queue_t"

definition sizeof_node_t :: nat where "sizeof_node_t = 24"
definition sizeof_queue_t :: nat where "sizeof_queue_t = 16"

text \<open>Assignments through a pointer.\<close>

definition set_next :: "nat \<Rightarrow> nat \<Rightarrow> lists \<Rightarrow> lists" where
  "set_next a n m = m\<lparr>node_at := (node_at m)(a := (node_at m a)\<lparr>nxt := n\<rparr>)\<rparr>"

definition set_prev :: "nat \<Rightarrow> nat \<Rightarrow> lists \<Rightarrow> lists" where
  "set_prev a n m = m\<lparr>node_at := (node_at m)(a := (node_at m a)\<lparr>prev := n\<rparr>)\<rparr>"

definition set_current :: "nat \<Rightarrow> nat \<Rightarrow> lists \<Rightarrow> lists" where
  "set_current q n m = m\<lparr>queue_at := (queue_at m)(q := (queue_at m q)\<lparr>current_node := n\<rparr>)\<rparr>"

definition set_qty :: "nat \<Rightarrow> nat \<Rightarrow> lists \<Rightarrow> lists" where
  "set_qty q n m = m\<lparr>queue_at := (queue_at m)(q := (queue_at m q)\<lparr>qty := wrap32 n\<rparr>)\<rparr>"

section \<open>Operations\<close>

definition create_queue :: "lists \<Rightarrow> (nat \<times> lists) option" where
  "create_queue m = do {
     (queue, h) \<leftarrow> malloc (lheap m) sizeof_queue_t;
     let m = m\<lparr>lheap := h\<rparr>;
     if queue = 0 then Some (0, m)
     else Some (queue, set_qty queue 0 (set_current queue 0 m))
   }"

definition create_node :: "nat \<Rightarrow> lists \<Rightarrow> (nat \<times> lists) option" where
  "create_node d m = do {
     (new_node, h) \<leftarrow> malloc (lheap m) sizeof_node_t;
     let m = m\<lparr>lheap := h\<rparr>;
     if new_node = 0 then Some (0, m)
     else Some (new_node, m\<lparr>node_at := (node_at m)(new_node := \<lparr>data = d, nxt = 0, prev = 0\<rparr>)\<rparr>)
   }"

text \<open>The returned \<open>queue->qty++\<close> is the quantity before the insertion, as an \<open>int\<close>.\<close>

definition insert_node :: "nat \<Rightarrow> nat \<Rightarrow> lists \<Rightarrow> int \<times> lists" where
  "insert_node queue new_node m =
     (if new_node = 0 then (- 1, m)
      else
        let n = qty (queue_at m queue); rta = to_int32 (int n) in
        if current_node (queue_at m queue) = 0 then
          (rta, set_qty queue (n + 1)
             (set_prev new_node new_node (set_next new_node new_node (set_current queue new_node m))))
        else
          let first = current_node (queue_at m queue);
              m = set_next new_node first m;
              last_node = prev (node_at m first);
              m = set_prev new_node last_node m;
              m = set_next last_node new_node m;
              m = set_prev first new_node m
          in (rta, set_qty queue (n + 1) m))"

text \<open>\<open>next(NULL)\<close> is NULL.\<close>

definition next_of :: "nat \<Rightarrow> lists \<Rightarrow> nat" where
  "next_of node m = (if node = 0 then 0 else nxt (node_at m node))"

definition remove_node :: "nat \<Rightarrow> nat \<Rightarrow> lists \<Rightarrow> (nat \<times> lists) option" where
  "remove_node queue node m =
     (if queue = 0 \<or> node = 0 then Some (0, m)
      else if current_node (queue_at m queue) = 0 then Some (0, m)
      else
        let m = (if current_node (queue_at m queue) = node
                 then set_current queue (nxt (node_at m node)) m else m);
            d = data (node_at m node); n = qty (queue_at m queue)
        in if n = 1 then do {
             let m = set_current queue 0 m;
             h \<leftarrow> free (lheap m) node;
             Some (d, set_qty queue (n - 1) (m\<lparr>lheap := h\<rparr>))
           } else do {
             let prev_node = prev (node_at m node);
             let next_node = nxt (node_at m node);
             let m = set_prev next_node prev_node (set_next prev_node next_node m);
             h \<leftarrow> free (lheap m) node;
             Some (data (node_at m node), set_qty queue (n + 2 ^ 32 - 1) (m\<lparr>lheap := h\<rparr>))
           })"

text \<open>The loop of \<open>free_queue\<close>; on a ring that is not closed it may run forever.\<close>

partial_function (option) free_nodes :: "nat \<Rightarrow> nat \<Rightarrow> lists \<Rightarrow> lists option" where
  "free_nodes current next_node m =
     (if current = next_node then Some m
      else do {
        let aux = nxt (node_at m next_node);
        h \<leftarrow> free (lheap m) next_node;
        free_nodes current aux (m\<lparr>lheap := h\<rparr>)
      })"

definition free_queue :: "nat \<Rightarrow> lists \<Rightarrow> lists option" where
  "free_queue queue m =
     (if queue = 0 then Some m
      else
        let current = current_node (queue_at m queue) in
        if current = 0 then Some m
        else do {
          m \<leftarrow> free_nodes current (nxt (node_at m current)) m;
          h \<leftarrow> free (lheap m) current;
          h \<leftarrow> free h queue;
          Some (m\<lparr>lheap := h\<rparr>)
        })"

section \<open>Chains and rings\<close>

fun chain :: "(nat \<Rightarrow> node_t) \<Rightarrow> nat list \<Rightarrow> bool" where
  "chain f [] = True"
| "chain f [x] = True"
| "chain f (x # y # zs) = (nxt (f x) = y \<and> prev (f y) = x \<and> chain f (y # zs))"

definition closed :: "(nat \<Rightarrow> node_t) \<Rightarrow> nat list \<Rightarrow> bool" where
  "closed f xs = (xs = [] \<or> chain f (xs @ [hd xs]))"

lemma chain_append: "chain f (xs @ y # zs) = (chain f (xs @ [y]) \<and> chain f (y # zs))"
proof (induction xs)
  case (Cons x xs)
  then show ?case by (cases xs) auto
qed simp

lemma closed_rotate: "closed f (ys @ zs) = closed f (zs @ ys)"
proof (cases "ys = [] \<or> zs = []")
  case False
  then obtain y ys' z zs' where yz: "ys = y # ys'" "zs = z # zs'" by (metis neq_Nil_conv)
  have "closed f (ys @ zs) = chain f (ys @ z # (zs' @ [y]))" by (simp add: closed_def yz)
  also have "\<dots> = (chain f (ys @ [z]) \<and> chain f (zs @ [y]))" by (subst chain_append) (simp add: yz)
  also have "\<dots> = chain f (zs @ y # (ys' @ [z]))" by (subst (2) chain_append) (auto simp: yz)
  also have "\<dots> = closed f (zs @ ys)" by (simp add: closed_def yz)
  finally show ?thesis .
qed auto

lemma chain_cong:
  "(\<And>x. x \<in> set (butlast xs) \<Longrightarrow> nxt (g x) = nxt (f x)) \<Longrightarrow>
   (\<And>x. x \<in> set (tl xs) \<Longrightarrow> prev (g x) = prev (f x)) \<Longrightarrow> chain g xs = chain f xs"
  by (induction f xs rule: chain.induct) (auto split: if_splits)

text \<open>
  \<open>ring m q xs\<close>: the queue header at \<open>q\<close> and the nodes reachable from it are the list \<open>xs\<close>
  of node addresses and data, the first being \<open>current_node\<close>.
\<close>

definition ring :: "lists \<Rightarrow> nat \<Rightarrow> (nat \<times> nat) list \<Rightarrow> bool" where
  "ring m q xs \<longleftrightarrow> q \<noteq> 0 \<and> heap_inv (lheap m) \<and> distinct (map fst xs) \<and> 0 \<notin> fst ` set xs \<and>
     fst ` set xs \<subseteq> fst ` live (lheap m) \<and> q \<in> fst ` live (lheap m) \<and> q \<notin> fst ` set xs \<and>
     length xs < 2 ^ 31 \<and>
     current_node (queue_at m q) = (if xs = [] then 0 else fst (hd xs)) \<and>
     qty (queue_at m q) = length xs \<and>
     (\<forall>(a, d)\<in>set xs. data (node_at m a) = d) \<and> closed (node_at m) (map fst xs)"

lemma store_simps [simp]:
  "lheap (set_next a n m) = lheap m" "lheap (set_prev a n m) = lheap m"
  "lheap (set_current q n m) = lheap m" "lheap (set_qty q n m) = lheap m"
  "queue_at (set_next a n m) = queue_at m" "queue_at (set_prev a n m) = queue_at m"
  "node_at (set_current q n m) = node_at m" "node_at (set_qty q n m) = node_at m"
  by (simp_all add: set_next_def set_prev_def set_current_def set_qty_def)

lemma queue_simps [simp]:
  "current_node (queue_at (set_current q n m) r) = (if r = q then n else current_node (queue_at m r))"
  "qty (queue_at (set_current q n m) r) = qty (queue_at m r)"
  "qty (queue_at (set_qty q n m) r) = (if r = q then wrap32 n else qty (queue_at m r))"
  "current_node (queue_at (set_qty q n m) r) = current_node (queue_at m r)"
  by (simp_all add: set_current_def set_qty_def)

lemma node_simps [simp]:
  "nxt (node_at (set_next a n m) x) = (if x = a then n else nxt (node_at m x))"
  "nxt (node_at (set_prev a n m) x) = nxt (node_at m x)"
  "prev (node_at (set_prev a n m) x) = (if x = a then n else prev (node_at m x))"
  "prev (node_at (set_next a n m) x) = prev (node_at m x)"
  "data (node_at (set_next a n m) x) = data (node_at m x)"
  "data (node_at (set_prev a n m) x) = data (node_at m x)"
  by (simp_all add: set_next_def set_prev_def)

text \<open>Linking a node in at the end, and linking the first node out, on the store alone.\<close>

lemma chain_snoc: "xs \<noteq> [] \<Longrightarrow> chain f (xs @ [a]) = (chain f xs \<and> nxt (f (last xs)) = a \<and> prev (f a) = last xs)"
proof (induction xs)
  case (Cons x xs)
  then show ?case by (cases xs) auto
qed simp

lemma closed_insert:
  assumes c: "closed f xs" and d: "distinct xs" "a \<notin> set xs" and ne: "xs \<noteq> []"
    and n: "\<And>x. nxt (g x) = (if x = a then hd xs else if x = last xs then a else nxt (f x))"
    and p: "\<And>x. prev (g x) = (if x = hd xs then a else if x = a then last xs else prev (f x))"
  shows "closed g (xs @ [a])"
proof -
  have f: "chain f xs" using c ne by (simp add: closed_def chain_snoc)
  have "chain g xs"
  proof (subst chain_cong [of xs g f])
    show "nxt (g x) = nxt (f x)" if "x \<in> set (butlast xs)" for x
    proof -
      have "x \<noteq> last xs" using that d ne
        by (metis append_butlast_last_id distinct_append distinct_singleton disjoint_iff list.set_intros(1))
      then show ?thesis using that d by (auto simp: n dest: in_set_butlastD)
    qed
    show "prev (g x) = prev (f x)" if "x \<in> set (tl xs)" for x
      using that d ne by (cases xs) (auto simp: p)
  qed (rule f)
  moreover have "hd xs \<noteq> a" "last xs \<noteq> a" using d ne by auto
  ultimately show ?thesis
    using ne d chain_snoc [of "xs @ [a]" g "hd xs"] chain_snoc [of xs g a]
    by (simp add: closed_def n p)
qed

lemma closed_unlink:
  assumes c: "closed f (a # ws)" and d: "distinct (a # ws)" and ne: "ws \<noteq> []"
    and n: "\<And>x. x \<noteq> a \<Longrightarrow> nxt (g x) = (if x = last ws then hd ws else nxt (f x))"
    and p: "\<And>x. x \<noteq> a \<Longrightarrow> prev (g x) = (if x = hd ws then last ws else prev (f x))"
  shows "closed g ws"
proof -
  have "chain f (a # ws @ [a])" using c by (simp add: closed_def)
  then have "prev (f (hd ws)) = a" "chain f (ws @ [a])" using ne by (cases ws; simp)+
  then have f: "chain f ws" using ne by (simp add: chain_snoc)
  have "chain g ws"
  proof (subst chain_cong [of ws g f])
    show "nxt (g x) = nxt (f x)" if "x \<in> set (butlast ws)" for x
    proof -
      have "x \<noteq> last ws" using that d ne
        by (metis append_butlast_last_id distinct.simps(2) distinct_append distinct_singleton
            disjoint_iff list.set_intros(1))
      then show ?thesis using that d n [of x] by (auto dest: in_set_butlastD)
    qed
    show "prev (g x) = prev (f x)" if "x \<in> set (tl ws)" for x
    proof -
      have "x \<noteq> hd ws" "x \<noteq> a" using that d ne by (cases ws; auto)+
      then show ?thesis using p [of x] by simp
    qed
  qed (rule f)
  moreover have "hd ws \<noteq> a" "last ws \<noteq> a" using d ne by auto
  ultimately show ?thesis
    using ne chain_snoc [of ws g "hd ws"] by (simp add: closed_def n p)
qed

lemma closed_ends:
  assumes "closed f xs" "xs \<noteq> []"
  shows "nxt (f (last xs)) = hd xs" "prev (f (hd xs)) = last xs"
  using assms by (simp_all add: closed_def chain_snoc)

section \<open>The operations on rings\<close>

text \<open>What an operation on the queue \<open>q\<close> with nodes \<open>A\<close> leaves alone.\<close>

definition elsewhere :: "nat \<Rightarrow> nat set \<Rightarrow> lists \<Rightarrow> lists \<Rightarrow> bool" where
  "elsewhere q A m m' \<longleftrightarrow> (\<forall>x. x \<notin> A \<longrightarrow> node_at m' x = node_at m x) \<and>
     (\<forall>r. r \<noteq> q \<longrightarrow> queue_at m' r = queue_at m r)"

lemma set_elsewhere:
  "x \<noteq> a \<Longrightarrow> node_at (set_next a n m) x = node_at m x"
  "x \<noteq> a \<Longrightarrow> node_at (set_prev a n m) x = node_at m x"
  "r \<noteq> q \<Longrightarrow> queue_at (set_current q n m) r = queue_at m r"
  "r \<noteq> q \<Longrightarrow> queue_at (set_qty q k m) r = queue_at m r"
  by (simp_all add: set_next_def set_prev_def set_current_def set_qty_def)

lemma insert_ring:
  assumes r: "ring m q xs" and a: "a \<noteq> 0" "a \<notin> fst ` set xs" "a \<noteq> q" "a \<in> fst ` live (lheap m)"
    and d: "data (node_at m a) = d" and small: "length xs < 2 ^ 31 - 1"
  shows "\<exists>m'. insert_node q a m = (int (length xs), m') \<and> ring m' q (xs @ [(a, d)]) \<and>
    lheap m' = lheap m \<and> elsewhere q (insert a (fst ` set xs)) m m'"
proof -
  have n: "to_int32 (int (length xs)) = int (length xs)" using small by (simp add: to_int32_id)
  have w: "wrap32 (Suc (length xs)) = Suc (length xs)" using small by (simp add: wrap32_def)
  show ?thesis
  proof (cases "xs = []")
    case True
    let ?m = "set_qty q 1 (set_prev a a (set_next a a (set_current q a m)))"
    have "insert_node q a m = (0, ?m)"
      using True r a(1) n by (simp add: insert_node_def ring_def Let_def)
    moreover have "ring ?m q [(a, d)]"
      using True r a d w by (simp add: ring_def closed_def)
    moreover have "elsewhere q {a} m ?m"
      by (simp add: elsewhere_def set_elsewhere)
    ultimately show ?thesis using True by auto
  next
    case False
    let ?h = "fst (hd xs)" and ?ys = "map fst xs"
    have hd: "hd ?ys = ?h" "?h \<in> fst ` set xs" "?ys \<noteq> []" "?h \<noteq> 0"
      using False r by (auto simp: ring_def hd_map)
    have cl: "closed (node_at m) ?ys" "distinct ?ys" "a \<notin> set ?ys" using r a(2) by (auto simp: ring_def)
    have last: "prev (node_at m ?h) = last ?ys" using closed_ends [OF cl(1) hd(3)] hd(1) by simp
    have lst: "last ?ys \<in> fst ` set xs" using last_in_set [OF hd(3)] by simp
    have ha: "?h \<noteq> a" "last ?ys \<noteq> a" using a(2) hd(2) lst by auto
    let ?m = "set_qty q (Suc (length xs)) (set_prev ?h a (set_next (last ?ys) a
      (set_prev a (last ?ys) (set_next a ?h m))))"
    have "insert_node q a m = (int (length xs), ?m)"
      using False r a(1) n hd(4) last ha by (simp add: insert_node_def ring_def Let_def)
    moreover have "ring ?m q (xs @ [(a, d)])"
    proof -
      have "closed (node_at ?m) (?ys @ [a])"
        by (rule closed_insert [OF cl hd(3)]) (use ha hd(1) in auto)
      then show ?thesis using r a d w False small by (auto simp: ring_def)
    qed
    moreover have "elsewhere q (insert a (fst ` set xs)) m ?m"
      unfolding elsewhere_def
    proof (intro conjI allI impI)
      fix x assume x: "x \<notin> insert a (fst ` set xs)"
      have "x \<noteq> ?h" using x hd(2) by blast
      moreover have "x \<noteq> last ?ys" using x lst by blast
      moreover have "x \<noteq> a" using x by simp
      ultimately show "node_at ?m x = node_at m x" by (simp add: set_elsewhere)
    qed (simp add: set_elsewhere)
    ultimately show ?thesis by auto
  qed
qed

text \<open>The neighbours of a node, with the ring read from it.\<close>

lemma ring_links:
  assumes "ring m q (ys @ (a, d) # zs)" "ys @ zs \<noteq> []"
  defines "ws \<equiv> map fst (zs @ ys)"
  shows "closed (node_at m) (a # ws)" "nxt (node_at m a) = hd ws" "prev (node_at m a) = last ws" "ws \<noteq> []"
proof -
  show ne: "ws \<noteq> []" using assms(2) by (auto simp: ws_def)
  have "closed (node_at m) (map fst ys @ (a # map fst zs))" using assms(1) by (simp add: ring_def)
  then show "closed (node_at m) (a # ws)"
    using closed_rotate [of "node_at m" "map fst ys" "a # map fst zs"] by (simp add: ws_def)
  then have c: "chain (node_at m) ((a # ws) @ [a])" by (simp add: closed_def)
  then show "nxt (node_at m a) = hd ws" using ne by (cases ws) simp_all
  from c show "prev (node_at m a) = last ws"
    using chain_snoc [of "a # ws" "node_at m" a] ne by (auto split: if_splits)
qed

text \<open>The ring after the links of the neighbours and the pointer to the first node have changed.\<close>

lemma unlinked_ring:
  assumes r: "ring m q (ys @ (a, d) # zs)" and ne: "ys @ zs \<noteq> []"
    and h: "heap_inv h" "fst ` live h = fst ` live (lheap m) - {a}"
  defines "ws \<equiv> map fst (zs @ ys)"
  defines "m2 \<equiv> set_prev (hd ws) (last ws) (set_next (last ws) (hd ws) (if ys = [] then set_current q (hd ws) m else m))"
  shows "ring (set_qty q (length (ys @ zs)) (m2\<lparr>lheap := h\<rparr>)) q (ys @ zs)"
proof -
  let ?xs = "ys @ (a, d) # zs"
  have dis: "distinct (map fst ?xs)" and q: "q \<in> fst ` live (lheap m)" "q \<notin> fst ` set ?xs" "q \<noteq> 0" "a \<noteq> q"
    and sub: "fst ` set ?xs \<subseteq> fst ` live (lheap m)" and len: "length ?xs < 2 ^ 31"
    and cur: "current_node (queue_at m q) = fst (hd ?xs)"
    using r by (auto simp: ring_def hd_append)
  note l = ring_links [OF r ne, folded ws_def]
  have "distinct (a # ws)" using dis by (auto simp: ws_def)
  then have "closed (node_at m2) ws" by (rule closed_unlink [OF l(1) _ l(4)]) (auto simp: m2_def)
  then have "closed (node_at m2) (map fst (ys @ zs))"
    using closed_rotate [of "node_at m2" "map fst zs" "map fst ys"] by (simp add: ws_def)
  moreover have "\<forall>(x, y)\<in>set (ys @ zs). data (node_at m2 x) = y" using r by (auto simp: ring_def m2_def)
  moreover have "current_node (queue_at m2 q) = fst (hd (ys @ zs))"
    using cur ne by (cases ys) (auto simp: hd_map m2_def ws_def)
  moreover have "wrap32 (length (ys @ zs)) = length (ys @ zs)" "length (ys @ zs) < 2 ^ 31"
    using len by simp_all
  moreover have "distinct (map fst (ys @ zs))" "0 \<notin> fst ` set (ys @ zs)" "q \<notin> fst ` set (ys @ zs)"
    using dis q(2) r by (auto simp: ring_def)
  moreover have "a \<notin> fst ` set (ys @ zs)" "set (ys @ zs) \<subseteq> set ?xs" using dis by auto
  then have "fst ` set (ys @ zs) \<subseteq> fst ` live h" "q \<in> fst ` live h" using sub q unfolding h(2) by blast+
  moreover have "node_at (set_qty q k (m2\<lparr>lheap := h\<rparr>)) = node_at m2" "lheap (set_qty q k (m2\<lparr>lheap := h\<rparr>)) = h"
    "qty (queue_at (set_qty q k (m2\<lparr>lheap := h\<rparr>)) q) = wrap32 k"
    "current_node (queue_at (set_qty q k (m2\<lparr>lheap := h\<rparr>)) q) = current_node (queue_at m2 q)" for k
    by (simp_all add: set_qty_def)
  ultimately show ?thesis using q(3) h(1) ne unfolding ring_def by metis
qed

lemma relink_elsewhere:
  assumes "x \<in> A" "y \<in> A" "m1 = m \<or> m1 = set_current q z m"
  shows "elsewhere q A m (set_qty q k ((set_prev x y (set_next y x m1))\<lparr>lheap := h\<rparr>))"
proof -
  have "w \<noteq> x \<and> w \<noteq> y" if "w \<notin> A" for w using that assms(1,2) by blast
  then show ?thesis using assms(3) by (auto simp: elsewhere_def set_elsewhere)
qed

lemma remove_ring:
  assumes r: "ring m q (ys @ (a, d) # zs)"
  shows "\<exists>m'. remove_node q a m = Some (d, m') \<and> ring m' q (ys @ zs) \<and>
    fst ` live (lheap m') = fst ` live (lheap m) - {a} \<and>
    elsewhere q (fst ` set (ys @ (a, d) # zs)) m m'"
proof -
  let ?xs = "ys @ (a, d) # zs"
  have inv: "heap_inv (lheap m)" "a \<in> fst ` live (lheap m)" "a \<noteq> 0" "q \<noteq> 0" "a \<noteq> q"
    and da: "data (node_at m a) = d" and q: "q \<in> fst ` live (lheap m)" and dis: "distinct (map fst ?xs)"
    and qt: "qty (queue_at m q) = length ?xs" "length ?xs < 2 ^ 31"
    and cur: "current_node (queue_at m q) = fst (hd ?xs)" "fst (hd ?xs) \<noteq> 0"
    using r by (auto simp: ring_def hd_append)
  obtain h where h: "free (lheap m) a = Some h" "heap_inv h" "fst ` live h = fst ` live (lheap m) - {a}"
    using bitmap.free_owned [OF inv(1,2)] by blast
  show ?thesis
  proof (cases "ys @ zs = []")
    case True
    let ?m = "set_qty q 0 (set_current q 0 m)\<lparr>lheap := h\<rparr>"
    have "nxt (node_at m a) = a" using r True by (simp add: ring_def closed_def)
    then have "remove_node q a m = Some (d, (set_qty q 0 ((set_current q 0 (set_current q a m))\<lparr>lheap := h\<rparr>)))"
      using True qt cur inv da h by (simp add: remove_node_def Let_def)
    moreover have "set_qty q 0 ((set_current q 0 (set_current q a m))\<lparr>lheap := h\<rparr>) = ?m"
      by (simp add: set_qty_def set_current_def)
    moreover have "ring ?m q []" "elsewhere q (fst ` set ?xs) m ?m"
      using h inv q by (simp_all add: ring_def closed_def elsewhere_def set_qty_def set_current_def)
    ultimately show ?thesis using True h by auto
  next
    case False
    define ws where "ws = map fst (zs @ ys)"
    let ?m1 = "if ys = [] then set_current q (hd ws) m else m"
    define m2 where "m2 = set_prev (hd ws) (last ws) (set_next (last ws) (hd ws) ?m1)"
    let ?m = "set_qty q (length (ys @ zs)) (m2\<lparr>lheap := h\<rparr>)"
    note l = ring_links [OF r False, folded ws_def]
    have "(fst (hd ?xs) = a) = (ys = [])" using dis by (cases ys) auto
    then have m1: "(if current_node (queue_at m q) = a then set_current q (nxt (node_at m a)) m else m) = ?m1"
      using cur l by simp
    have "length ?xs \<noteq> 1" "qty (queue_at ?m1 q) = length ?xs" "node_at ?m1 = node_at m" "lheap ?m1 = lheap m"
      using qt False by auto
    then have "remove_node q a m = Some (d, set_qty q (length ?xs + 2 ^ 32 - 1) (m2\<lparr>lheap := h\<rparr>))"
      unfolding remove_node_def Let_def m1 m2_def using inv cur l h da by simp
    moreover have "wrap32 (length ?xs + 2 ^ 32 - 1) = length (ys @ zs)" using qt(2) by (simp add: wrap32_def)
    then have "set_qty q (length ?xs + 2 ^ 32 - 1) (m2\<lparr>lheap := h\<rparr>) = ?m" using qt(2) by (simp add: set_qty_def)
    moreover have "ring ?m q (ys @ zs)" using unlinked_ring [OF r False h(2,3)] unfolding m2_def ws_def .
    moreover have "elsewhere q (fst ` set ?xs) m ?m"
      unfolding m2_def by (rule relink_elsewhere) (use hd_in_set [OF l(4)] last_in_set [OF l(4)] in \<open>auto simp: ws_def\<close>)
    moreover have "fst ` live (lheap ?m) = fst ` live (lheap m) - {a}" using h(3) by (simp add: set_qty_def)
    ultimately show ?thesis by auto
  qed
qed

section \<open>The FIFO interface\<close>

text \<open>
  What the kernel's removal and creation queues use the rings for: append a datum with
  \<open>create_node\<close> and \<open>insert_node\<close>, take the first with \<open>remove_node(q, q->current_node)\<close>.
  Draining, \<open>while (x = remove_node(q, q->current_node))\<close>, is proved once, in the locale.
\<close>

fun drain :: "('s \<Rightarrow> (nat \<times> 's) option) \<Rightarrow> nat \<Rightarrow> 's \<Rightarrow> (nat list \<times> 's) option" where
  "drain take_first 0 s = None"
| "drain take_first (Suc fuel) s = do {
     (x, s') \<leftarrow> take_first s;
     if x = 0 then Some ([], s')
     else do { (xs, s'') \<leftarrow> drain take_first fuel s'; Some (x # xs, s'') }
   }"

locale fifo =
  fixes rep :: "'s \<Rightarrow> nat list \<Rightarrow> bool"
    and append_last :: "nat \<Rightarrow> 's \<Rightarrow> (bool \<times> 's) option"
    and take_first :: "'s \<Rightarrow> (nat \<times> 's) option"
  assumes append_rep: "rep s ds \<Longrightarrow> length ds < 2 ^ 31 - 2 \<Longrightarrow>
      \<exists>ok s'. append_last d s = Some (ok, s') \<and> rep s' (if ok then ds @ [d] else ds)"
    and take_empty: "rep s [] \<Longrightarrow> take_first s = Some (0, s)"
    and take_rep: "rep s (d # ds) \<Longrightarrow> \<exists>s'. take_first s = Some (d, s') \<and> rep s' ds"
begin

lemma drain_fifo:
  assumes "rep s ds" "0 \<notin> set ds" "length ds < fuel"
  shows "\<exists>s'. drain take_first fuel s = Some (ds, s') \<and> rep s' []"
  using assms
proof (induction ds arbitrary: s fuel)
  case Nil
  then obtain k where "fuel = Suc k" by (cases fuel) auto
  with Nil take_empty [of s] show ?case by simp
next
  case (Cons d ds)
  then obtain k where k: "fuel = Suc k" "length ds < k" by (cases fuel) auto
  obtain s' where s': "take_first s = Some (d, s')" "rep s' ds" using take_rep Cons.prems(1) by blast
  from Cons.IH [OF s'(2) _ k(2)] Cons.prems(2) obtain t where
    "drain take_first k s' = Some (ds, t)" "rep t []" by auto
  with s'(1) k(1) Cons.prems(2) show ?case by simp
qed

end

definition enqueue :: "nat \<Rightarrow> nat \<Rightarrow> lists \<Rightarrow> (bool \<times> lists) option" where
  "enqueue q d m = do {
     (a, m) \<leftarrow> create_node d m;
     if a = 0 then Some (False, m)
     else case insert_node q a m of (r, m) \<Rightarrow> Some (0 \<le> r, m)
   }"

definition dequeue :: "nat \<Rightarrow> lists \<Rightarrow> (nat \<times> lists) option" where
  "dequeue q m = remove_node q (current_node (queue_at m q)) m"

definition ring_data :: "nat \<Rightarrow> lists \<Rightarrow> nat list \<Rightarrow> bool" where
  "ring_data q m ds \<longleftrightarrow> (\<exists>xs. ring m q xs \<and> map snd xs = ds)"

lemma ring_alloc:
  assumes "ring m q xs" "a \<notin> fst ` live (lheap m)" "heap_inv h"
    "fst ` live h = insert a (fst ` live (lheap m))"
  shows "ring (m\<lparr>lheap := h, node_at := (node_at m)(a := nd)\<rparr>) q xs"
proof -
  have a: "a \<notin> fst ` set xs" using assms(1,2) by (auto simp: ring_def)
  have "closed ((node_at m)(a := nd)) (map fst xs) = closed (node_at m) (map fst xs)"
  proof (cases "xs = []")
    case False
    have "chain ((node_at m)(a := nd)) (map fst xs @ [hd (map fst xs)])
      = chain (node_at m) (map fst xs @ [hd (map fst xs)])"
    proof (rule chain_cong)
      let ?w = "map fst xs @ [hd (map fst xs)]"
      have b: "x \<noteq> a" if "x \<in> set ?w" for x using that a False by (auto simp: hd_map)
      show "nxt (((node_at m)(a := nd)) x) = nxt (node_at m x)" if "x \<in> set (butlast ?w)" for x
        using b [OF in_set_butlastD [OF that]] by simp
      show "prev (((node_at m)(a := nd)) x) = prev (node_at m x)" if "x \<in> set (tl ?w)" for x
        using b [OF list.set_sel(2) [OF _ that]] by simp
    qed
    then show ?thesis by (simp add: closed_def)
  qed (simp add: closed_def)
  moreover have "\<forall>(x, d)\<in>set xs. data (((node_at m)(a := nd)) x) = d"
    using a assms(1) by (force simp: ring_def)
  moreover have "fst ` set xs \<subseteq> fst ` live h" "q \<in> fst ` live h"
    using assms(1) unfolding assms(4) ring_def by blast+
  ultimately show ?thesis using assms(1,3) by (simp add: ring_def)
qed

lemma enqueue_ring:
  assumes r: "ring m q xs" and small: "length xs < 2 ^ 31 - 2"
  shows "\<exists>ok a m'. enqueue q d m = Some (ok, m') \<and>
    ring m' q (if ok then xs @ [(a, d)] else xs) \<and> (ok \<longrightarrow> a \<notin> fst ` live (lheap m))"
proof -
  have inv: "heap_inv (lheap m)" using r by (simp add: ring_def)
  obtain a h where h: "malloc (lheap m) sizeof_node_t = Some (a, h)" "heap_inv h"
    "a = 0 \<Longrightarrow> fst ` live h = fst ` live (lheap m)"
    "a \<noteq> 0 \<Longrightarrow> a \<notin> fst ` live (lheap m)" "a \<noteq> 0 \<Longrightarrow> fst ` live h = insert a (fst ` live (lheap m))"
    using bitmap.malloc_owned [OF inv] by blast
  show ?thesis
  proof (cases "a = 0")
    case True
    then have "ring (m\<lparr>lheap := h\<rparr>) q xs" using r h(2,3) by (simp add: ring_def)
    with True h(1) show ?thesis by (auto simp: enqueue_def create_node_def)
  next
    case False
    let ?m = "m\<lparr>lheap := h, node_at := (node_at m)(a := \<lparr>data = d, nxt = 0, prev = 0\<rparr>)\<rparr>"
    have r': "ring ?m q xs" using ring_alloc [OF r h(4) [OF False] h(2) h(5) [OF False]] .
    have a: "a \<notin> fst ` set xs" "a \<noteq> q" using h(4) [OF False] r by (auto simp: ring_def)
    have al: "a \<in> fst ` live (lheap ?m)" "data (node_at ?m a) = d" "length xs < 2 ^ 31 - 1"
      using h(5) False small by simp_all
    obtain m' where "insert_node q a ?m = (int (length xs), m')" "ring m' q (xs @ [(a, d)])"
      using insert_ring [OF r' False a al] by blast
    with False h show ?thesis by (auto simp: enqueue_def create_node_def)
  qed
qed

lemma dequeue_empty: "ring m q [] \<Longrightarrow> dequeue q m = Some (0, m)"
  by (simp add: dequeue_def ring_def remove_node_def)

lemma dequeue_ring:
  assumes "ring m q ((a, d) # xs)"
  shows "\<exists>m'. dequeue q m = Some (d, m') \<and> ring m' q xs"
proof -
  have "current_node (queue_at m q) = a" using assms by (simp add: ring_def)
  with remove_ring [of m q "[]" a d xs] assms show ?thesis by (auto simp: dequeue_def)
qed

interpretation ptr: fifo "ring_data q" "enqueue q" "dequeue q" for q
proof
  fix s ds d
  show "\<exists>ok s'. enqueue q d s = Some (ok, s') \<and> ring_data q s' (if ok then ds @ [d] else ds)"
    if a: "ring_data q s ds" "length ds < 2 ^ 31 - 2"
  proof -
    obtain xs where xs: "ring s q xs" "map snd xs = ds" using a(1) by (auto simp: ring_data_def)
    have "length xs < 2 ^ 31 - 2" using xs(2) a(2) by auto
    from enqueue_ring [OF xs(1) this, of d] xs(2) show ?thesis
      by (fastforce simp: ring_data_def)
  qed
  show "dequeue q s = Some (0, s)" if "ring_data q s []"
    using that dequeue_empty by (auto simp: ring_data_def)
  show "\<exists>s'. dequeue q s = Some (d, s') \<and> ring_data q s' ds" if "ring_data q s (d # ds)"
    using that dequeue_ring by (fastforce simp: ring_data_def)
qed

section \<open>Releasing a whole queue\<close>

lemma free_nodes_chain:
  assumes "chain (node_at m) (zs @ [cur])" "cur \<notin> set zs" "distinct zs" "heap_inv (lheap m)"
    "set zs \<subseteq> fst ` live (lheap m)"
  shows "\<exists>m'. free_nodes cur (hd (zs @ [cur])) m = Some m' \<and> heap_inv (lheap m') \<and>
    fst ` live (lheap m') = fst ` live (lheap m) - set zs"
  using assms
proof (induction zs arbitrary: m)
  case Nil
  then show ?case by (simp add: free_nodes.simps)
next
  case (Cons z zs)
  obtain h where h: "free (lheap m) z = Some h" "heap_inv h" "fst ` live h = fst ` live (lheap m) - {z}"
    using bitmap.free_owned [of "lheap m" z] Cons.prems(4,5) by auto
  have n: "nxt (node_at m z) = hd (zs @ [cur])" "chain (node_at m) (zs @ [cur])"
    using Cons.prems(1) by (cases zs; simp)+
  have "set zs \<subseteq> fst ` live h" using Cons.prems(3,5) unfolding h(3) by auto
  with Cons.IH [of "m\<lparr>lheap := h\<rparr>"] n(2) Cons.prems h obtain m' where
    m': "free_nodes cur (hd (zs @ [cur])) (m\<lparr>lheap := h\<rparr>) = Some m'" "heap_inv (lheap m')"
      "fst ` live (lheap m') = fst ` live h - set zs" by auto
  then have "free_nodes cur z m = Some m'"
    using Cons.prems(2) h(1) n(1) by (subst free_nodes.simps) auto
  moreover have "fst ` live (lheap m') = fst ` live (lheap m) - set (z # zs)"
    unfolding m'(3) h(3) by auto
  ultimately show ?case using m'(2) by auto
qed

section \<open>Properties\<close>

text \<open>C13: \<open>insert_node\<close> on a ring of pointers is appending to the list of nodes that starts at
  \<open>current_node\<close>: it returns the old quantity, and changes no node or queue outside the ring.\<close>

theorem insert_node_refines:
  assumes "ring m q xs" "a \<noteq> 0" "a \<notin> fst ` set xs" "a \<noteq> q" "a \<in> fst ` live (lheap m)"
    and "data (node_at m a) = d" "length xs < 2 ^ 31 - 1"
  shows "\<exists>m'. insert_node q a m = (int (length xs), m') \<and> ring m' q (xs @ [(a, d)]) \<and>
    lheap m' = lheap m \<and> elsewhere q (insert a (fst ` set xs)) m m'"
  by (rule insert_ring [OF assms])

text \<open>C12: \<open>remove_node\<close> of any node of a ring removes exactly it from the list, hands out its
  datum, moves \<open>current_node\<close> to its successor when it was the current one, and releases
  exactly the node's own block.\<close>

theorem remove_node_refines:
  assumes "ring m q (ys @ (a, d) # zs)"
  shows "\<exists>m'. remove_node q a m = Some (d, m') \<and> ring m' q (ys @ zs) \<and>
    fst ` live (lheap m') = fst ` live (lheap m) - {a} \<and>
    elsewhere q (fst ` set (ys @ (a, d) # zs)) m m'"
  by (rule remove_ring [OF assms])


text \<open>C31: \<open>free_queue\<close> returns on every ring; it releases all nodes and the header of a
  non-empty queue, and nothing of an empty one, whose header leaks.\<close>

theorem free_queue_releases:
  assumes "ring m q xs"
  shows "\<exists>m'. free_queue q m = Some m' \<and> fst ` live (lheap m') =
    fst ` live (lheap m) - (if xs = [] then {} else insert q (fst ` set xs))"
proof (cases xs)
  case Nil
  then show ?thesis using assms by (auto simp: free_queue_def ring_def Let_def)
next
  case (Cons x zs)
  let ?c = "fst x" and ?zs = "map fst zs"
  have r: "q \<noteq> 0" "current_node (queue_at m q) = ?c" "?c \<noteq> 0" "heap_inv (lheap m)"
    "q \<in> fst ` live (lheap m)" "?c \<in> fst ` live (lheap m)" "?c \<noteq> q" "q \<notin> set ?zs"
    "distinct ?zs" "?c \<notin> set ?zs" "set ?zs \<subseteq> fst ` live (lheap m)"
    "closed (node_at m) (?c # ?zs)"
    using assms unfolding Cons ring_def by auto
  then have n: "nxt (node_at m ?c) = hd (?zs @ [?c])" "chain (node_at m) (?zs @ [?c])"
    by (cases zs; simp add: closed_def)+
  obtain m1 where m1: "free_nodes ?c (hd (?zs @ [?c])) m = Some m1" "heap_inv (lheap m1)"
    "fst ` live (lheap m1) = fst ` live (lheap m) - set ?zs"
    using free_nodes_chain [OF n(2) r(10,9,4,11)] by blast
  have "?c \<in> fst ` live (lheap m1)" using r(6,10) unfolding m1(3) by blast
  then obtain h1 where h1: "free (lheap m1) ?c = Some h1" "heap_inv h1"
    "fst ` live h1 = fst ` live (lheap m1) - {?c}"
    using bitmap.free_owned [OF m1(2)] by blast
  have "q \<in> fst ` live h1" using r(5,7,8) unfolding h1(3) m1(3) by blast
  then obtain h2 where h2: "free h1 q = Some h2" "fst ` live h2 = fst ` live h1 - {q}"
    using bitmap.free_owned [OF h1(2)] by blast
  have "free_queue q m = Some (m1\<lparr>lheap := h2\<rparr>)"
    using r n(1) m1(1) h1(1) h2(1) by (simp add: free_queue_def Let_def)
  moreover have "fst ` live h2 = fst ` live (lheap m) - insert q (fst ` set xs)"
    unfolding h2(2) h1(3) m1(3) Cons by auto
  ultimately show ?thesis using Cons by auto
qed

text \<open>A ring of two nodes for the witnesses.\<close>

definition ring2 :: lists where
  "ring2 = \<lparr>lheap = heap4\<lparr>pages := [SINGLE_PAGE, SINGLE_PAGE, SINGLE_PAGE, SINGLE_PAGE]\<rparr>,
     node_at = (\<lambda>a. \<lparr>data = 0, nxt = 0, prev = 0\<rparr>)
       (4160 := \<lparr>data = 7, nxt = 4192, prev = 4192\<rparr>, 4192 := \<lparr>data = 8, nxt = 4160, prev = 4160\<rparr>,
        4224 := \<lparr>data = 9, nxt = 0, prev = 0\<rparr>),
     queue_at = (\<lambda>q. \<lparr>current_node = 0, qty = 0\<rparr>)(4128 := \<lparr>current_node = 4160, qty = 2\<rparr>)\<rparr>"

lemma ring2_live: "fst ` live (lheap ring2) = {4128, 4160, 4192, 4224}"
  by (simp add: ring2_def heap4_eq live_def Mem_Bitmap.blocks_def PAGE_SIZE_def)

lemma ring2_ring: "ring ring2 4128 [(4160, 7), (4192, 8)]"
proof -
  have "heap_inv (lheap ring2)" by (simp add: ring2_def heap4_eq heap_inv_def PAGE_SIZE_def)
  then show ?thesis
    using ring2_live by (simp add: ring_def ring2_def closed_def)
qed

theorem insert_node_refines_witness:
  "\<exists>m'. insert_node 4128 4224 ring2 = (2, m') \<and> ring m' 4128 [(4160, 7), (4192, 8), (4224, 9)]"
  using insert_node_refines [OF ring2_ring, of 4224 9]
  by (auto simp: ring2_live) (auto simp: ring2_def)

theorem remove_node_refines_witness:
  "\<exists>m'. remove_node 4128 4192 ring2 = Some (8, m') \<and> ring m' 4128 [(4160, 7)]"
  using remove_node_refines [of ring2 4128 "[(4160, 7)]" 4192 8 "[]"] ring2_ring by auto


theorem free_queue_releases_witness:
  "\<exists>m'. free_queue 4128 ring2 = Some m' \<and> fst ` live (lheap m') = {4224}"
  using free_queue_releases [OF ring2_ring] unfolding ring2_live by fastforce

end
