(* ===== verification/Console.thy ===== *)
theory Console
  imports Prelude
begin

unbundle bit_operations_syntax

text \<open>
  Kernel/naiveConsole.c: the text console in VGA memory, the number formatting
  \<open>uint_to_base\<close> the whole kernel uses (semaphore names, the clock, numbers on screen), and
  the clock string with its time zone conversion. Video memory is a store of bytes by address;
  the real-time clock registers that get_hours, get_minutes, ... read are arguments.
\<close>

section \<open>Numbers to text\<close>

text \<open>The character \<open>uint_to_base\<close> stores for a digit, as an 8-bit char.\<close>

definition digit_char :: "nat \<Rightarrow> char" where
  "digit_char remainder =
     (if remainder < 10 then char_of ((remainder + 48) mod 256) else char_of ((remainder + 65 - 10) mod 256))"

text \<open>
  The digit loop, least significant digit first. Base 0 traps; base 1 never ends for a
  positive value.
\<close>

partial_function (option) digits_loop :: "nat \<Rightarrow> nat \<Rightarrow> string \<Rightarrow> string option" where
  "digits_loop v base buf =
     (if base = 0 then None
      else let buf = buf @ [digit_char (v mod base)]; v = v div base
           in if v \<noteq> 0 then digits_loop v base buf else Some buf)"

text \<open>The loop that swaps the characters at \<open>p1\<close> and \<open>p2\<close> until they meet.\<close>

function swap_loop :: "'a list \<Rightarrow> nat \<Rightarrow> nat \<Rightarrow> 'a list" where
  "swap_loop buf p1 p2 =
     (if p1 < p2 then swap_loop (buf[p1 := buf ! p2, p2 := buf ! p1]) (p1 + 1) (p2 - 1) else buf)"
  by pat_completeness auto
termination
  by (relation "measure (\<lambda>(buf, p1, p2). p2 - p1)") auto

declare swap_loop.simps [simp del]

text \<open>The number of digits and the characters before the terminating 0.\<close>

definition uint_to_base :: "nat \<Rightarrow> nat \<Rightarrow> (nat \<times> string) option" where
  "uint_to_base v base = do {
     buf \<leftarrow> digits_loop v base [];
     Some (length buf, swap_loop buf 0 (length buf - 1))
   }"

text \<open>What a string of digits denotes, the reference reading.\<close>

definition digit_value :: "char \<Rightarrow> nat" where
  "digit_value c = (let n = of_char c in if n < 58 then n - 48 else n - 55)"

definition value_of :: "nat \<Rightarrow> string \<Rightarrow> nat" where
  "value_of base s = foldl (\<lambda>a c. a * base + digit_value c) 0 s"

lemma digit_value_char [simp]: "d < 36 \<Longrightarrow> digit_value (digit_char d) = d"
  by (auto simp: digit_value_def digit_char_def Let_def)

lemma swap_loop_middle:
  "length xs = i \<Longrightarrow> swap_loop (xs @ mid @ ys) i (i + length mid - 1) = xs @ rev mid @ ys"
proof (induction "length mid" arbitrary: i xs mid ys rule: less_induct)
  case less
  show ?case
  proof (cases "length mid < 2")
    case True
    then have "rev mid = mid" "\<not> i < i + length mid - 1" by (cases mid; auto)+
    then show ?thesis by (simp only: swap_loop.simps [of _ i] if_False)
  next
    case False
    then obtain a m b where m: "mid = a # m @ [b]"
      by (cases mid; cases "tl mid" rule: rev_cases) auto
    let ?buf = "xs @ mid @ ys"
    have "?buf ! (i + length mid - 1) = b" "?buf ! i = a"
      using less.prems m by (simp_all add: nth_append)
    moreover have "?buf[i := b, i + length mid - 1 := a] = (xs @ [b]) @ m @ (a # ys)"
      using less.prems m by (simp add: list_update_append)
    ultimately have "swap_loop ?buf i (i + length mid - 1)
        = swap_loop ((xs @ [b]) @ m @ (a # ys)) (Suc i) (Suc i + length m - 1)"
      using False m by (subst swap_loop.simps) simp
    also have "\<dots> = (xs @ [b]) @ rev m @ (a # ys)"
      using less.hyps [of m "xs @ [b]" "Suc i" "a # ys"] less.prems m by simp
    finally show ?thesis using m by simp
  qed
qed

lemma swap_loop_rev: "swap_loop s 0 (length s - 1) = rev s"
  using swap_loop_middle [of "[]" 0 s "[]"] by simp

fun digits_of :: "nat \<Rightarrow> nat \<Rightarrow> nat list" where
  "digits_of base v = (if v < base \<or> base < 2 then [v] else v mod base # digits_of base (v div base))"

declare digits_of.simps [simp del]

lemma digits_loop_eq:
  "2 \<le> base \<Longrightarrow> digits_loop v base buf = Some (buf @ map digit_char (digits_of base v))"
proof (induction base v arbitrary: buf rule: digits_of.induct)
  case (1 base v)
  show ?case
  proof (cases "v < base")
    case True
    with 1 show ?thesis by (subst digits_loop.simps) (simp add: digits_of.simps)
  next
    case False
    then have "v div base \<noteq> 0" using 1 by (auto simp: div_eq_0_iff)
    with 1 False show ?thesis by (subst digits_loop.simps) (simp add: digits_of.simps [of base v])
  qed
qed

lemma digits_of_less: "2 \<le> base \<Longrightarrow> d \<in> set (digits_of base v) \<Longrightarrow> d < base"
proof (induction base v rule: digits_of.induct)
  case (1 base v)
  show ?case
  proof (cases "v < base")
    case True
    with 1 show ?thesis by (simp add: digits_of.simps [of base v])
  next
    case False
    with 1 show ?thesis by (auto simp: digits_of.simps [of base v])
  qed
qed

lemma digits_of_value: "2 \<le> base \<Longrightarrow> foldr (\<lambda>d a. a * base + d) (digits_of base v) 0 = v"
proof (induction base v rule: digits_of.induct)
  case (1 base v)
  then show ?case by (auto simp: digits_of.simps [of base v])
qed

lemma digits_of_last: "2 \<le> base \<Longrightarrow> last (digits_of base v) = 0 \<Longrightarrow> v = 0"
proof (induction base v rule: digits_of.induct)
  case (1 base v)
  have "digits_of base w \<noteq> []" for w by (subst digits_of.simps) simp
  with 1 show ?case
    by (auto simp: digits_of.simps [of base v] div_eq_0_iff split: if_splits)
qed

lemma digits_of_length: "2 \<le> base \<Longrightarrow> 0 < n \<Longrightarrow> v < base ^ n \<Longrightarrow> length (digits_of base v) \<le> n"
proof (induction base v arbitrary: n rule: digits_of.induct)
  case (1 base v)
  show ?case
  proof (cases "v < base")
    case True
    with 1 show ?thesis by (simp add: digits_of.simps)
  next
    case False
    then have "n \<noteq> 1" using 1(4) by auto
    then obtain k where k: "n = Suc k" "0 < k" using 1(3) by (cases n) auto
    then have "v div base < base ^ k" using 1(4) by (simp add: less_mult_imp_div_less mult.commute)
    with 1(1) [of k] k 1(2) False show ?thesis by (simp add: digits_of.simps [of base v])
  qed
qed

lemma uint_to_base_eq:
  "2 \<le> base \<Longrightarrow> uint_to_base v base =
     Some (length (digits_of base v), rev (map digit_char (digits_of base v)))"
  by (simp add: uint_to_base_def digits_loop_eq swap_loop_rev del: length_map)
     (simp add: swap_loop_rev [of "map digit_char (digits_of base v)", simplified])

lemma value_of_digits:
  assumes "2 \<le> base" "base \<le> 36"
  shows "value_of base (rev (map digit_char (digits_of base v))) = v"
proof -
  have d: "\<forall>d\<in>set (digits_of base v). d < 36" using digits_of_less [OF assms(1)] assms(2) by fastforce
  have "value_of base (rev (map digit_char ds)) = foldr (\<lambda>d a. a * base + d) ds 0"
    if "\<forall>d\<in>set ds. d < 36" for ds
    using that by (induction ds) (auto simp: value_of_def)
  with d digits_of_value [OF assms(1)] show ?thesis by simp
qed

text \<open>C32: \<open>uint_to_base\<close> returns for every value in every base from 2 to 36; reading the
  string back gives the value, the count is its length, and there is no leading zero.\<close>

theorem uint_to_base_roundtrip:
  assumes "2 \<le> base" "base \<le> 36"
  shows "\<exists>s. uint_to_base v base = Some (length s, s) \<and> value_of base s = v \<and> s \<noteq> [] \<and>
    (v \<noteq> 0 \<longrightarrow> hd s \<noteq> CHR ''0'')"
proof -
  let ?d = "digits_of base v"
  have ne: "?d \<noteq> []" by (subst digits_of.simps) simp
  have "digit_value (digit_char (last ?d)) = last ?d"
    using digits_of_less [OF assms(1) last_in_set [OF ne]] assms(2) by simp
  then have "hd (rev (map digit_char ?d)) \<noteq> CHR ''0''" if "v \<noteq> 0"
    using digits_of_last [OF assms(1), of v] that ne
    by (auto simp: hd_rev last_map digit_value_def)
  then show ?thesis
    using uint_to_base_eq [OF assms(1)] value_of_digits [OF assms] ne by auto
qed

theorem uint_to_base_roundtrip_witness:
  "uint_to_base 2024 10 = Some (4, ''2024'') \<and> (\<exists>s. uint_to_base 255 16 = Some (length s, s) \<and> value_of 16 s = 255)"
  using uint_to_base_roundtrip [of 16 255]
  by (simp add: uint_to_base_eq digits_of.simps digit_char_def char_of_def bit_Suc_0_iff)

lemma uint_to_base_inj:
  assumes "uint_to_base v 10 = Some (n, s)" "uint_to_base w 10 = Some (k, s)"
  shows "v = w"
  using assms value_of_digits [of 10 v] value_of_digits [of 10 w] by (simp add: uint_to_base_eq)

section \<open>The text console\<close>

record console =
  video_mem :: "nat \<Rightarrow> nat"
  current_video :: nat

definition video :: nat where "video = 0xB8000"
definition width :: nat where "width = 80"
definition height :: nat where "height = 25"
definition deafultcolor :: nat where "deafultcolor = 0x0f"
definition defaultback :: nat where "defaultback = 0"

definition nc_print_char_color :: "char \<Rightarrow> nat \<Rightarrow> nat \<Rightarrow> console \<Rightarrow> console" where
  "nc_print_char_color character color back c =
     (let a = current_video c; font = (color OR back) mod 256
      in c\<lparr>video_mem := (video_mem c)(a := of_char character, a + 1 := font), current_video := a + 2\<rparr>)"

definition nc_print_char :: "char \<Rightarrow> console \<Rightarrow> console" where
  "nc_print_char character = nc_print_char_color character deafultcolor defaultback"

fun nc_print :: "string \<Rightarrow> console \<Rightarrow> console" where
  "nc_print [] c = c"
| "nc_print (x # xs) c = nc_print xs (nc_print_char x c)"

fun nc_printColor :: "string \<Rightarrow> nat \<Rightarrow> nat \<Rightarrow> console \<Rightarrow> console" where
  "nc_printColor [] color back c = c"
| "nc_printColor (x # xs) color back c = nc_printColor xs color back (nc_print_char_color x color back c)"

text \<open>\<open>nc_backspace\<close> compares the byte at the cursor, not the cursor, with 0xB8002.\<close>

definition nc_backspace :: "console \<Rightarrow> console" where
  "nc_backspace c =
     (if video_mem c (current_video c) \<ge> 0xB8002
      then c\<lparr>video_mem := (video_mem c)(current_video c - 2 := 32), current_video := current_video c - 2\<rparr>
      else c)"

partial_function (option) nc_newline :: "console \<Rightarrow> console option" where
  "nc_newline c =
     (let c = nc_print_char (CHR '' '') c
      in if (current_video c - video) mod (width * 2) \<noteq> 0 then nc_newline c else Some c)"

definition nc_print_base :: "nat \<Rightarrow> nat \<Rightarrow> console \<Rightarrow> console option" where
  "nc_print_base v base c = do { (n, buffer) \<leftarrow> uint_to_base v base; Some (nc_print buffer c) }"

definition nc_print_dec :: "nat \<Rightarrow> console \<Rightarrow> console option" where
  "nc_print_dec v = nc_print_base v 10"

definition nc_print_hex :: "nat \<Rightarrow> console \<Rightarrow> console option" where
  "nc_print_hex v = nc_print_base v 16"

definition nc_print_bin :: "nat \<Rightarrow> console \<Rightarrow> console option" where
  "nc_print_bin v = nc_print_base v 2"

definition nc_clear :: "console \<Rightarrow> console" where
  "nc_clear c = c\<lparr>video_mem := fold (\<lambda>i m. m(video + i * 2 := 32)) [0..<height * width] (video_mem c),
     current_video := video\<rparr>"

lemma nc_print_char_current [simp]: "current_video (nc_print_char x c) = current_video c + 2"
  by (simp add: nc_print_char_def nc_print_char_color_def Let_def)

lemma nc_newline_steps:
  assumes "current_video c = video + 2 * k" "j = 80 - k mod 80"
  shows "\<exists>c'. nc_newline c = Some c' \<and> current_video c' = video + 2 * (k + j) \<and>
    c' = nc_print (replicate j (CHR '' '')) c"
  using assms
proof (induction j arbitrary: c k)
  case 0
  then show ?case using mod_less_divisor [of 80 k] by simp
next
  case (Suc j)
  let ?c = "nc_print_char (CHR '' '') c"
  have cur: "current_video ?c = video + 2 * Suc k" using Suc.prems(1) by simp
  then have m: "(current_video ?c - video) mod (width * 2) = 2 * (Suc k mod 80)"
    using mult_mod_right [of 2 "Suc k" 80] by (simp add: width_def)
  show ?case
  proof (cases "Suc k mod 80 = 0")
    case True
    then have "j = 0" using Suc.prems(2) by (simp add: mod_Suc split: if_splits)
    with True m cur show ?thesis by (subst nc_newline.simps) (simp add: Let_def)
  next
    case False
    then have "Suc k mod 80 = Suc (k mod 80)" by (simp add: mod_Suc split: if_splits)
    then have "j = 80 - Suc k mod 80" using Suc.prems(2) by simp
    from Suc.IH [OF cur this] False m show ?thesis
      by (subst nc_newline.simps) (simp add: Let_def)
  qed
qed

text \<open>From any cell of the screen, \<open>nc_newline\<close> returns with the cursor at the start of the
  next line, having printed a blank in each remaining cell of the current one.\<close>

lemma nc_newline_next_line:
  assumes "current_video c = video + 2 * k"
  shows "\<exists>c'. nc_newline c = Some c' \<and> current_video c' = video + 160 * (k div 80 + 1) \<and>
    c' = nc_print (replicate (80 - k mod 80) (CHR '' '')) c"
proof -
  have "k + (80 - k mod 80) = 80 * (k div 80 + 1)"
  proof -
    define q r where "q = k div 80" and "r = k mod 80"
    have "k = 80 * q + r" "r < 80" unfolding q_def r_def by simp_all
    then show ?thesis unfolding q_def [symmetric] r_def [symmetric] by simp
  qed
  with nc_newline_steps [OF assms refl] show ?thesis by auto
qed

definition console0 :: console where
  "console0 = \<lparr>video_mem = \<lambda>a. 0, current_video = video + 158\<rparr>"

lemma nc_newline_example:
  "\<exists>c'. nc_newline console0 = Some c' \<and> current_video c' = video + 160"
  using nc_newline_next_line [of console0 79] by (auto simp: console0_def)

text \<open>The procedure \<open>nc_backspace\<close> never erases anything: its guard compares a byte of video memory with
  an address, and on a store of bytes the state is always unchanged.\<close>

lemma nc_backspace_noop:
  assumes "\<forall>a. video_mem c a < 256"
  shows "nc_backspace c = c"
  using assms [rule_format, of "current_video c"] by (simp add: nc_backspace_def)

lemma nc_backspace_example: "nc_backspace (nc_print_char (CHR ''a'') console0) \<noteq> console0 \<and>
    nc_backspace console0 = console0"
  using nc_backspace_noop [of console0]
  by (simp add: console0_def nc_backspace_def nc_print_char_def nc_print_char_color_def Let_def)

section \<open>The clock\<close>

text \<open>C's truncating remainder on \<open>int\<close>.\<close>

definition c_rem :: "int \<Rightarrow> int \<Rightarrow> int" where
  "c_rem a b = (if 0 \<le> a then a mod b else - ((- a) mod b))"

definition days_in_month :: "int \<Rightarrow> int list" where
  "days_in_month year =
     [31, if c_rem year 4 = 0 \<and> (c_rem year 100 \<noteq> 0 \<or> c_rem year 400 = 0) then 29 else 28,
      31, 30, 31, 30, 31, 31, 30, 31, 30, 31]"

definition month_entry :: "int list \<Rightarrow> int \<Rightarrow> int option" where
  "month_entry dim month =
     (let i = c_rem (month - 1) 12 in if 0 \<le> i \<and> i < 12 then Some (dim ! nat i) else None)"

text \<open>
  \<open>convert_to_gtm_minus_3\<close> on hours, day of month, month and year. The table is indexed once
  before February is adjusted, with a result that is always overwritten, and again after the
  month is decremented, possibly to 0: index -1 is outside the table.
\<close>

definition convert_to_gtm_minus_3 ::
  "int \<Rightarrow> int \<Rightarrow> int \<Rightarrow> int \<Rightarrow> (int \<times> int \<times> int \<times> int) option" where
  "convert_to_gtm_minus_3 hours days month year = do {
     month_days \<leftarrow> month_entry [31, 28, 31, 30, 31, 30, 31, 31, 30, 31, 30, 31] month;
     let dim = days_in_month year;
     let hours = hours - 3;
     if hours < 0 then do {
       let hours = hours + 24;
       let days = days - 1;
       if days < 1 then do {
         let month = month - 1;
         month_days \<leftarrow> month_entry dim month;
         let (month, year) = (if month < 1 then (12, year - 1) else (month, year));
         Some (hours, month_days, month, year)
       } else Some (hours, days, month, year)
     } else Some (hours, days, month, year)
   }"

definition days_names :: "string list" where
  "days_names = [''sun'', ''lun'', ''mar'', ''mie'', ''jue'', ''vie'', ''sab'']"

text \<open>An \<open>int\<close> argument where \<open>uint_to_base\<close> expects a \<open>uint64_t\<close> is sign-extended.\<close>

definition dec_of :: "int \<Rightarrow> string option" where
  "dec_of n = map_option snd (uint_to_base (nat (n mod 2 ^ 64)) 10)"

definition Time_clock :: "int \<Rightarrow> int \<Rightarrow> int \<Rightarrow> int \<Rightarrow> int \<Rightarrow> int \<Rightarrow> int \<Rightarrow> string option" where
  "Time_clock hours minutes seconds weekday monthDay month year = do {
     (hours, monthDay, month, year) \<leftarrow> convert_to_gtm_minus_3 hours monthDay month year;
     h \<leftarrow> dec_of hours;
     mi \<leftarrow> dec_of minutes;
     se \<leftarrow> dec_of seconds;
     name \<leftarrow> (if 1 \<le> weekday \<and> weekday \<le> 7 then Some (days_names ! nat (weekday - 1)) else None);
     d \<leftarrow> dec_of monthDay;
     mo \<leftarrow> dec_of month;
     y \<leftarrow> dec_of year;
     Some (h @ '':'' @ mi @ '':'' @ se @ '' '' @ name @ '' '' @ d @ ''/'' @ mo @ ''/'' @ y @ '' '')
   }"

text \<open>The civil calendar, the other way round: three hours later.\<close>

definition leap :: "int \<Rightarrow> bool" where
  "leap year \<longleftrightarrow> year mod 4 = 0 \<and> (year mod 100 \<noteq> 0 \<or> year mod 400 = 0)"

definition month_length :: "int \<Rightarrow> int \<Rightarrow> int" where
  "month_length month year = (if month = 2 then (if leap year then 29 else 28)
     else if month \<in> {4, 6, 9, 11} then 30 else 31)"

definition valid_date :: "int \<Rightarrow> int \<Rightarrow> int \<Rightarrow> int \<Rightarrow> bool" where
  "valid_date h d m y \<longleftrightarrow> 0 \<le> h \<and> h < 24 \<and> 1 \<le> m \<and> m \<le> 12 \<and> 1 \<le> d \<and> d \<le> month_length m y"

definition three_hours_later :: "int \<Rightarrow> int \<Rightarrow> int \<Rightarrow> int \<Rightarrow> int \<times> int \<times> int \<times> int" where
  "three_hours_later h d m y =
     (if h + 3 < 24 then (h + 3, d, m, y)
      else if d < month_length m y then (h + 3 - 24, d + 1, m, y)
      else if m < 12 then (h + 3 - 24, 1, m + 1, y)
      else (h + 3 - 24, 1, 1, y + 1))"

text \<open>C33: the conversion to GMT-3 is correct on every valid date, with one exception. In the
  first three hours of January 1st it reads the month table at index -1; on every other valid
  date it returns the valid date that is three hours earlier.\<close>

theorem convert_to_gtm_minus_3_correct:
  assumes "valid_date h d m y" "0 \<le> y"
  shows "case convert_to_gtm_minus_3 h d m y of
      None \<Rightarrow> h < 3 \<and> d = 1 \<and> m = 1
    | Some (h', d', m', y') \<Rightarrow> \<not> (h < 3 \<and> d = 1 \<and> m = 1) \<and> valid_date h' d' m' y' \<and>
        three_hours_later h' d' m' y' = (h, d, m, y)"
proof -
  have dim: "days_in_month y = [31, if leap y then 29 else 28, 31, 30, 31, 30, 31, 31, 30, 31, 30, 31]"
    using assms(2) by (simp add: days_in_month_def leap_def c_rem_def)
  have "m = 1 \<or> m = 2 \<or> m = 3 \<or> m = 4 \<or> m = 5 \<or> m = 6 \<or> m = 7 \<or> m = 8 \<or> m = 9 \<or>
      m = 10 \<or> m = 11 \<or> m = 12"
    using assms(1) unfolding valid_date_def by presburger
  then show ?thesis
    using assms unfolding convert_to_gtm_minus_3_def Let_def month_entry_def c_rem_def dim
    by (elim disjE)
      (simp_all add: valid_date_def three_hours_later_def month_length_def)
qed

theorem convert_to_gtm_minus_3_correct_witness:
  "convert_to_gtm_minus_3 1 1 3 24 = Some (22, 29, 2, 24) \<and> convert_to_gtm_minus_3 1 1 1 24 = None"
  using convert_to_gtm_minus_3_correct [of 1 1 3 24] convert_to_gtm_minus_3_correct [of 1 1 1 24]
  by (simp add: valid_date_def month_length_def leap_def convert_to_gtm_minus_3_def month_entry_def
      c_rem_def days_in_month_def Let_def)

end
