(* ===== verification/Kernel_State.thy ===== *)
theory Kernel_State
  imports Circular_List Console
begin

text \<open>
  The state the kernel's modules share: the heap, the objects they allocate on it (by address),
  the scheduler's queues, the current process and the semaphore table. A ring of
  circular_list.c is the list of its nodes (address and datum) from \<open>current_node\<close> on, as
  Circular_List shows for the pointer code; the nodes themselves are allocated and released
  on the heap. Dereferencing a pointer that can be NULL is \<open>None\<close> when it is.
\<close>

section \<open>Constants and structures\<close>

datatype status_t = BLOCKED | READY | RUNNING | DEAD | ZOMBIE

text \<open>The priorities \<open>priority_t\<close> and the other constants of process.h, scheduler.h and mysemaphore.h.\<close>

definition IDLE_PRIORITY :: nat where "IDLE_PRIORITY = 0"
definition LOW_PRIORITY :: nat where "LOW_PRIORITY = 1"
definition MEDIUM_PRIORITY :: nat where "MEDIUM_PRIORITY = 2"
definition HIGH_PRIORITY :: nat where "HIGH_PRIORITY = 3"
definition QUEUE_QTY :: nat where "QUEUE_QTY = 4"
definition OS_PID :: int where "OS_PID = 1"
definition SHELL_PID :: int where "SHELL_PID = 2"
definition SHELL :: int where "SHELL = 0"
definition MAX_SEM_NAME :: nat where "MAX_SEM_NAME = 5"
definition BASE :: nat where "BASE = 10"
definition MIN_HEAP_SIZE :: nat where "MIN_HEAP_SIZE = 0x1000"
definition MIN_STACK_SIZE :: nat where "MIN_STACK_SIZE = 0x1000"
definition MAX_PROCESSES :: nat where "MAX_PROCESSES = 1024"
definition MAX_IDENTIFIER :: nat where "MAX_IDENTIFIER = 15"
definition MAX_SEMS :: nat where "MAX_SEMS = 128"
definition AVAILABLE :: nat where "AVAILABLE = 1"
definition UNAVAILABLE :: nat where "UNAVAILABLE = 0"

lemmas priority_defs = IDLE_PRIORITY_def LOW_PRIORITY_def MEDIUM_PRIORITY_def HIGH_PRIORITY_def QUEUE_QTY_def

record mem_block_t =
  base :: nat
  block_size :: nat
  block_current :: nat

record process_t =
  pid :: int
  parent_pid :: int
  status :: status_t
  name :: nat
  foreground :: nat
  stack :: nat
  process_heap :: nat
  sem_name :: string
  fr :: int
  fw :: int

text \<open>\<open>reg_state\<close> of \<open>pcb_t\<close> is written by assembly only and read nowhere.\<close>

record pcb_t =
  ticks :: nat
  priority :: nat
  process :: nat

text \<open>Sizes with the alignment of the target.\<close>

definition sizeof_mem_block_t :: nat where "sizeof_mem_block_t = 24"
definition sizeof_process_t :: nat where "sizeof_process_t = 64"
definition sizeof_pcb_t :: nat where "sizeof_pcb_t = 184"
definition sizeof_scheduler_queue :: nat where "sizeof_scheduler_queue = 16"

text \<open>A queue header: its address (0 when it was never created) and its ring.\<close>

record kqueue =
  qaddr :: nat
  items :: "(nat \<times> nat) list"

record scheduler_queue =
  sq_addr :: nat
  quantum :: nat
  queue :: kqueue

record my_sem_t =
  sem_id :: string
  waiting :: "(nat \<times> int) list"
  is_locked :: nat
  counter :: int
  queue_size :: nat
  allowed_processes :: "int list"
  allowed_process_count :: int
  being_cleared :: int

record space_t =
  sem :: my_sem_t
  sem_status :: nat

record kernel =
  mm :: heap
  blocks_at :: "nat \<Rightarrow> mem_block_t"
  name_at :: "nat \<Rightarrow> string"
  processes :: "nat \<Rightarrow> process_t"
  pcbs :: "nat \<Rightarrow> pcb_t"
  scheduler :: "nat \<Rightarrow> scheduler_queue"
  waiting_for_remove :: kqueue
  creation_queue :: kqueue
  current_pcb :: nat
  scheduler_status :: nat
  foreground_pid :: int
  processes_qty :: nat
  next_pid :: nat
  sem_spaces :: "space_t list"
  rsp :: nat
  process_started :: int
  timer_ticks :: nat

section \<open>Access to the state\<close>

definition kmalloc :: "kernel \<Rightarrow> nat \<Rightarrow> (nat \<times> kernel) option" where
  "kmalloc s n = do { (p, h) \<leftarrow> malloc (mm s) n; Some (p, s\<lparr>mm := h\<rparr>) }"

definition kfree :: "kernel \<Rightarrow> nat \<Rightarrow> kernel option" where
  "kfree s p = do { h \<leftarrow> free (mm s) p; Some (s\<lparr>mm := h\<rparr>) }"

definition process_of :: "kernel \<Rightarrow> nat \<Rightarrow> process_t" where
  "process_of s p = processes s (process (pcbs s p))"

definition status_of :: "kernel \<Rightarrow> nat \<Rightarrow> status_t" where
  "status_of s p = status (process_of s p)"

definition pid_of :: "kernel \<Rightarrow> nat \<Rightarrow> int" where
  "pid_of s p = pid (process_of s p)"

text \<open>\<open>pcb->process->status = x\<close>.\<close>

definition set_status :: "nat \<Rightarrow> status_t \<Rightarrow> kernel \<Rightarrow> kernel" where
  "set_status p x s = s\<lparr>processes := (processes s)
     (process (pcbs s p) := (process_of s p)\<lparr>status := x\<rparr>)\<rparr>"

definition set_ticks :: "nat \<Rightarrow> nat \<Rightarrow> kernel \<Rightarrow> kernel" where
  "set_ticks p n s = s\<lparr>pcbs := (pcbs s)(p := (pcbs s p)\<lparr>ticks := n\<rparr>)\<rparr>"

definition set_priority :: "nat \<Rightarrow> nat \<Rightarrow> kernel \<Rightarrow> kernel" where
  "set_priority p n s = s\<lparr>pcbs := (pcbs s)(p := (pcbs s p)\<lparr>priority := n\<rparr>)\<rparr>"

text \<open>The ring \<open>scheduler[i]->queue\<close>; \<open>None\<close> for an index outside the array or a NULL pointer.\<close>

definition sched_queue :: "kernel \<Rightarrow> nat \<Rightarrow> (nat \<times> nat) list option" where
  "sched_queue s i =
     (if i < QUEUE_QTY \<and> sq_addr (scheduler s i) \<noteq> 0 \<and> qaddr (queue (scheduler s i)) \<noteq> 0
      then Some (items (queue (scheduler s i))) else None)"

definition set_sched_queue :: "nat \<Rightarrow> (nat \<times> nat) list \<Rightarrow> kernel \<Rightarrow> kernel" where
  "set_sched_queue i q s = s\<lparr>scheduler := (scheduler s)
     (i := (scheduler s i)\<lparr>queue := (queue (scheduler s i))\<lparr>items := q\<rparr>\<rparr>)\<rparr>"

text \<open>\<open>create_node\<close>; the datum travels with the address into the ring it is inserted in.\<close>

definition kcreate_node :: "kernel \<Rightarrow> (nat \<times> kernel) option" where
  "kcreate_node s = kmalloc s sizeof_node_t"

definition kcreate_queue :: "kernel \<Rightarrow> (kqueue \<times> kernel) option" where
  "kcreate_queue s = do { (a, s) \<leftarrow> kmalloc s sizeof_queue_t; Some (\<lparr>qaddr = a, items = []\<rparr>, s) }"

text \<open>\<open>insert_node\<close> and \<open>remove_node(q, q->current_node)\<close> on a ring; a NULL queue is undefined.\<close>

definition kinsert :: "kqueue \<Rightarrow> nat \<Rightarrow> nat \<Rightarrow> (int \<times> kqueue) option" where
  "kinsert q a d =
     (if a = 0 then Some (- 1, q)
      else if qaddr q = 0 then None
      else Some (to_int32 (int (length (items q))), q\<lparr>items := items q @ [(a, d)]\<rparr>))"

definition kremove_first :: "kqueue \<Rightarrow> kernel \<Rightarrow> (nat \<times> kqueue \<times> kernel) option" where
  "kremove_first q s =
     (if qaddr q = 0 then None
      else case items q of
        [] \<Rightarrow> Some (0, q, s)
      | (a, d) # rest \<Rightarrow> do { s \<leftarrow> kfree s a; Some (d, q\<lparr>items := rest\<rparr>, s) })"

text \<open>A pid stored in a \<open>void *\<close>, and read back with \<open>(int)(uintptr_t)\<close>.\<close>

definition of_pid :: "int \<Rightarrow> nat" where
  "of_pid p = nat (p mod 2 ^ 64)"

definition to_pid :: "nat \<Rightarrow> int" where
  "to_pid n = to_int32 (int n)"

lemma to_pid_of_pid [simp]:
  assumes "- (2 ^ 31) \<le> p" "p < 2 ^ 31"
  shows "to_pid (of_pid p) = p"
proof -
  have "p mod 2 ^ 64 mod 2 ^ 32 = p mod (2 ^ 32 :: int)" by (rule mod_mod_cancel) simp
  then have "(p mod 2 ^ 64 + 2 ^ 31) mod 2 ^ 32 = (p + 2 ^ 31) mod 2 ^ 32"
    by (metis mod_add_left_eq)
  then show ?thesis using assms by (simp add: to_pid_def of_pid_def to_int32_def)
qed

lemma of_pid_0 [simp]: "of_pid 0 = 0"
  by (simp add: of_pid_def)

section \<open>The process table\<close>

text \<open>The entry of a ring whose process has the given pid, and the ring without its node.\<close>

fun find_entry :: "kernel \<Rightarrow> int \<Rightarrow> (nat \<times> nat) list \<Rightarrow> ((nat \<times> nat) \<times> (nat \<times> nat) list) option" where
  "find_entry s p [] = None"
| "find_entry s p ((a, d) # q) =
     (if pid_of s d = p then Some ((a, d), q)
      else map_option (\<lambda>(e, q'). (e, (a, d) # q')) (find_entry s p q))"

fun get_pcb_loop :: "kernel \<Rightarrow> int \<Rightarrow> nat list \<Rightarrow> nat option" where
  "get_pcb_loop s p [] = Some 0"
| "get_pcb_loop s p (i # is) = do {
     q \<leftarrow> sched_queue s i;
     case find_entry s p q of Some ((a, d), q') \<Rightarrow> Some d | None \<Rightarrow> get_pcb_loop s p is
   }"

definition get_pcb_entry :: "kernel \<Rightarrow> int \<Rightarrow> nat option" where
  "get_pcb_entry s p = get_pcb_loop s p [0..<QUEUE_QTY]"

definition current_process_id :: "kernel \<Rightarrow> int" where
  "current_process_id s = (if current_pcb s = 0 then - 1 else pid_of s (current_pcb s))"

text \<open>\<open>remove_from_queue_by_pid\<close> on \<open>scheduler[i]->queue\<close>; it returns the priority, 0 if absent.\<close>

definition remove_from_queue_by_pid :: "nat \<Rightarrow> int \<Rightarrow> kernel \<Rightarrow> (nat \<times> kernel) option" where
  "remove_from_queue_by_pid i p s = do {
     q \<leftarrow> sched_queue s i;
     case find_entry s p q of
       None \<Rightarrow> Some (0, s)
     | Some ((a, d), q') \<Rightarrow> do {
         s \<leftarrow> kfree s a;
         Some (priority (pcbs s d), set_sched_queue i q' s)
       }
   }"

definition os_revive_process :: "int \<Rightarrow> kernel \<Rightarrow> kernel option" where
  "os_revive_process p s = do {
     pcb \<leftarrow> get_pcb_entry s p;
     if pcb \<noteq> 0 \<and> (status_of s pcb = BLOCKED \<or> status_of s pcb = RUNNING)
     then Some (set_status pcb READY s) else Some s
   }"

definition os_block_current_process :: "kernel \<Rightarrow> int \<times> kernel" where
  "os_block_current_process s =
     (if current_pcb s = 0 then (- 1, s)
      else (pid_of s (current_pcb s), set_status (current_pcb s) BLOCKED s))"

text \<open>\<open>parent_pid\<close> of every process of the rings that had the given parent becomes the shell's.\<close>

definition reassign_queue :: "int \<Rightarrow> (nat \<times> nat) list \<Rightarrow> kernel \<Rightarrow> kernel" where
  "reassign_queue old q s = fold (\<lambda>(a, d) s.
     (if parent_pid (process_of s d) = old
      then s\<lparr>processes := (processes s)(process (pcbs s d) := (process_of s d)\<lparr>parent_pid := SHELL_PID\<rparr>)\<rparr>
      else s)) q s"

fun reassign_loop :: "int \<Rightarrow> nat list \<Rightarrow> kernel \<Rightarrow> kernel option" where
  "reassign_loop old [] s = Some s"
| "reassign_loop old (i # is) s = do {
     q \<leftarrow> sched_queue s i;
     reassign_loop old is (reassign_queue old q s)
   }"

definition reassign_children_to_shell :: "int \<Rightarrow> kernel \<Rightarrow> kernel option" where
  "reassign_children_to_shell old s = reassign_loop old [0..<QUEUE_QTY] s"

section \<open>Total correctness of stateful code\<close>

text \<open>
  \<open>runs m P\<close>: the computation returns and its result satisfies \<open>P\<close>. The rules in \<open>vcg\<close> take a
  body apart; those for the heap speak of the set \<open>starts\<close> of the live blocks' addresses.
\<close>

definition runs :: "'a option \<Rightarrow> ('a \<Rightarrow> bool) \<Rightarrow> bool" where
  "runs m P \<longleftrightarrow> (\<exists>x. m = Some x \<and> P x)"

named_theorems vcg

lemma runs_Some [vcg]: "P x \<Longrightarrow> runs (Some x) P"
  by (simp add: runs_def)

lemma runs_bind [vcg]: "runs m (\<lambda>x. runs (f x) P) \<Longrightarrow> runs (m \<bind> f) P"
  by (auto simp: runs_def)

lemma runs_if [vcg]: "(b \<Longrightarrow> runs m P) \<Longrightarrow> (\<not> b \<Longrightarrow> runs n P) \<Longrightarrow> runs (if b then m else n) P"
  by (simp add: runs_def)

lemma runs_let [vcg]: "(\<And>y. y = x \<Longrightarrow> runs (f y) P) \<Longrightarrow> runs (let y = x in f y) P"
  by (simp add: runs_def)

lemma runs_case_prod [vcg]: "(case x of (a, b) \<Rightarrow> runs (f a b) P) \<Longrightarrow> runs (case x of (a, b) \<Rightarrow> f a b) P"
  by (cases x) (simp add: runs_def)


abbreviation starts :: "heap \<Rightarrow> nat set" where
  "starts h \<equiv> fst ` live h"

lemma runs_kmalloc [vcg]:
  assumes "heap_inv (mm s)"
    "\<And>p t. heap_inv (mm t) \<Longrightarrow> (p = 0 \<Longrightarrow> starts (mm t) = starts (mm s)) \<Longrightarrow>
      (p \<noteq> 0 \<Longrightarrow> starts (mm t) = insert p (starts (mm s))) \<Longrightarrow> (p \<noteq> 0 \<Longrightarrow> p \<notin> starts (mm s)) \<Longrightarrow>
      next_pid t = next_pid s \<Longrightarrow> sem_spaces t = sem_spaces s \<Longrightarrow>
      processes t = processes s \<Longrightarrow> blocks_at t = blocks_at s \<Longrightarrow> P (p, t)"
  shows "runs (kmalloc s n) P"
proof -
  obtain p h where h: "malloc (mm s) n = Some (p, h)" "heap_inv h" "p = 0 \<Longrightarrow> starts h = starts (mm s)"
    "p \<noteq> 0 \<Longrightarrow> p \<notin> starts (mm s)" "p \<noteq> 0 \<Longrightarrow> starts h = insert p (starts (mm s))"
    using bitmap.malloc_owned [OF assms(1)] by blast
  then show ?thesis using assms(2) [of "s\<lparr>mm := h\<rparr>" p] by (simp add: runs_def kmalloc_def)
qed

lemma runs_kfree [vcg]:
  assumes "heap_inv (mm s)" "p \<in> starts (mm s)"
    "\<And>h. heap_inv h \<Longrightarrow> starts h = starts (mm s) - {p} \<Longrightarrow> P (s\<lparr>mm := h\<rparr>)"
  shows "runs (kfree s p) P"
proof -
  obtain h where h: "free (mm s) p = Some h" "heap_inv h" "starts h = starts (mm s) - {p}"
    using bitmap.free_owned [OF assms(1,2)] by blast
  then show ?thesis using assms(3) [of h] by (simp add: runs_def kfree_def)
qed

section \<open>A small kernel for the witnesses\<close>

text \<open>
  The shell (pid 2, running) and a second process (pid 3) in the ring of the highest priority,
  the idle process (pid 1) in ring 0. Each has, in this order, a list node, a pcb, a process
  structure and the record of its stack on the heap, which starts at 8192.
\<close>

definition demo_block :: mem_block_t where
  "demo_block = \<lparr>base = 0, block_size = 4096, block_current = 0\<rparr>"

definition demo_process :: process_t where
  "demo_process = \<lparr>pid = 0, parent_pid = 1, status = READY, name = 0, foreground = 0, stack = 0,
     process_heap = 0, sem_name = [], fr = 0, fw = 0\<rparr>"

definition demo_pages :: "page list" where
  "demo_pages = SINGLE_PAGE # block_pages 6 @ block_pages 2 @ [SINGLE_PAGE]"

definition demo_heap :: heap where
  "demo_heap = \<lparr>heap_start = 8192, heap_size = 1120, heap_end = 9312, page_qty = 35, page_size = 32,
     last_freed_page = 0, pages_ptr = 4096,
     pages = demo_pages @ demo_pages @ demo_pages @ SINGLE_PAGE # replicate 4 FREE\<rparr>"

definition demo_sem :: space_t where
  "demo_sem = \<lparr>sem = \<lparr>sem_id = [], waiting = [], is_locked = 0, counter = 0, queue_size = 0,
     allowed_processes = replicate MAX_PROCESSES (- 1), allowed_process_count = 0, being_cleared = 0\<rparr>,
     sem_status = AVAILABLE\<rparr>"

definition demo_ring :: "nat \<Rightarrow> (nat \<times> nat) list \<Rightarrow> scheduler_queue" where
  "demo_ring a q = \<lparr>sq_addr = a, quantum = 1, queue = \<lparr>qaddr = a + 16, items = q\<rparr>\<rparr>"

definition demo_kernel :: kernel where
  "demo_kernel = \<lparr>mm = demo_heap,
     blocks_at = (\<lambda>_. demo_block)(8480 := demo_block\<lparr>block_current := 501\<rparr>, 8800 := demo_block\<lparr>block_current := 502\<rparr>,
       9120 := demo_block\<lparr>block_current := 503\<rparr>),
     name_at = (\<lambda>_. []),
     processes = (\<lambda>_. demo_process)
       (8416 := demo_process\<lparr>pid := 2, status := RUNNING, stack := 8480, sem_name := ''2''\<rparr>,
        8736 := demo_process\<lparr>pid := 3, parent_pid := 2, stack := 8800, sem_name := ''3''\<rparr>,
        9056 := demo_process\<lparr>pid := 1, stack := 9120, sem_name := ''1''\<rparr>),
     pcbs = (\<lambda>_. \<lparr>ticks = 0, priority = 0, process = 0\<rparr>)
       (8224 := \<lparr>ticks = 0, priority = 3, process = 8416\<rparr>, 8544 := \<lparr>ticks = 0, priority = 3, process = 8736\<rparr>,
        8864 := \<lparr>ticks = 0, priority = 0, process = 9056\<rparr>),
     scheduler = (\<lambda>_. demo_ring 0 [])(0 := demo_ring 7000 [(8832, 8864)], 1 := demo_ring 7032 [],
       2 := demo_ring 7064 [], 3 := demo_ring 7096 [(8192, 8224), (8512, 8544)]),
     waiting_for_remove = \<lparr>qaddr = 7200, items = []\<rparr>, creation_queue = \<lparr>qaddr = 7232, items = []\<rparr>,
     current_pcb = 8224, scheduler_status = 1, foreground_pid = 2, processes_qty = 3, next_pid = 4,
     sem_spaces = replicate MAX_SEMS demo_sem, rsp = 0, process_started = 0, timer_ticks = 0\<rparr>"

lemmas demo_defs = demo_kernel_def demo_ring_def demo_process_def demo_block_def

lemma demo_scan: "scan 0 None (pages demo_heap) = Some [(0, 1), (1, 6), (7, 2), (9, 1), (10, 1), (11, 6), (17, 2),
    (19, 1), (20, 1), (21, 6), (27, 2), (29, 1), (30, 1)]"
  by (simp add: demo_heap_def demo_pages_def block_pages_def eval_nat_numeral)

lemma demo_heap_inv: "heap_inv demo_heap"
  unfolding heap_inv_def using demo_scan
  by (simp add: demo_heap_def demo_pages_def PAGE_SIZE_def)

end
