(* ===== verification/Semaphore.thy ===== *)
theory Semaphore
  imports Kernel_State
begin

text \<open>
  Kernel/semaphore.c with the lock routines of Kernel/asm/semaphores.asm: the table of named
  locks, opening and closing, the queue of waiting processes, release and clearing. Waiting,
  which gives up the processor, is in Blocking. \<open>waiting\<close> is the list from \<open>head\<close> to \<open>tail\<close>;
  an access outside an array is \<open>None\<close>.
\<close>

section \<open>Operations\<close>

definition sem_at :: "kernel \<Rightarrow> nat \<Rightarrow> my_sem_t" where
  "sem_at s i = sem (sem_spaces s ! i)"

definition set_sem :: "nat \<Rightarrow> my_sem_t \<Rightarrow> kernel \<Rightarrow> kernel" where
  "set_sem i x s = s\<lparr>sem_spaces := (sem_spaces s)[i := (sem_spaces s ! i)\<lparr>sem := x\<rparr>]\<rparr>"

definition set_sem_status :: "nat \<Rightarrow> nat \<Rightarrow> kernel \<Rightarrow> kernel" where
  "set_sem_status i x s = s\<lparr>sem_spaces := (sem_spaces s)[i := (sem_spaces s ! i)\<lparr>sem_status := x\<rparr>]\<rparr>"

text \<open>The static table before \<open>initialize_sems\<close>.\<close>

definition sem_zero :: space_t where
  "sem_zero = \<lparr>sem = \<lparr>sem_id = [], waiting = [], is_locked = 0, counter = 0, queue_size = 0,
     allowed_processes = replicate MAX_PROCESSES 0, allowed_process_count = 0, being_cleared = 0\<rparr>,
     sem_status = 0\<rparr>"

definition initialize_sems :: "kernel \<Rightarrow> kernel" where
  "initialize_sems s = s\<lparr>sem_spaces := map (\<lambda>sp. sp\<lparr>sem := (sem sp)
       \<lparr>allowed_processes := replicate MAX_PROCESSES (- 1), allowed_process_count := 0\<rparr>,
     sem_status := AVAILABLE\<rparr>) (sem_spaces s)\<rparr>"

text \<open>
  The loop \<open>for (i = 1; i <= MAX_PROCESSES; i++)\<close> writes one element past the array, the member
  \<open>allowed_process_count\<close>, with the value it already has.
\<close>

definition init_keyboard_sem :: "kernel \<Rightarrow> kernel" where
  "init_keyboard_sem s =
     (let x = sem_at s 0;
          x = x\<lparr>counter := 1, is_locked := 0, queue_size := 0, waiting := [],
            allowed_process_count := int MAX_PROCESSES\<rparr>;
          x = x\<lparr>allowed_processes := (allowed_processes x ! 0) # map int [1..<MAX_PROCESSES],
            allowed_process_count := int MAX_PROCESSES\<rparr>
      in (set_sem 0 (x\<lparr>being_cleared := 0, sem_id := ''keyboard''\<rparr>)
           (set_sem_status 0 UNAVAILABLE s))\<lparr>process_started := 1\<rparr>)"

text \<open>\<open>locate_sem\<close>, with -1 as \<open>None\<close>.\<close>

fun locate_loop :: "space_t list \<Rightarrow> string \<Rightarrow> nat \<Rightarrow> nat option" where
  "locate_loop [] n i = None"
| "locate_loop (sp # sps) n i =
     (if sem_status sp = UNAVAILABLE \<and> sem_id (sem sp) = n then Some i else locate_loop sps n (i + 1))"

definition locate_sem :: "string \<Rightarrow> kernel \<Rightarrow> nat option" where
  "locate_sem n s = locate_loop (sem_spaces s) n 0"

fun find_available :: "space_t list \<Rightarrow> nat \<Rightarrow> nat option" where
  "find_available [] i = None"
| "find_available (sp # sps) i = (if sem_status sp = AVAILABLE then Some i else find_available sps (i + 1))"

definition my_sem_open :: "nat \<Rightarrow> string \<Rightarrow> kernel \<Rightarrow> (int \<times> kernel) option" where
  "my_sem_open start_value n s =
     (case locate_sem n s of
        Some i \<Rightarrow>
          let x = sem_at s i; k = allowed_process_count x in
          if 0 \<le> k \<and> k < int (length (allowed_processes x))
          then Some (int i, set_sem i (x\<lparr>allowed_processes := (allowed_processes x)[nat k := current_process_id s],
                 allowed_process_count := k + 1\<rparr>) s)
          else None
      | None \<Rightarrow>
          (case find_available (sem_spaces s) 0 of
             None \<Rightarrow> Some (- 1, s)
           | Some i \<Rightarrow>
               if length n < MAX_IDENTIFIER
               then let x = sem_at s i
                    in Some (int i, set_sem i (x\<lparr>counter := to_int32 (int start_value),
                         is_locked := (if start_value > 0 then 1 else 0), sem_id := n,
                         queue_size := 0, waiting := [], allowed_process_count := 1,
                         allowed_processes := (allowed_processes x)[0 := current_process_id s],
                         being_cleared := 0\<rparr>) (set_sem_status i UNAVAILABLE s))
               else None))"

text \<open>The loop of \<open>my_sem_close\<close>: the bound \<open>allowed_process_count\<close> shrinks while it runs.\<close>

function close_loop :: "int \<Rightarrow> nat \<Rightarrow> int \<Rightarrow> int list \<Rightarrow> (int \<times> int list) option" where
  "close_loop p i k ps =
     (if int i < k then
        (if i < length ps then
           (if ps ! i = p then close_loop p (i + 1) (k - 1) (ps[i := - 1]) else close_loop p (i + 1) k ps)
         else None)
      else Some (k, ps))"
  by pat_completeness auto
termination
  by (relation "measure (\<lambda>(p, i, k, ps). length ps - i)") auto

declare close_loop.simps [simp del]

text \<open>The list release of \<open>clear_sem\<close>.\<close>

fun free_waiting :: "(nat \<times> int) list \<Rightarrow> kernel \<Rightarrow> kernel option" where
  "free_waiting [] s = Some s"
| "free_waiting ((a, p) # w) s = do { s \<leftarrow> kfree s a; free_waiting w s }"

text \<open>
  \<open>clear_sem\<close> zeroes \<open>identifier[0..1023]\<close> although \<open>identifier\<close> has 15 bytes: the rest of the
  writes zero the members that follow it in the structure, up to and including
  \<open>allowed_processes[241]\<close> (byte 1023 of the structure).
\<close>

definition cleared_spill :: nat where "cleared_spill = 242"

definition clear_sem :: "string \<Rightarrow> kernel \<Rightarrow> (int \<times> kernel) option" where
  "clear_sem n s =
     (case locate_sem n s of
        None \<Rightarrow> Some (- 1, s)
      | Some i \<Rightarrow>
          if being_cleared (sem_at s i) \<noteq> 0 then Some (- 1, s)
          else do {
            let s = set_sem i ((sem_at s i)\<lparr>being_cleared := 1\<rparr>) s;
            s \<leftarrow> free_waiting (waiting (sem_at s i)) s;
            let x = sem_at s i;
            let k = nat (allowed_process_count x);
            if k > length (allowed_processes x) then None
            else do {
              let ps = replicate k 0 @ drop k (allowed_processes x);
              let x = x\<lparr>waiting := [], queue_size := 0, allowed_processes := ps,
                allowed_process_count := 0, counter := 0, is_locked := 0\<rparr>;
              let x = x\<lparr>sem_id := [], allowed_processes := replicate cleared_spill 0 @ drop cleared_spill ps\<rparr>;
              Some (0, set_sem_status i AVAILABLE (set_sem i x s))
            }
          })"

definition my_sem_close :: "string \<Rightarrow> kernel \<Rightarrow> kernel option" where
  "my_sem_close n s =
     (case locate_sem n s of
        None \<Rightarrow> Some s
      | Some i \<Rightarrow> do {
          let x = sem_at s i;
          (k, ps) \<leftarrow> close_loop (current_process_id s) 0 (allowed_process_count x) (allowed_processes x);
          let s = set_sem i (x\<lparr>allowed_processes := ps, allowed_process_count := k\<rparr>) s;
          if k = 0 then map_option snd (clear_sem n s) else Some s
        })"

definition add_to_queue :: "nat \<Rightarrow> int \<Rightarrow> kernel \<Rightarrow> (int \<times> kernel) option" where
  "add_to_queue i p s =
     (if i \<ge> MAX_SEMS then Some (- 1, s)
      else do {
        (a, s) \<leftarrow> kmalloc s sizeof_node_t;
        if a = 0 then Some (- 1, s)
        else let x = sem_at s i
             in Some (0, set_sem i (x\<lparr>waiting := waiting x @ [(a, p)], queue_size := wrap64 (queue_size x + 1)\<rparr>) s)
      })"

definition remove_from_queue :: "nat \<Rightarrow> kernel \<Rightarrow> (int \<times> kernel) option" where
  "remove_from_queue i s =
     (if i \<ge> MAX_SEMS then Some (- 1, s)
      else case waiting (sem_at s i) of
        [] \<Rightarrow> Some (- 1, s)
      | (a, p) # w \<Rightarrow> do {
          s \<leftarrow> kfree s a;
          let x = sem_at s i;
          let n = sub64 (queue_size x) 1;
          Some (p, set_sem i (x\<lparr>waiting := (if n = 0 then [] else w), queue_size := n\<rparr>) s)
        })"

text \<open>The bound of the loop is the member \<open>queue_size\<close>, which \<open>remove_from_queue\<close> decreases.\<close>

partial_function (option) wake_loop :: "nat \<Rightarrow> nat \<Rightarrow> kernel \<Rightarrow> kernel option" where
  "wake_loop i j s =
     (if j < queue_size (sem_at s i) then do {
        (p, s) \<leftarrow> remove_from_queue i s;
        s \<leftarrow> os_revive_process p s;
        wake_loop i (j + 1) s
      } else Some s)"

definition wake_up_processes :: "nat \<Rightarrow> kernel \<Rightarrow> kernel option" where
  "wake_up_processes i s = wake_loop i 0 s"

text \<open>\<open>leave_region\<close>: the lock becomes 0, then the waiting processes are woken.\<close>

definition leave_region :: "nat \<Rightarrow> kernel \<Rightarrow> kernel option" where
  "leave_region i s = wake_up_processes i (set_sem i ((sem_at s i)\<lparr>is_locked := 0\<rparr>) s)"

definition my_sem_post :: "string \<Rightarrow> kernel \<Rightarrow> (int \<times> kernel) option" where
  "my_sem_post n s =
     (case locate_sem n s of
        None \<Rightarrow> Some (1, s)
      | Some i \<Rightarrow> do { s \<leftarrow> leave_region i s; Some (0, s) })"

section \<open>Opening returns\<close>

text \<open>Every slot has room for one more pid.\<close>

definition sems_ok :: "space_t list \<Rightarrow> bool" where
  "sems_ok sps \<longleftrightarrow> (\<forall>sp\<in>set sps. 0 \<le> allowed_process_count (sem sp) \<and>
     allowed_process_count (sem sp) < int (length (allowed_processes (sem sp))))"

lemma locate_loop_Some: "locate_loop sps n i = Some j \<Longrightarrow> i \<le> j \<and> j - i < length sps"
  by (induction sps n i rule: locate_loop.induct) (fastforce split: if_splits)+

lemma find_available_less: "find_available sps i = Some j \<Longrightarrow> i \<le> j \<and> j < i + length sps"
  by (induction sps i rule: find_available.induct) (force split: if_splits)+

lemma runs_my_sem_open [vcg]:
  assumes "sems_ok (sem_spaces s)" "length n < MAX_IDENTIFIER"
    "\<And>r x. P (r, s\<lparr>sem_spaces := x\<rparr>)"
  shows "runs (my_sem_open v n s) P"
proof (cases "locate_sem n s")
  case None
  then show ?thesis using assms(2,3)
    assms(3) [of _ "sem_spaces s"] by (auto simp: my_sem_open_def runs_def set_sem_def set_sem_status_def Let_def split: option.splits)
next
  case (Some i)
  then have "sem_spaces s ! i \<in> set (sem_spaces s)"
    using locate_loop_Some [of "sem_spaces s" n 0 i] by (simp add: locate_sem_def)
  then show ?thesis using assms(1,3) Some
    by (auto simp: my_sem_open_def runs_def set_sem_def sem_at_def sems_ok_def Let_def)
qed

end
