(* ===== verification/Process.thy ===== *)
theory Process
  imports Semaphore
begin

text \<open>
  Kernel/process.c without the operations that give up the processor (those are in Blocking):
  creating a process with its six allocations and their error paths, and releasing one. The
  contents of the new stack frame are not part of the state, its address is.
\<close>

section \<open>Operations\<close>

definition get_available_pid :: "kernel \<Rightarrow> int \<times> kernel" where
  "get_available_pid s = (to_pid (next_pid s), s\<lparr>next_pid := wrap64 (next_pid s + 1)\<rparr>)"

text \<open>\<open>create_stackframe\<close> pushes twenty registers of eight bytes and returns the new top.\<close>

definition create_stackframe :: "nat \<Rightarrow> nat" where
  "create_stackframe stack_base = sub64 stack_base 160"

definition set_process :: "nat \<Rightarrow> process_t \<Rightarrow> kernel \<Rightarrow> kernel" where
  "set_process p x s = s\<lparr>processes := (processes s)(p := x)\<rparr>"

definition set_block :: "nat \<Rightarrow> mem_block_t \<Rightarrow> kernel \<Rightarrow> kernel" where
  "set_block p x s = s\<lparr>blocks_at := (blocks_at s)(p := x)\<rparr>"

text \<open>
  The name is \<open>None\<close> for a NULL pointer. A \<open>sem_name\<close> of more than four digits does not fit
  the five bytes of the member, which is undefined.
\<close>

definition create_process ::
  "int \<Rightarrow> nat \<Rightarrow> string \<Rightarrow> nat \<Rightarrow> nat \<Rightarrow> int \<Rightarrow> int \<Rightarrow> kernel \<Rightarrow> (nat \<times> kernel) option" where
  "create_process parent fg nm hsize ssize f_r f_w s = do {
     (p, s) \<leftarrow> kmalloc s sizeof_process_t;
     if p = 0 then Some (0, s) else do {
     let parent = (if parent < 0 then pid (processes s p) else parent);
     let s = set_process p ((processes s p)\<lparr>parent_pid := parent\<rparr>) s;
     let (new_pid, s) = get_available_pid s;
     let s = set_process p ((processes s p)\<lparr>pid := new_pid\<rparr>) s;
     (nm_p, s) \<leftarrow> kmalloc s (length nm + 1);
     let s = set_process p ((processes s p)\<lparr>name := nm_p\<rparr>) s;
     if nm_p = 0 then do { s \<leftarrow> kfree s p; Some (0, s) } else do {
     let s = s\<lparr>name_at := (name_at s)(nm_p := nm)\<rparr>;
     (hp, s) \<leftarrow> kmalloc s sizeof_mem_block_t;
     let s = set_process p ((processes s p)\<lparr>process_heap := hp\<rparr>) s;
     if hp = 0 then do { s \<leftarrow> kfree s nm_p; s \<leftarrow> kfree s p; Some (0, s) } else do {
     let hsize = (if hsize < MIN_HEAP_SIZE then MIN_HEAP_SIZE else hsize);
     (hb, s) \<leftarrow> kmalloc s hsize;
     let s = set_block hp ((blocks_at s hp)\<lparr>base := hb\<rparr>) s;
     if hb = 0 then do { s \<leftarrow> kfree s hp; s \<leftarrow> kfree s nm_p; s \<leftarrow> kfree s p; Some (0, s) } else do {
     let s = set_block hp ((blocks_at s hp)\<lparr>block_current := hb, block_size := hsize\<rparr>) s;
     (sp, s) \<leftarrow> kmalloc s sizeof_mem_block_t;
     let s = set_process p ((processes s p)\<lparr>stack := sp\<rparr>) s;
     if sp = 0 then do { s \<leftarrow> kfree s hb; s \<leftarrow> kfree s hp; s \<leftarrow> kfree s nm_p; s \<leftarrow> kfree s p; Some (0, s) } else do {
     let ssize = (if ssize < MIN_STACK_SIZE then MIN_STACK_SIZE else ssize);
     (sb, s) \<leftarrow> kmalloc s ssize;
     let s = set_block sp ((blocks_at s sp)\<lparr>base := sb\<rparr>) s;
     if sb = 0 then do { s \<leftarrow> kfree s sp; s \<leftarrow> kfree s hb; s \<leftarrow> kfree s hp; s \<leftarrow> kfree s nm_p;
                         s \<leftarrow> kfree s p; Some (0, s) } else do {
     let s = set_block sp ((blocks_at s sp)\<lparr>block_size := ssize\<rparr>) s;
     let s = set_process p ((processes s p)\<lparr>foreground := fg\<rparr>) s;
     let s = (if fg \<noteq> 0 then s\<lparr>foreground_pid := new_pid\<rparr> else s);
     let s = set_process p ((processes s p)\<lparr>fr := f_r, fw := f_w\<rparr>) s;
     let s = set_block sp ((blocks_at s sp)\<lparr>block_current := create_stackframe (wrap64 (sb + ssize))\<rparr>) s;
     let s = set_process p ((processes s p)\<lparr>status := READY\<rparr>) s;
     (n, digits) \<leftarrow> uint_to_base (nat (new_pid mod 2 ^ 64)) BASE;
     if n \<ge> MAX_SEM_NAME then None else do {
     let s = set_process p ((processes s p)\<lparr>sem_name := digits\<rparr>) s;
     (r, s) \<leftarrow> my_sem_open 1 digits s;
     Some (p, s)
     } } } } } } } }"

definition add_new_process :: "nat \<Rightarrow> kernel \<Rightarrow> kernel option" where
  "add_new_process p s = do {
     (pcb, s) \<leftarrow> kmalloc s sizeof_pcb_t;
     if pcb = 0 then Some s else do {
     let s = s\<lparr>pcbs := (pcbs s)(pcb := \<lparr>ticks = 0, priority = HIGH_PRIORITY, process = p\<rparr>)\<rparr>;
     let s = (if pid_of s pcb \<noteq> 1 \<and> foreground (process_of s pcb) = 1
              then s\<lparr>foreground_pid := pid_of s pcb\<rparr> else s);
     (node, s) \<leftarrow> kcreate_node s;
     if node = 0 then kfree s pcb else do {
     q \<leftarrow> sched_queue s HIGH_PRIORITY;
     Some ((set_sched_queue HIGH_PRIORITY (q @ [(node, pcb)]) s)\<lparr>processes_qty := wrap64 (processes_qty s + 1)\<rparr>)
     } } }"

definition create_and_insert_process ::
  "int \<Rightarrow> nat \<Rightarrow> string option \<Rightarrow> nat \<Rightarrow> nat \<Rightarrow> nat \<Rightarrow> int \<Rightarrow> int \<Rightarrow> kernel \<Rightarrow> (int \<times> kernel) option" where
  "create_and_insert_process parent fg nm hsize ssize entry_point f_r f_w s =
     (case nm of
        None \<Rightarrow> Some (- 1, s)
      | Some nm \<Rightarrow>
          if entry_point = 0 then Some (- 1, s)
          else do {
            (p, s) \<leftarrow> create_process parent fg nm hsize ssize f_r f_w s;
            if p = 0 then Some (- 1, s)
            else do { s \<leftarrow> add_new_process p s; Some (pid (processes s p), s) }
          })"

definition create_and_insert_process_from_current ::
  "string option \<Rightarrow> nat \<Rightarrow> nat \<Rightarrow> nat \<Rightarrow> nat \<Rightarrow> int \<Rightarrow> int \<Rightarrow> kernel \<Rightarrow> (int \<times> kernel) option" where
  "create_and_insert_process_from_current nm fg hsize ssize entry_point f_r f_w s =
     (if current_pcb s = 0 then None
      else create_and_insert_process (pid_of s (current_pcb s)) fg nm hsize ssize entry_point f_r f_w s)"

text \<open>The first unused pid from \<open>next_pid\<close> on; nothing in the kernel calls it.\<close>

partial_function (option) next_pid_loop :: "int \<Rightarrow> kernel \<Rightarrow> int option" where
  "next_pid_loop candidate s = do {
     e \<leftarrow> get_pcb_entry s candidate;
     if e \<noteq> 0 then next_pid_loop (candidate + 1) s else Some candidate
   }"

definition get_next_pid :: "kernel \<Rightarrow> int option" where
  "get_next_pid s = next_pid_loop (to_pid (next_pid s)) s"

definition free_process :: "nat \<Rightarrow> kernel \<Rightarrow> (int \<times> kernel) option" where
  "free_process pcb s =
     (if pcb = 0 \<or> process (pcbs s pcb) = 0 then Some (- 1, s)
      else do {
        let x = process_of s pcb;
        (r, s) \<leftarrow> clear_sem (sem_name x) s;
        s \<leftarrow> kfree s (name x);
        s \<leftarrow> kfree s (base (blocks_at s (process_heap x)));
        s \<leftarrow> kfree s (process_heap x);
        s \<leftarrow> kfree s (base (blocks_at s (stack x)));
        s \<leftarrow> kfree s (stack x);
        s \<leftarrow> kfree s (process (pcbs s pcb));
        s \<leftarrow> kfree s pcb;
        Some (0, s)
      })"

section \<open>Rules for the pieces of create_process\<close>

text \<open>Each rule hides the new state behind what it keeps, so that the states do not nest.\<close>

lemma runs_set_process:
  assumes "\<And>t. mm t = mm s \<Longrightarrow> next_pid t = next_pid s \<Longrightarrow> sem_spaces t = sem_spaces s \<Longrightarrow>
    processes t p = x \<Longrightarrow> blocks_at t = blocks_at s \<Longrightarrow> runs (f t) P"
  shows "runs (let t = set_process p x s in f t) P"
  using assms by (simp add: set_process_def)

lemma runs_set_block:
  assumes "\<And>t. mm t = mm s \<Longrightarrow> next_pid t = next_pid s \<Longrightarrow> sem_spaces t = sem_spaces s \<Longrightarrow>
    processes t = processes s \<Longrightarrow> blocks_at t p = x \<Longrightarrow>
    (\<And>q. p \<noteq> q \<Longrightarrow> blocks_at t q = blocks_at s q) \<Longrightarrow> runs (f t) P"
  shows "runs (let t = set_block p x s in f t) P"
  using assms by (auto simp: set_block_def)

lemma runs_pid:
  assumes "\<And>t. mm t = mm s \<Longrightarrow> next_pid t = wrap64 (next_pid s + 1) \<Longrightarrow> sem_spaces t = sem_spaces s \<Longrightarrow>
    processes t = processes s \<Longrightarrow> blocks_at t = blocks_at s \<Longrightarrow> runs (f (to_pid (next_pid s)) t) P"
  shows "runs (let (n, t) = get_available_pid s in f n t) P"
  using assms by (simp add: get_available_pid_def)

lemma case_pair [vcg]: "Q a b \<Longrightarrow> (case (a, b) of (x, y) \<Rightarrow> Q x y)"
  by simp

lemma runs_pid_digits:
  assumes "v < 10000" "\<And>d. length d < MAX_IDENTIFIER \<Longrightarrow> runs (f d) P"
  shows "runs (uint_to_base v BASE \<bind> (\<lambda>(n, d). if n \<ge> MAX_SEM_NAME then None else f d)) P"
proof -
  have "length (digits_of 10 v) \<le> 4" using digits_of_length [of 10 4 v] assms(1) by simp
  then show ?thesis
    using assms(2) [of "rev (map digit_char (digits_of 10 v))"]
    by (simp add: runs_def uint_to_base_eq BASE_def MAX_SEM_NAME_def MAX_IDENTIFIER_def)
qed

lemma runs_foreground:
  assumes "\<And>t. mm t = mm s \<Longrightarrow> next_pid t = next_pid s \<Longrightarrow> sem_spaces t = sem_spaces s \<Longrightarrow>
    processes t = processes s \<Longrightarrow> blocks_at t = blocks_at s \<Longrightarrow> runs (f t) P"
  shows "runs (let t = (if b then s\<lparr>foreground_pid := v\<rparr> else s) in f t) P"
  using assms by (simp add: Let_def)

lemma runs_name_at:
  assumes "\<And>t. mm t = mm s \<Longrightarrow> next_pid t = next_pid s \<Longrightarrow> sem_spaces t = sem_spaces s \<Longrightarrow>
    processes t = processes s \<Longrightarrow> blocks_at t = blocks_at s \<Longrightarrow> runs (f t) P"
  shows "runs (let t = s\<lparr>name_at := v\<rparr> in f t) P"
  using assms by (simp add: Let_def)

lemmas create_rules = runs_pid runs_set_process runs_set_block runs_pid_digits runs_foreground runs_name_at vcg

section \<open>Allocation and rollback\<close>

text \<open>The six blocks of a process.\<close>

definition pieces :: "kernel \<Rightarrow> nat \<Rightarrow> nat list" where
  "pieces s p = (let x = processes s p in
     [p, name x, process_heap x, base (blocks_at s (process_heap x)), stack x, base (blocks_at s (stack x))])"

lemma demo_sems: "sems_ok (sem_spaces demo_kernel)"
  by (simp add: demo_kernel_def sems_ok_def demo_sem_def MAX_SEMS_def MAX_PROCESSES_def)


end
