(* ===== verification/Timer.thy ===== *)
theory Timer
  imports Prelude
begin

text \<open>Kernel/time.c: the counter of timer ticks. The waits on it are in Lib.\<close>

definition timer_handler :: "nat \<Rightarrow> nat" where
  "timer_handler ticks = wrap64 (ticks + 1)"

definition ticks_elapsed :: "nat \<Rightarrow> nat" where
  "ticks_elapsed ticks = ticks"

definition seconds_elapsed :: "nat \<Rightarrow> int" where
  "seconds_elapsed ticks = to_int32 (int (ticks div 18))"

end
