(* ===== verification/Scheduler.thy ===== *)
theory Scheduler
  imports Process Timer
begin

text \<open>
  Kernel/basicScheduler.c: choosing the next process from the four priority rings, ageing a
  process whose quantum is used up, the removal and creation queues served at every context
  switch, and the timer interrupt of Kernel/asm/interrupts.asm that drives it. The saved
  stack pointer of a process is the only part of its context in the state.
\<close>

section \<open>Choosing a process\<close>

text \<open>
  One pass of \<open>find_next_process\<close> over the ring \<open>ps\<close> of pcb addresses, from position \<open>k\<close>; \<open>keep\<close>
  is \<open>keep_running\<close>. A ZOMBIE is skipped before the test for the end of the ring, so the pass
  can go round for ever, which is \<open>None\<close>.
\<close>

datatype pick = Pick nat | Pass nat

partial_function (option) scan_ring :: "(nat \<Rightarrow> status_t) \<Rightarrow> nat list \<Rightarrow> nat \<Rightarrow> nat \<Rightarrow> pick option" where
  "scan_ring st ps k keep =
     (if st (ps ! k) = ZOMBIE then scan_ring st ps ((k + 1) mod length ps) keep
      else let keep = (if st (ps ! k) = RUNNING then ps ! k else keep)
           in if st (ps ! k) = READY then Some (Pick k)
              else let k = (k + 1) mod length ps
                   in if k = 0 then Some (Pass keep) else scan_ring st ps k keep)"

definition get_idle_pcb :: "kernel \<Rightarrow> nat option" where
  "get_idle_pcb s = do {
     q \<leftarrow> sched_queue s 0;
     case q of [] \<Rightarrow> None | (a, d) # _ \<Rightarrow> Some d
   }"

text \<open>The priorities from \<open>HIGH_PRIORITY\<close> down to \<open>LOW_PRIORITY\<close>.\<close>

fun find_next_loop :: "nat list \<Rightarrow> nat \<Rightarrow> kernel \<Rightarrow> (nat \<times> kernel) option" where
  "find_next_loop [] keep s =
     (if keep \<noteq> 0 then Some (keep, s) else do { p \<leftarrow> get_idle_pcb s; Some (p, s) })"
| "find_next_loop (i # is) keep s = do {
     q \<leftarrow> sched_queue s i;
     if q = [] then find_next_loop is keep s
     else do {
       r \<leftarrow> scan_ring (status_of s) (map snd q) 0 keep;
       case r of
         Pick k \<Rightarrow> Some (snd (q ! k),
           set_sched_queue i (rotate (k + 1) q) (set_status (snd (q ! k)) RUNNING s))
       | Pass keep \<Rightarrow> find_next_loop is keep s
     }
   }"

definition find_next_process :: "kernel \<Rightarrow> (nat \<times> kernel) option" where
  "find_next_process s = find_next_loop [HIGH_PRIORITY, MEDIUM_PRIORITY, LOW_PRIORITY] 0 s"

section \<open>Queues and priorities\<close>

definition create_queue_array :: "nat \<Rightarrow> kernel \<Rightarrow> (scheduler_queue \<times> kernel) option" where
  "create_queue_array qt s = do {
     (a, s) \<leftarrow> kmalloc s sizeof_scheduler_queue;
     if a = 0 then Some (\<lparr>sq_addr = 0, quantum = 0, queue = \<lparr>qaddr = 0, items = []\<rparr>\<rparr>, s)
     else do {
       (q, s) \<leftarrow> kcreate_queue s;
       if qaddr q = 0 then do {
         s \<leftarrow> kfree s a;
         Some (\<lparr>sq_addr = 0, quantum = 0, queue = \<lparr>qaddr = 0, items = []\<rparr>\<rparr>, s)
       } else Some (\<lparr>sq_addr = a, quantum = qt, queue = q\<rparr>, s)
     }
   }"

text \<open>The loop of \<open>init_scheduler\<close>; the Boolean says whether it completed.\<close>

fun init_queues :: "nat list \<Rightarrow> kernel \<Rightarrow> (bool \<times> kernel) option" where
  "init_queues [] s = Some (True, s)"
| "init_queues (i # is) s = do {
     (q, s) \<leftarrow> create_queue_array 1 s;
     let s = s\<lparr>scheduler := (scheduler s)(i := q)\<rparr>;
     if sq_addr q = 0 then Some (False, s) else init_queues is s
   }"

definition init_scheduler :: "nat \<Rightarrow> kernel \<Rightarrow> kernel option" where
  "init_scheduler qt s = do {
     (ok, s) \<leftarrow> init_queues [0..<QUEUE_QTY] s;
     if \<not> ok then Some s else do {
     (q, s) \<leftarrow> kcreate_queue s;
     let s = s\<lparr>waiting_for_remove := q\<rparr>;
     if qaddr q = 0 then Some s else do {
     (q, s) \<leftarrow> kcreate_queue s;
     Some (s\<lparr>creation_queue := q\<rparr>)
     } } }"

definition change_process_priority :: "int \<Rightarrow> nat \<Rightarrow> kernel \<Rightarrow> kernel option" where
  "change_process_priority p prio s = do {
     pcb \<leftarrow> get_pcb_entry s p;
     if pcb = 0 then Some s else do {
     (r, s) \<leftarrow> remove_from_queue_by_pid (priority (pcbs s pcb)) p s;
     let s = set_priority pcb prio s;
     (node, s) \<leftarrow> kcreate_node s;
     if node = 0 then Some s else do {
     q \<leftarrow> sched_queue s prio;
     Some (set_sched_queue prio (q @ [(node, pcb)]) s)
     } } }"

text \<open>\<open>scheduler[current_pcb->priority]->quantum\<close>.\<close>

definition get_quantum :: "kernel \<Rightarrow> nat option" where
  "get_quantum s =
     (if current_pcb s = 0 then None
      else let i = priority (pcbs s (current_pcb s)) in do {
        q \<leftarrow> sched_queue s i;
        Some (quantum (scheduler s i))
      })"

definition ticks_remaining :: "kernel \<Rightarrow> (nat \<times> kernel) option" where
  "ticks_remaining s = do {
     qt \<leftarrow> get_quantum s;
     if ticks (pcbs s (current_pcb s)) \<ge> qt then Some (0, s)
     else Some (1, set_ticks (current_pcb s) (ticks (pcbs s (current_pcb s)) + 1) s)
   }"

definition stop_current_process :: "kernel \<Rightarrow> kernel option" where
  "stop_current_process s = do {
     qt \<leftarrow> get_quantum s;
     let cur = current_pcb s;
     if ticks (pcbs s cur) \<ge> qt then
       (if priority (pcbs s cur) > LOW_PRIORITY \<and> priority (pcbs s cur) \<le> HIGH_PRIORITY
        then change_process_priority (pid_of s cur) (priority (pcbs s cur) - 1) s
        else Some s)
     else Some (set_ticks cur 0 (set_status cur READY s))
   }"

definition add_process_to_removal_queue :: "int \<Rightarrow> kernel \<Rightarrow> (int \<times> kernel) option" where
  "add_process_to_removal_queue p s = do {
     (node, s) \<leftarrow> kcreate_node s;
     if node = 0 then Some (- 1, s) else do {
     (r, q) \<leftarrow> kinsert (waiting_for_remove s) node (of_pid p);
     let s = s\<lparr>waiting_for_remove := q\<rparr>;
     if r < 0 then Some (- 1, s) else Some (int (length (items q)), s)
     } }"

text \<open>
  The loop of \<open>kill_processes_in_removal_queue\<close> from the pid just taken. The entry is looked up
  again after it has left its ring, so \<open>free_process\<close> gets NULL; a pid that is not in the table
  is a NULL dereference.
\<close>

partial_function (option) kill_loop :: "int \<Rightarrow> kernel \<Rightarrow> kernel option" where
  "kill_loop p s =
     (if p = 0 then Some s
      else do {
        pcb \<leftarrow> get_pcb_entry s p;
        if pcb = 0 then None else do {
        (r, s) \<leftarrow> remove_from_queue_by_pid (priority (pcbs s pcb)) p s;
        pcb' \<leftarrow> get_pcb_entry s p;
        (r', s) \<leftarrow> free_process pcb' s;
        (d, q, s) \<leftarrow> kremove_first (waiting_for_remove s) s;
        kill_loop (to_pid d) (s\<lparr>waiting_for_remove := q\<rparr>)
        } })"

definition kill_processes_in_removal_queue :: "kernel \<Rightarrow> kernel option" where
  "kill_processes_in_removal_queue s = do {
     (d, q, s) \<leftarrow> kremove_first (waiting_for_remove s) s;
     kill_loop (to_pid d) (s\<lparr>waiting_for_remove := q\<rparr>)
   }"

definition add_process_to_creation_queue ::
  "int \<Rightarrow> nat \<Rightarrow> string \<Rightarrow> nat \<Rightarrow> nat \<Rightarrow> int \<Rightarrow> int \<Rightarrow> kernel \<Rightarrow> (int \<times> kernel) option" where
  "add_process_to_creation_queue parent fg nm ssize hsize fd0 fd1 s = do {
     (p, s) \<leftarrow> create_process parent fg nm hsize ssize fd0 fd1 s;
     if p = 0 then Some (- 1, s) else do {
     (node, s) \<leftarrow> kcreate_node s;
     if node = 0 then Some (- 1, s) else do {
     (r, q) \<leftarrow> kinsert (creation_queue s) node p;
     let s = s\<lparr>creation_queue := q\<rparr>;
     if r < 0 then Some (- 1, s) else Some (int (length (items q)), s)
     } } }"

partial_function (option) create_loop :: "nat \<Rightarrow> kernel \<Rightarrow> kernel option" where
  "create_loop p s =
     (if p = 0 then Some s
      else do {
        s \<leftarrow> add_new_process p s;
        (p', q, s) \<leftarrow> kremove_first (creation_queue s) s;
        create_loop p' (s\<lparr>creation_queue := q\<rparr>)
      })"

definition create_processes_in_creation_queue :: "kernel \<Rightarrow> kernel option" where
  "create_processes_in_creation_queue s = do {
     (p, q, s) \<leftarrow> kremove_first (creation_queue s) s;
     create_loop p (s\<lparr>creation_queue := q\<rparr>)
   }"

section \<open>Switching\<close>

text \<open>\<open>pcb->process->stack->current\<close>.\<close>

definition saved_rsp :: "kernel \<Rightarrow> nat \<Rightarrow> nat" where
  "saved_rsp s p = block_current (blocks_at s (stack (process_of s p)))"

definition save_rsp :: "nat \<Rightarrow> nat \<Rightarrow> kernel \<Rightarrow> kernel" where
  "save_rsp p r s = s\<lparr>blocks_at := (blocks_at s)
     (stack (process_of s p) := (blocks_at s (stack (process_of s p)))\<lparr>block_current := r\<rparr>)\<rparr>"

definition switch_context :: "nat \<Rightarrow> kernel \<Rightarrow> (nat \<times> kernel) option" where
  "switch_context current_rsp s =
     (if current_pcb s = 0 then None
      else do {
        let s = save_rsp (current_pcb s) current_rsp s;
        s \<leftarrow> kill_processes_in_removal_queue s;
        s \<leftarrow> create_processes_in_creation_queue s;
        s \<leftarrow> stop_current_process s;
        (new_pcb, s) \<leftarrow> find_next_process s;
        let cur = current_pcb s;
        let s = (if status_of s cur = RUNNING then set_ticks cur 0 (set_status cur READY s) else s);
        let s = set_status new_pcb RUNNING (s\<lparr>current_pcb := new_pcb\<rparr>);
        Some (saved_rsp s new_pcb, s)
      })"

text \<open>
  The timer interrupt: \<open>rsp\<close> is the stack pointer before and after. Whether or not it switches,
  it ends in the dispatcher, which counts the tick; \<open>force_scheduler\<close> raises the same interrupt.
\<close>

definition count_tick :: "kernel \<Rightarrow> kernel" where
  "count_tick s = s\<lparr>timer_ticks := timer_handler (timer_ticks s)\<rparr>"

definition irq00 :: "kernel \<Rightarrow> kernel option" where
  "irq00 s =
     (if scheduler_status s = 0 then Some (count_tick s)
      else do {
        (r, s) \<leftarrow> ticks_remaining s;
        if r \<noteq> 0 then Some (count_tick s)
        else do { (new_rsp, s) \<leftarrow> switch_context (rsp s) s; Some (count_tick (s\<lparr>rsp := new_rsp\<rparr>)) }
      })"

definition finish_current_tick :: "kernel \<Rightarrow> kernel option" where
  "finish_current_tick s = do {
     qt \<leftarrow> get_quantum s;
     irq00 (set_ticks (current_pcb s) qt s)
   }"

definition enable_multitasking :: "int \<Rightarrow> kernel \<Rightarrow> kernel option" where
  "enable_multitasking p s = do {
     pcb \<leftarrow> get_pcb_entry s p;
     if pcb = 0 then None
     else let s = set_status pcb RUNNING (s\<lparr>current_pcb := pcb\<rparr>)
          in Some (s\<lparr>scheduler_status := 1, rsp := saved_rsp s pcb\<rparr>)
   }"

section \<open>What a pass over a ring does\<close>

lemma scan_ready:
  "k \<le> j \<Longrightarrow> j < length ps \<Longrightarrow> st (ps ! j) = READY \<Longrightarrow>
   (\<And>i. k \<le> i \<Longrightarrow> i < j \<Longrightarrow> st (ps ! i) \<noteq> READY) \<Longrightarrow> scan_ring st ps k keep = Some (Pick j)"
proof (induction "j - k" arbitrary: k keep)
  case 0
  then show ?case by (subst scan_ring.simps) (simp add: Let_def)
next
  case (Suc x)
  then have k: "k < j" "(k + 1) mod length ps = k + 1" "st (ps ! k) \<noteq> READY" by auto
  have "scan_ring st ps (k + 1) keep' = Some (Pick j)" for keep'
    using Suc.hyps(1) [of "k + 1" keep'] Suc.hyps(2) Suc.prems k(1) by simp
  then show ?case using k by (subst scan_ring.simps) (simp add: Let_def)
qed

definition last_running :: "(nat \<Rightarrow> status_t) \<Rightarrow> nat list \<Rightarrow> nat \<Rightarrow> nat" where
  "last_running st ps keep = fold (\<lambda>p keep. if st p = RUNNING then p else keep) ps keep"

lemma scan_pass:
  "k < length ps \<Longrightarrow> (\<And>i. k \<le> i \<Longrightarrow> i < length ps \<Longrightarrow> st (ps ! i) \<noteq> READY) \<Longrightarrow>
   st (last ps) \<noteq> ZOMBIE \<Longrightarrow> scan_ring st ps k keep = Some (Pass (last_running st (drop k ps) keep))"
proof (induction "length ps - k" arbitrary: k keep)
  case (Suc x)
  have d: "drop k ps = ps ! k # drop (k + 1) ps" using Suc.prems(1) by (simp add: Cons_nth_drop_Suc)
  show ?case
  proof (cases "k + 1 = length ps")
    case True
    then have "last ps = ps ! k" using Suc.prems(1) last_conv_nth [of ps]
      by (metis add_diff_cancel_right' length_0_conv not_less_zero)
    moreover have "(k + 1) mod length ps = 0" using True by simp
    ultimately show ?thesis using Suc.prems d True
      by (subst scan_ring.simps) (auto simp: Let_def last_running_def)
  next
    case False
    then have k: "k + 1 < length ps" "(k + 1) mod length ps = k + 1" "st (ps ! k) \<noteq> READY"
      using Suc.prems by auto
    have "scan_ring st ps (k + 1) keep' = Some (Pass (last_running st (drop (k + 1) ps) keep'))" for keep'
      using Suc.hyps(1) [of "k + 1" keep'] Suc.hyps(2) Suc.prems k(1) by simp
    then show ?thesis using k d
      by (subst scan_ring.simps) (auto simp: Let_def last_running_def)
  qed
qed simp

definition hangs :: "(nat \<Rightarrow> status_t) \<Rightarrow> nat list \<Rightarrow> bool" where
  "hangs st ps \<longleftrightarrow> ps \<noteq> [] \<and> (\<forall>p\<in>set ps. st p \<noteq> READY) \<and> st (last ps) = ZOMBIE"

lemma scan_hang_aux:
  assumes "scan_ring st ps k keep = Some r"
  shows "\<not> (hangs st ps \<and> k < length ps)"
proof (rule scan_ring.raw_induct [where P = "\<lambda>st ps k keep r. \<not> (hangs st ps \<and> k < length ps)", OF _ assms])
  fix scan :: "(nat \<Rightarrow> status_t) \<Rightarrow> nat list \<Rightarrow> nat \<Rightarrow> nat \<Rightarrow> pick option"
    and st :: "nat \<Rightarrow> status_t" and ps :: "nat list" and k keep :: nat and r :: pick
  assume IH: "\<And>st ps k keep r. scan st ps k keep = Some r \<Longrightarrow> \<not> (hangs st ps \<and> k < length ps)"
    and step: "(if st (ps ! k) = ZOMBIE then scan st ps ((k + 1) mod length ps) keep
      else let keep = if st (ps ! k) = RUNNING then ps ! k else keep
           in if st (ps ! k) = READY then Some (Pick k)
              else let k = (k + 1) mod length ps in if k = 0 then Some (Pass keep) else scan st ps k keep) = Some r"
  show "\<not> (hangs st ps \<and> k < length ps)"
  proof
    assume h: "hangs st ps \<and> k < length ps"
    then have lt: "(k + 1) mod length ps < length ps" by (cases ps) auto
    have nr: "st (ps ! k) \<noteq> READY" using h by (simp add: hangs_def)
    show False
    proof (cases "st (ps ! k) = ZOMBIE")
      case True
      then have "scan st ps ((k + 1) mod length ps) keep = Some r" using step by simp
      then show False using IH h lt by blast
    next
      case False
      have "k + 1 \<noteq> length ps"
      proof
        assume "k + 1 = length ps"
        then have "last ps = ps ! k" using h last_conv_nth [of ps]
          by (metis add_diff_cancel_right' length_0_conv not_less_zero)
        with h False show False by (simp add: hangs_def)
      qed
      then have "(k + 1) mod length ps \<noteq> 0" using h by simp
      then have "scan st ps ((k + 1) mod length ps) (if st (ps ! k) = RUNNING then ps ! k else keep) = Some r"
        using step False nr by (simp add: Let_def)
      then show False using IH h lt by blast
    qed
  qed
qed

lemma scan_hang: "hangs st ps \<Longrightarrow> k < length ps \<Longrightarrow> scan_ring st ps k keep = None"
  using scan_hang_aux [of st ps k keep] by (cases "scan_ring st ps k keep") auto

text \<open>A whole pass, from the current node.\<close>

lemma scan_all:
  assumes "ps \<noteq> []"
  shows "scan_ring st ps 0 keep =
    (if \<exists>p\<in>set ps. st p = READY then Some (Pick (length (takeWhile (\<lambda>p. st p \<noteq> READY) ps)))
     else if st (last ps) = ZOMBIE then None else Some (Pass (last_running st ps keep)))"
proof (cases "\<exists>p\<in>set ps. st p = READY")
  case True
  let ?k = "length (takeWhile (\<lambda>p. st p \<noteq> READY) ps)"
  have "?k < length ps" using True takeWhile_less [of _ ps "\<lambda>p. st p \<noteq> READY"] by auto
  moreover from this have "st (ps ! ?k) = READY" using takeWhile_at by blast
  moreover have "st (ps ! i) \<noteq> READY" if "i < ?k" for i
    using takeWhile_before [OF that] .
  ultimately show ?thesis using True scan_ready [of 0 ?k ps st keep] by simp
next
  case False
  show ?thesis
  proof (cases "st (last ps) = ZOMBIE")
    case True
    then show ?thesis using False assms scan_hang [of st ps 0 keep] by (auto simp: hangs_def)
  next
    case nz: False
    then show ?thesis using False assms scan_pass [of 0 ps st keep] by auto
  qed
qed

section \<open>What the choice does\<close>

text \<open>All four rings have been created.\<close>

definition rings_ok :: "kernel \<Rightarrow> bool" where
  "rings_ok s \<longleftrightarrow> (\<forall>i<QUEUE_QTY. sq_addr (scheduler s i) \<noteq> 0 \<and> qaddr (queue (scheduler s i)) \<noteq> 0)"

abbreviation ring_of :: "kernel \<Rightarrow> nat \<Rightarrow> (nat \<times> nat) list" where
  "ring_of s i \<equiv> items (queue (scheduler s i))"

definition ring_pcbs :: "kernel \<Rightarrow> nat \<Rightarrow> nat list" where
  "ring_pcbs s i = map snd (ring_of s i)"

lemma sched_queue_ok [simp]: "rings_ok s \<Longrightarrow> i < QUEUE_QTY \<Longrightarrow> sched_queue s i = Some (ring_of s i)"
  by (simp add: sched_queue_def rings_ok_def)

definition has_ready :: "kernel \<Rightarrow> nat \<Rightarrow> bool" where
  "has_ready s i \<longleftrightarrow> (\<exists>p\<in>set (ring_pcbs s i). status_of s p = READY)"

text \<open>The state after picking the first READY process of ring \<open>i\<close>.\<close>

definition picked :: "kernel \<Rightarrow> nat \<Rightarrow> nat \<times> kernel" where
  "picked s i =
     (let k = length (takeWhile (\<lambda>p. status_of s p \<noteq> READY) (ring_pcbs s i)); p = ring_pcbs s i ! k
      in (p, set_sched_queue i (rotate (k + 1) (ring_of s i)) (set_status p RUNNING s)))"

definition stuck :: "kernel \<Rightarrow> nat \<Rightarrow> bool" where
  "stuck s i \<longleftrightarrow> ring_pcbs s i \<noteq> [] \<and> status_of s (last (ring_pcbs s i)) = ZOMBIE"

lemma find_next_step:
  assumes "rings_ok s" "i < QUEUE_QTY"
  shows "find_next_loop (i # is) keep s =
    (if has_ready s i then Some (picked s i)
     else if stuck s i then None
     else find_next_loop is (last_running (status_of s) (ring_pcbs s i) keep) s)"
proof (cases "ring_of s i = []")
  case True
  then show ?thesis using assms by (simp add: has_ready_def stuck_def ring_pcbs_def last_running_def)
next
  case False
  let ?k = "length (takeWhile (\<lambda>p. status_of s p \<noteq> READY) (ring_pcbs s i))"
  have ne: "ring_pcbs s i \<noteq> []" using False by (simp add: ring_pcbs_def)
  have k: "snd (ring_of s i ! ?k) = ring_pcbs s i ! ?k" if r: "has_ready s i"
  proof -
    have "?k < length (ring_pcbs s i)"
      using r takeWhile_less [of _ "ring_pcbs s i" "\<lambda>p. status_of s p \<noteq> READY"]
      by (auto simp: has_ready_def)
    then show ?thesis by (simp add: ring_pcbs_def)
  qed
  show ?thesis
    using False assms scan_all [OF ne, of "status_of s" keep] k ne
    by (simp add: has_ready_def stuck_def picked_def Let_def ring_pcbs_def [symmetric])
qed

text \<open>C7: the scheduling decision. With the rings created and an idle process in ring 0,
  \<open>find_next_process\<close> picks the first READY process of the highest non-idle priority that has
  one, marks it RUNNING and makes its successor the current node of its ring; with none it
  keeps the last RUNNING process of the rings, and with none of these either it returns the
  idle process, in both cases without any change. A ring whose last process is a ZOMBIE and
  that has no READY process, nor any ring of higher priority, makes it loop for ever.\<close>

theorem find_next_process_correct:
  assumes "rings_ok s" "ring_of s 0 \<noteq> []"
  shows "find_next_process s =
    (if has_ready s 3 then Some (picked s 3) else if stuck s 3 then None
     else if has_ready s 2 then Some (picked s 2) else if stuck s 2 then None
     else if has_ready s 1 then Some (picked s 1) else if stuck s 1 then None
     else let p = last_running (status_of s) (ring_pcbs s 3 @ ring_pcbs s 2 @ ring_pcbs s 1) 0
          in Some (if p \<noteq> 0 then p else hd (ring_pcbs s 0), s))"
proof -
  have idle: "get_idle_pcb s = Some (hd (ring_pcbs s 0))"
    using assms by (cases "ring_of s 0") (auto simp: get_idle_pcb_def ring_pcbs_def QUEUE_QTY_def)
  show ?thesis
    using assms idle
    by (simp add: find_next_process_def find_next_step priority_defs last_running_def Let_def
        del: find_next_loop.simps(2))
qed

theorem find_next_process_correct_witness:
  "find_next_process demo_kernel = Some (8544,
     set_sched_queue 3 [(8192, 8224), (8512, 8544)] (set_status 8544 RUNNING demo_kernel))"
  using find_next_process_correct [of demo_kernel]
  by (simp add: rings_ok_def demo_defs QUEUE_QTY_def has_ready_def ring_pcbs_def picked_def status_of_def
      process_of_def all_less_four rotate_def)

end
