(* ===== verification/Sched_Safety.thy ===== *)
theory Sched_Safety
  imports Scheduler "HOL-Library.Multiset"
begin

text \<open>
  Safety of the context switch. \<open>sched_inv\<close> says who owns which block of the heap (nodes, pcbs,
  process structures, stacks), that pids are unique, that every process is in the ring of its
  priority, and that only the current process is RUNNING. The lemmas take the parts of
  \<open>switch_context\<close> one by one: each returns, keeps the invariant, and changes no more than it
  should. Ownership is counted with multisets, so that a block freed twice or owned twice
  cannot be hidden.
\<close>

section \<open>The invariant\<close>

definition table :: "kernel \<Rightarrow> nat list" where
  "table s = ring_pcbs s 0 @ ring_pcbs s 1 @ ring_pcbs s 2 @ ring_pcbs s 3"

definition nodes :: "kernel \<Rightarrow> nat multiset" where
  "nodes s = mset (map fst (ring_of s 0)) + mset (map fst (ring_of s 1)) +
     mset (map fst (ring_of s 2)) + mset (map fst (ring_of s 3))"

text \<open>The pcbs the kernel can still reach: the rings, and the current one after its removal.\<close>

definition roster :: "kernel \<Rightarrow> nat list" where
  "roster s = table s @ (if current_pcb s \<in> set (table s) then [] else [current_pcb s])"

definition pcb_own :: "kernel \<Rightarrow> nat \<Rightarrow> nat multiset" where
  "pcb_own s d = {#d, process (pcbs s d), stack (process_of s d)#}"

definition proc_own :: "kernel \<Rightarrow> nat \<Rightarrow> nat multiset" where
  "proc_own s p = {#p, stack (processes s p)#}"

definition new_procs :: "kernel \<Rightarrow> nat list" where
  "new_procs s = map snd (items (creation_queue s))"

definition owned :: "kernel \<Rightarrow> nat multiset" where
  "owned s = nodes s + sum_list (map (pcb_own s) (roster s)) +
     mset (map fst (items (creation_queue s))) + sum_list (map (proc_own s) (new_procs s)) +
     mset (map fst (items (waiting_for_remove s)))"

definition heap_blocks :: "kernel \<Rightarrow> nat multiset" where
  "heap_blocks s = mset_set (fst ` live (mm s))"

definition pids :: "kernel \<Rightarrow> int list" where
  "pids s = map (pid_of s) (roster s) @ map (\<lambda>p. pid (processes s p)) (new_procs s)"

text \<open>\<open>X\<close> and \<open>P\<close> are blocks and pids held outside the state, between two steps.\<close>

definition sched_inv_ext :: "nat multiset \<Rightarrow> int list \<Rightarrow> kernel \<Rightarrow> bool" where
  "sched_inv_ext X P s \<longleftrightarrow> rings_ok s \<and> qaddr (waiting_for_remove s) \<noteq> 0 \<and>
     qaddr (creation_queue s) \<noteq> 0 \<and> heap_inv (mm s) \<and> owned s + X \<subseteq># heap_blocks s \<and>
     distinct (pids s @ P) \<and>
     (\<forall>i<QUEUE_QTY. \<forall>d\<in>set (ring_pcbs s i). priority (pcbs s d) = i) \<and>
     priority (pcbs s (current_pcb s)) < QUEUE_QTY \<and>
     (\<forall>d\<in>set (table s). status_of s d = RUNNING \<longrightarrow> d = current_pcb s) \<and>
     (\<forall>p\<in>set (new_procs s). status (processes s p) = READY)"

abbreviation sched_inv :: "kernel \<Rightarrow> bool" where
  "sched_inv s \<equiv> sched_inv_ext {#} [] s"

section \<open>Basic facts\<close>

lemma live_finite [simp]: "finite (live h)"
proof -
  have "finite (blocks ps)" for ps by (simp add: Mem_Bitmap.blocks_def split: option.splits)
  then show ?thesis by (simp add: live_def)
qed

lemma heap_blocks_0: "heap_inv (mm s) \<Longrightarrow> 0 \<notin># heap_blocks s"
proof
  assume h: "heap_inv (mm s)" and "0 \<in># heap_blocks s"
  then have "0 \<in> fst ` live (mm s)" by (simp add: heap_blocks_def)
  with h show False by (auto simp: live_def heap_inv_def)
qed

lemma heap_blocks_count: "count (heap_blocks s) x \<le> 1"
  by (simp add: heap_blocks_def count_mset_set')

lemma own_once: "A + B \<subseteq># heap_blocks s \<Longrightarrow> x \<in># A \<Longrightarrow> x \<notin># B"
proof
  assume a: "A + B \<subseteq># heap_blocks s" "x \<in># A" "x \<in># B"
  then have "count (A + B) x \<le> 1"
    using heap_blocks_count [of s x] mset_subset_eq_count [OF a(1), of x] by linarith
  moreover have "0 < count A x" "0 < count B x" using a by simp_all
  ultimately show False by simp
qed

lemma table_mem: "d \<in> set (table s) \<longleftrightarrow> (\<exists>i<QUEUE_QTY. d \<in> set (ring_pcbs s i))"
proof -
  have "(i::nat) < 4 \<longleftrightarrow> i = 0 \<or> i = 1 \<or> i = 2 \<or> i = 3" for i by auto
  then show ?thesis by (auto simp: table_def QUEUE_QTY_def)
qed

lemma roster_set: "set (roster s) = insert (current_pcb s) (set (table s))"
  by (auto simp: roster_def)

lemma kfree_owned:
  assumes "heap_inv (mm s)" "add_mset a Y \<subseteq># heap_blocks s"
  shows "\<exists>h. kfree s a = Some (s\<lparr>mm := h\<rparr>) \<and> heap_inv h \<and> Y \<subseteq># heap_blocks (s\<lparr>mm := h\<rparr>)"
proof -
  have "a \<in># heap_blocks s" using assms(2) by (auto dest: mset_subset_eqD)
  then have a: "a \<in> fst ` live (mm s)" by (simp add: heap_blocks_def)
  obtain h where h: "free (mm s) a = Some h" "heap_inv h" "fst ` live h = fst ` live (mm s) - {a}"
    using bitmap.free_owned [OF assms(1) a] by blast
  have "heap_blocks (s\<lparr>mm := h\<rparr>) = heap_blocks s - {#a#}"
    using a by (simp add: heap_blocks_def h(3) mset_set_Diff)
  moreover have "Y \<subseteq># heap_blocks s - {#a#}"
    using assms(2) by (simp add: insert_subset_eq_iff)
  ultimately show ?thesis using h by (intro exI [of _ h]) (simp add: kfree_def)
qed

lemma kmalloc_owned:
  assumes "heap_inv (mm s)" "Y \<subseteq># heap_blocks s"
  shows "\<exists>p h. kmalloc s n = Some (p, s\<lparr>mm := h\<rparr>) \<and> heap_inv h \<and> Y \<subseteq># heap_blocks (s\<lparr>mm := h\<rparr>) \<and>
    (p \<noteq> 0 \<longrightarrow> add_mset p Y \<subseteq># heap_blocks (s\<lparr>mm := h\<rparr>))"
proof -
  obtain p h where h: "malloc (mm s) n = Some (p, h)" "heap_inv h"
    "p = 0 \<Longrightarrow> fst ` live h = fst ` live (mm s)"
    "p \<noteq> 0 \<Longrightarrow> p \<notin> fst ` live (mm s)" "p \<noteq> 0 \<Longrightarrow> fst ` live h = insert p (fst ` live (mm s))"
    using bitmap.malloc_owned [OF assms(1)] by blast
  have k: "kmalloc s n = Some (p, s\<lparr>mm := h\<rparr>)" using h(1) by (simp add: kmalloc_def)
  show ?thesis
  proof (cases "p = 0")
    case True
    then have "heap_blocks (s\<lparr>mm := h\<rparr>) = heap_blocks s" using h(3) by (simp add: heap_blocks_def)
    then show ?thesis using k h(2) assms(2) True by (intro exI [of _ p] exI [of _ h]) simp
  next
    case False
    then have "heap_blocks (s\<lparr>mm := h\<rparr>) = add_mset p (heap_blocks s)"
      using h(4,5) by (simp add: heap_blocks_def)
    then show ?thesis using k h(2) assms(2)
      by (intro exI [of _ p] exI [of _ h]) (auto intro: subset_mset.order_trans)
  qed
qed

section \<open>Looking up and removing an entry\<close>

lemma find_entry_None: "find_entry s p q = None \<longleftrightarrow> (\<forall>e\<in>set q. pid_of s (snd e) \<noteq> p)"
  by (induction s p q rule: find_entry.induct) auto

lemma find_entry_Some:
  "find_entry s p q = Some ((a, d), q') \<Longrightarrow>
   \<exists>xs ys. q = xs @ (a, d) # ys \<and> q' = xs @ ys \<and> pid_of s d = p"
proof (induction s p q arbitrary: q' rule: find_entry.induct)
  case (2 s p b e q)
  show ?case
  proof (cases "pid_of s e = p")
    case True
    with 2 show ?thesis by (intro exI [of _ "[]"] exI [of _ q]) auto
  next
    case False
    with 2(2) obtain q1 where q1: "find_entry s p q = Some ((a, d), q1)" "q' = (b, e) # q1" by auto
    from 2(1) [OF False q1(1)] obtain xs ys where "q = xs @ (a, d) # ys" "q1 = xs @ ys" "pid_of s d = p"
      by blast
    with q1(2) show ?thesis by (intro exI [of _ "(b, e) # xs"] exI [of _ ys]) simp
  qed
qed simp

lemma find_entry_filter:
  "find_entry s p q = Some ((a, d), q') \<Longrightarrow> \<exists>ds. filter (\<lambda>d. pid_of s d = p) (map snd q) = d # ds"
  by (induction s p q arbitrary: q' rule: find_entry.induct) (auto split: if_splits)

lemma get_pcb_loop_eq:
  assumes "rings_ok s" "\<forall>i\<in>set is. i < QUEUE_QTY"
  shows "get_pcb_loop s p is = Some (case filter (\<lambda>d. pid_of s d = p) (concat (map (ring_pcbs s) is)) of
    [] \<Rightarrow> 0 | d # _ \<Rightarrow> d)"
  using assms
proof (induction "is")
  case (Cons i "is")
  show ?case
  proof (cases "find_entry s p (ring_of s i)")
    case None
    then have "filter (\<lambda>d. pid_of s d = p) (ring_pcbs s i) = []"
      by (auto simp: find_entry_None ring_pcbs_def filter_empty_conv)
    with None Cons show ?thesis by simp
  next
    case (Some e)
    obtain a d q' where e: "e = ((a, d), q')" by (metis surj_pair)
    then obtain ds where "filter (\<lambda>d. pid_of s d = p) (ring_pcbs s i) = d # ds"
      using find_entry_filter Some unfolding ring_pcbs_def by blast
    with Some e Cons.prems show ?thesis by simp
  qed
qed simp

lemma get_pcb_eq:
  assumes "rings_ok s"
  shows "get_pcb_entry s p = Some (case filter (\<lambda>d. pid_of s d = p) (table s) of [] \<Rightarrow> 0 | d # _ \<Rightarrow> d)"
proof -
  have u: "[0..<QUEUE_QTY] = [0, 1, 2, 3]" by (simp add: QUEUE_QTY_def upt_rec)
  have t: "concat (map (ring_pcbs s) [0, 1, 2, 3]) = table s" by (simp add: table_def)
  have "get_pcb_loop s p [0, 1, 2, 3] = Some (case filter (\<lambda>d. pid_of s d = p)
      (concat (map (ring_pcbs s) [0, 1, 2, 3])) of [] \<Rightarrow> 0 | d # _ \<Rightarrow> d)"
    by (rule get_pcb_loop_eq [OF assms]) (simp add: QUEUE_QTY_def)
  then show ?thesis unfolding get_pcb_entry_def u t .
qed

lemma get_pcb_none: "rings_ok s \<Longrightarrow> (\<forall>d\<in>set (table s). pid_of s d \<noteq> p) \<Longrightarrow> get_pcb_entry s p = Some 0"
  by (simp add: get_pcb_eq filter_empty_conv)

lemma get_pcb_mem:
  assumes "rings_ok s" "d \<in> set (table s)" "distinct (map (pid_of s) (table s))"
  shows "get_pcb_entry s (pid_of s d) = Some d"
proof -
  let ?f = "filter (\<lambda>e. pid_of s e = pid_of s d) (table s)"
  have "e = d" if "e \<in> set ?f" for e
    using that assms(2,3) by (auto simp: distinct_map inj_on_def)
  moreover have "d \<in> set ?f" using assms(2) by simp
  then obtain e es where f: "?f = e # es" by (metis list.set_cases)
  ultimately have "e = d" by (metis list.set_intros(1))
  then show ?thesis by (simp add: get_pcb_eq [OF assms(1)] f)
qed

section \<open>How the parts of the invariant change\<close>

lemmas inv_defs = table_def nodes_def roster_def new_procs_def ring_pcbs_def

lemma set_queue_simps [simp]:
  "mm (set_sched_queue i q s) = mm s" "processes (set_sched_queue i q s) = processes s"
  "pcbs (set_sched_queue i q s) = pcbs s" "current_pcb (set_sched_queue i q s) = current_pcb s"
  "creation_queue (set_sched_queue i q s) = creation_queue s"
  "waiting_for_remove (set_sched_queue i q s) = waiting_for_remove s"
  "process_of (set_sched_queue i q s) = process_of s" "pid_of (set_sched_queue i q s) = pid_of s"
  "status_of (set_sched_queue i q s) = status_of s" "blocks_at (set_sched_queue i q s) = blocks_at s"
  "rings_ok (set_sched_queue i q s) = rings_ok s"
  "ring_of (set_sched_queue i q s) j = (if j = i then q else ring_of s j)"
  by (auto simp: set_sched_queue_def process_of_def pid_of_def status_of_def rings_ok_def fun_eq_iff)

lemma mm_simps [simp]:
  "process_of (s\<lparr>mm := h\<rparr>) = process_of s" "pid_of (s\<lparr>mm := h\<rparr>) = pid_of s"
  "status_of (s\<lparr>mm := h\<rparr>) = status_of s" "rings_ok (s\<lparr>mm := h\<rparr>) = rings_ok s"
  "table (s\<lparr>mm := h\<rparr>) = table s" "nodes (s\<lparr>mm := h\<rparr>) = nodes s" "roster (s\<lparr>mm := h\<rparr>) = roster s"
  "ring_pcbs (s\<lparr>mm := h\<rparr>) = ring_pcbs s" "pids (s\<lparr>mm := h\<rparr>) = pids s" "owned (s\<lparr>mm := h\<rparr>) = owned s"
  by (simp_all add: process_of_def pid_of_def status_of_def rings_ok_def inv_defs fun_eq_iff pids_def
      owned_def pcb_own_def [abs_def] proc_own_def [abs_def])

lemma below_4: "(i::nat) < QUEUE_QTY \<Longrightarrow> i = 0 \<or> i = 1 \<or> i = 2 \<or> i = 3"
  by (auto simp: QUEUE_QTY_def)

lemma nodes_change:
  "i < QUEUE_QTY \<Longrightarrow> nodes (set_sched_queue i q s) + mset (map fst (ring_of s i)) = nodes s + mset (map fst q)"
  by (drule below_4) (auto simp: nodes_def)

lemma table_change:
  "i < QUEUE_QTY \<Longrightarrow> mset (table (set_sched_queue i q s)) + mset (ring_pcbs s i) = mset (table s) + mset (map snd q)"
  by (drule below_4) (auto simp: table_def ring_pcbs_def)

lemma sum_list_mset: "sum_list (map f xs) = (\<Sum>x\<in>#mset xs. f x)"
  for f :: "'a \<Rightarrow> 'b multiset"
  by (induction xs) auto

lemma roster_mset:
  "distinct (table s) \<Longrightarrow>
   mset (roster s) = mset (table s) + (if current_pcb s \<in># mset (table s) then {#} else {#current_pcb s#})"
  by (simp add: roster_def)

lemma inv_roster_distinct:
  assumes "sched_inv_ext X P s"
  shows "distinct (roster s)"
proof -
  have "mset (roster s) \<subseteq># sum_list (map (pcb_own s) xs)" if "xs = roster s" for xs
  proof -
    have "mset xs \<subseteq># sum_list (map (pcb_own s) xs)"
    proof (induction xs)
      case (Cons x xs)
      have "{#x#} \<subseteq># pcb_own s x" by (simp add: pcb_own_def)
      from mset_subset_eq_mono_add [OF this Cons] show ?case by simp
    qed simp
    with that show ?thesis by simp
  qed
  then have "mset (roster s) \<subseteq># owned s"
    unfolding owned_def by (metis mset_subset_eq_add_left mset_subset_eq_add_right subset_mset.order_trans)
  also have "owned s \<subseteq># heap_blocks s"
    using assms unfolding sched_inv_ext_def by (meson mset_subset_eq_add_left subset_mset.order_trans)
  finally have "count (mset (roster s)) x \<le> 1" for x
    using heap_blocks_count [of s x] by (meson le_trans mset_subset_eq_count)
  then show ?thesis
    by (metis count_mset_0_iff count_mset_gt_0 distinct_count_atmost_1 le_antisym less_one not_le)
qed

lemma inv_table_distinct: "sched_inv_ext X P s \<Longrightarrow> distinct (table s)"
  using inv_roster_distinct [of X P s] by (simp add: roster_def split: if_splits)

lemma inv_table_pids: "sched_inv_ext X P s \<Longrightarrow> distinct (map (pid_of s) (table s))"
  by (auto simp: sched_inv_ext_def pids_def roster_def)

lemma inv_weaken:
  assumes "sched_inv_ext (X + Y) (P @ Q) s"
  shows "sched_inv_ext X P s"
proof -
  have "owned s + X \<subseteq># owned s + (X + Y)" by simp
  also have "\<dots> \<subseteq># heap_blocks s" using assms by (simp add: sched_inv_ext_def)
  finally show ?thesis using assms unfolding sched_inv_ext_def by auto
qed

lemma own_simps [simp]:
  "pcb_own (set_sched_queue i q s) = pcb_own s" "proc_own (set_sched_queue i q s) = proc_own s"
  "pcb_own (s\<lparr>mm := h\<rparr>) = pcb_own s" "proc_own (s\<lparr>mm := h\<rparr>) = proc_own s"
  "new_procs (set_sched_queue i q s) = new_procs s" "new_procs (s\<lparr>mm := h\<rparr>) = new_procs s"
  "set_sched_queue i q (s\<lparr>mm := h\<rparr>) = (set_sched_queue i q s)\<lparr>mm := h\<rparr>"
  "heap_blocks (set_sched_queue i q s) = heap_blocks s"
  by (simp_all add: pcb_own_def proc_own_def new_procs_def fun_eq_iff heap_blocks_def) (simp add: set_sched_queue_def)

lemma map_mset_distinct: "mset xs = mset ys \<Longrightarrow> distinct (map f xs @ zs) = distinct (map f ys @ zs)"
  by (metis mset_append mset_eq_imp_distinct_iff mset_map)

text \<open>
  Taking the entry of \<open>d\<close> out of its ring frees its node; \<open>d\<close> itself stays reachable when it is
  the current pcb, and otherwise becomes the caller's.
\<close>

definition kept_own :: "kernel \<Rightarrow> nat \<Rightarrow> nat multiset" where
  "kept_own s d = (if d = current_pcb s then {#} else pcb_own s d)"

definition kept_pid :: "kernel \<Rightarrow> nat \<Rightarrow> int list" where
  "kept_pid s d = (if d = current_pcb s then [] else [pid_of s d])"

text \<open>What taking a node out of its ring changes.\<close>

lemma without_node:
  assumes inv: "sched_inv_ext X P s" and i: "i < QUEUE_QTY" and q: "ring_of s i = xs @ (a, d) # ys"
    and t: "t = set_sched_queue i (xs @ ys) s"
  shows "set (table t) = set (table s) - {d}" "owned s = add_mset a (owned t + kept_own s d)"
    "distinct (pids t @ P @ kept_pid s d)"
proof -
  have table: "mset (table s) = add_mset d (mset (table t))"
    using table_change [OF i, of "xs @ ys" s] q by (simp add: ring_pcbs_def t)
  have "distinct (d # table t)"
    using table inv_table_distinct [OF inv] mset_eq_imp_distinct_iff [of "d # table t" "table s"] by simp
  then have dt: "distinct (table t)" "d \<notin> set (table t)" by auto
  show st: "set (table t) = set (table s) - {d}"
    using table dt by (metis Diff_insert_absorb set_mset_add_mset_insert set_mset_mset)
  have "d \<in> set (table s)" using table by (metis set_mset_mset union_single_eq_member)
  then have ro: "mset (roster s) = mset (roster t @ (if d = current_pcb s then [] else [d]))"
    using table dt(2) st by (auto simp: roster_def t)
  have "sum_list (map (pcb_own s) (roster s)) = sum_list (map (pcb_own s) (roster t)) + kept_own s d"
    unfolding sum_list_mset ro kept_own_def by simp
  moreover have "nodes s = add_mset a (nodes t)" using nodes_change [OF i, of "xs @ ys" s] q by (simp add: t)
  ultimately show "owned s = add_mset a (owned t + kept_own s d)" unfolding owned_def by (simp add: t)
  have "distinct (map (pid_of s) (roster s) @ map (\<lambda>p. pid (processes s p)) (new_procs s) @ P)"
    using inv by (simp add: sched_inv_ext_def pids_def)
  then have "distinct (map (pid_of s) (roster t @ (if d = current_pcb s then [] else [d])) @
      map (\<lambda>p. pid (processes s p)) (new_procs s) @ P)"
    using map_mset_distinct [OF ro] by blast
  then show "distinct (pids t @ P @ kept_pid s d)" by (auto simp: pids_def kept_pid_def t)
qed

lemma remove_table:
  assumes inv: "sched_inv_ext X P s" and d: "d \<in> set (table s)"
  obtains q' h where "priority (pcbs s d) < QUEUE_QTY"
    "remove_from_queue_by_pid (priority (pcbs s d)) (pid_of s d) s =
       Some (priority (pcbs s d), (set_sched_queue (priority (pcbs s d)) q' s)\<lparr>mm := h\<rparr>)"
    "set (table (set_sched_queue (priority (pcbs s d)) q' s)) = set (table s) - {d}"
    "set q' \<subseteq> set (ring_of s (priority (pcbs s d)))"
    "sched_inv_ext (X + kept_own s d) (P @ kept_pid s d) ((set_sched_queue (priority (pcbs s d)) q' s)\<lparr>mm := h\<rparr>)"
proof -
  let ?i = "priority (pcbs s d)"
  have ok: "rings_ok s" "heap_inv (mm s)" "owned s + X \<subseteq># heap_blocks s" "distinct (pids s @ P)"
    and prio: "\<And>i e. i < QUEUE_QTY \<Longrightarrow> e \<in> set (ring_pcbs s i) \<Longrightarrow> priority (pcbs s e) = i"
    using inv by (auto simp: sched_inv_ext_def)
  obtain j where "j < QUEUE_QTY" "d \<in> set (ring_pcbs s j)" using d by (auto simp: table_mem)
  then have i: "?i < QUEUE_QTY" "d \<in> set (ring_pcbs s ?i)" using prio by auto
  then have "find_entry s (pid_of s d) (ring_of s ?i) \<noteq> None"
    by (auto simp: find_entry_None ring_pcbs_def)
  then obtain a e q' where f: "find_entry s (pid_of s d) (ring_of s ?i) = Some ((a, e), q')" by auto
  then obtain xs ys where q: "ring_of s ?i = xs @ (a, e) # ys" "q' = xs @ ys" "pid_of s e = pid_of s d"
    using find_entry_Some by blast
  have "e \<in> set (table s)" using q(1) i(1) by (auto simp: table_mem ring_pcbs_def)
  then have e: "e = d"
    using inv_table_pids [OF inv] d q(3) by (auto simp: distinct_map inj_on_def)
  let ?s = "set_sched_queue ?i q' s"
  have "ring_of s ?i = xs @ (a, d) # ys" "?s = set_sched_queue ?i (xs @ ys) s" using q e by simp_all
  note w = without_node [OF inv i(1) this]
  have "owned s = add_mset a (owned ?s + kept_own s d)" using w(2) .
  then have Y: "add_mset a (owned ?s + (X + kept_own s d)) \<subseteq># heap_blocks s"
    using ok(3) by (simp add: ac_simps)
  obtain h where h: "kfree s a = Some (s\<lparr>mm := h\<rparr>)" "heap_inv h"
    "owned ?s + (X + kept_own s d) \<subseteq># heap_blocks (s\<lparr>mm := h\<rparr>)"
    using kfree_owned [OF ok(2) Y] by blast
  have rem: "remove_from_queue_by_pid ?i (pid_of s d) s = Some (?i, ?s\<lparr>mm := h\<rparr>)"
    using ok(1) i(1) f h(1) e by (simp add: remove_from_queue_by_pid_def)
  have sub: "set q' \<subseteq> set (ring_of s ?i)" using q by auto
  have pr: "priority (pcbs s e) = j" if "j < QUEUE_QTY" "e \<in> set (ring_pcbs ?s j)" for e j
  proof -
    have "e \<in> set (ring_pcbs s j)" using that(2) sub by (auto simp: ring_pcbs_def split: if_splits)
    then show ?thesis using prio that(1) by blast
  qed
  have run: "\<forall>e\<in>set (table ?s). status_of s e = RUNNING \<longrightarrow> e = current_pcb s"
    using inv w(1) by (auto simp: sched_inv_ext_def)
  have "sched_inv_ext (X + kept_own s d) (P @ kept_pid s d) (?s\<lparr>mm := h\<rparr>)"
    using inv h(2,3) w(3) pr run unfolding sched_inv_ext_def by (simp add: heap_blocks_def)
  with that [OF i(1) rem w(1) sub] show thesis .
qed

section \<open>The removal queue\<close>

text \<open>What the removal of processes does not touch.\<close>

definition same_objects :: "kernel \<Rightarrow> kernel \<Rightarrow> bool" where
  "same_objects s s' \<longleftrightarrow> pcbs s' = pcbs s \<and> processes s' = processes s \<and> blocks_at s' = blocks_at s \<and>
     current_pcb s' = current_pcb s \<and> creation_queue s' = creation_queue s"

lemma same_objects_trans: "same_objects s t \<Longrightarrow> same_objects t u \<Longrightarrow> same_objects s u"
  by (simp add: same_objects_def)

lemma same_objects_pid: "same_objects s t \<Longrightarrow> pid_of t = pid_of s \<and> status_of t = status_of s"
  by (simp add: same_objects_def pid_of_def status_of_def process_of_def fun_eq_iff)

definition removal_pids :: "kernel \<Rightarrow> int list" where
  "removal_pids s = map (\<lambda>(a, d). to_pid d) (items (waiting_for_remove s))"

lemma removal_simps [simp]:
  "table (s\<lparr>waiting_for_remove := q\<rparr>) = table s" "nodes (s\<lparr>waiting_for_remove := q\<rparr>) = nodes s"
  "roster (s\<lparr>waiting_for_remove := q\<rparr>) = roster s" "pids (s\<lparr>waiting_for_remove := q\<rparr>) = pids s"
  "pid_of (s\<lparr>waiting_for_remove := q\<rparr>) = pid_of s" "status_of (s\<lparr>waiting_for_remove := q\<rparr>) = status_of s"
  "process_of (s\<lparr>waiting_for_remove := q\<rparr>) = process_of s"
  "rings_ok (s\<lparr>waiting_for_remove := q\<rparr>) = rings_ok s" "ring_pcbs (s\<lparr>waiting_for_remove := q\<rparr>) = ring_pcbs s"
  "pcb_own (s\<lparr>waiting_for_remove := q\<rparr>) = pcb_own s" "proc_own (s\<lparr>waiting_for_remove := q\<rparr>) = proc_own s"
  "new_procs (s\<lparr>waiting_for_remove := q\<rparr>) = new_procs s"
  "heap_blocks (s\<lparr>waiting_for_remove := q\<rparr>) = heap_blocks s"
  by (simp_all add: inv_defs pids_def pid_of_def status_of_def process_of_def rings_ok_def fun_eq_iff
      pcb_own_def proc_own_def heap_blocks_def)

lemma take_removal:
  assumes inv: "sched_inv_ext X P s" and q: "items (waiting_for_remove s) = (a, d) # rest"
  obtains h where "kremove_first (waiting_for_remove s) s =
      Some (d, (waiting_for_remove s)\<lparr>items := rest\<rparr>, s\<lparr>mm := h\<rparr>)"
    "sched_inv_ext X P (s\<lparr>mm := h, waiting_for_remove := (waiting_for_remove s)\<lparr>items := rest\<rparr>\<rparr>)"
proof -
  let ?q = "(waiting_for_remove s)\<lparr>items := rest\<rparr>"
  have ok: "heap_inv (mm s)" "owned s + X \<subseteq># heap_blocks s" "qaddr (waiting_for_remove s) \<noteq> 0"
    using inv by (auto simp: sched_inv_ext_def)
  have o: "owned s = add_mset a (owned (s\<lparr>waiting_for_remove := ?q\<rparr>))"
    using q by (simp add: owned_def)
  then have "add_mset a (owned (s\<lparr>waiting_for_remove := ?q\<rparr>) + X) \<subseteq># heap_blocks s"
    using ok(2) by simp
  from kfree_owned [OF ok(1) this] obtain h where h: "kfree s a = Some (s\<lparr>mm := h\<rparr>)" "heap_inv h"
    "owned (s\<lparr>waiting_for_remove := ?q\<rparr>) + X \<subseteq># heap_blocks (s\<lparr>mm := h\<rparr>)" by blast
  have u: "s\<lparr>mm := h, waiting_for_remove := ?q\<rparr> = (s\<lparr>waiting_for_remove := ?q\<rparr>)\<lparr>mm := h\<rparr>" by simp
  have "sched_inv_ext X P (s\<lparr>mm := h, waiting_for_remove := ?q\<rparr>)"
    unfolding u using inv h(2,3) unfolding sched_inv_ext_def by (simp add: heap_blocks_def)
  moreover have "kremove_first (waiting_for_remove s) s = Some (d, ?q, s\<lparr>mm := h\<rparr>)"
    using q ok(3) h(1) by (simp add: kremove_first_def)
  ultimately show thesis using that by blast
qed

lemma free_process_0: "free_process 0 s = Some (- 1, s)"
  by (simp add: free_process_def)

lemma to_pid_0 [simp]: "to_pid 0 = 0"
  by (simp add: to_pid_def to_int32_def)

text \<open>One killed process: out of its ring, and nothing but its node released.\<close>

lemma kill_one:
  assumes inv: "sched_inv s" and d: "d \<in> set (table s)" and p: "pid_of s d = p" "p \<noteq> 0"
  obtains s1 where "kill_loop p s = do {
      (x, q, s) \<leftarrow> kremove_first (waiting_for_remove s1) s1;
      kill_loop (to_pid x) (s\<lparr>waiting_for_remove := q\<rparr>) }"
    "sched_inv s1" "same_objects s s1" "set (table s1) = set (table s) - {d}"
    "waiting_for_remove s1 = waiting_for_remove s"
proof -
  obtain q' h where r: "remove_from_queue_by_pid (priority (pcbs s d)) (pid_of s d) s =
       Some (priority (pcbs s d), (set_sched_queue (priority (pcbs s d)) q' s)\<lparr>mm := h\<rparr>)"
    and t: "set (table (set_sched_queue (priority (pcbs s d)) q' s)) = set (table s) - {d}"
    and inv1: "sched_inv_ext ({#} + kept_own s d) ([] @ kept_pid s d) ((set_sched_queue (priority (pcbs s d)) q' s)\<lparr>mm := h\<rparr>)"
    using remove_table [OF inv d] by metis
  let ?s1 = "(set_sched_queue (priority (pcbs s d)) q' s)\<lparr>mm := h\<rparr>"
  have i1: "sched_inv ?s1" using inv_weaken [OF inv1] .
  have dp: "distinct (map (pid_of s) (table s))" using inv_table_pids [OF inv] .
  have ok: "rings_ok s" "rings_ok ?s1" using inv i1 by (auto simp: sched_inv_ext_def)
  have g: "get_pcb_entry s p = Some d" using get_pcb_mem [OF ok(1) d dp] p by simp
  have "\<forall>e\<in>set (table ?s1). pid_of ?s1 e \<noteq> p"
    using t dp d p by (auto simp: distinct_map inj_on_def)
  then have g': "get_pcb_entry ?s1 p = Some 0" using get_pcb_none [OF ok(2)] by blast
  have "owned s \<subseteq># heap_blocks s" "heap_inv (mm s)" using inv by (auto simp: sched_inv_ext_def)
  moreover have "d \<in># owned s"
    using d by (auto simp: owned_def roster_set sum_list_mset pcb_own_def)
  ultimately have "d \<noteq> 0" using heap_blocks_0 [of s] by (metis mset_subset_eqD)
  then have "kill_loop p s = do {
      (x, q, s) \<leftarrow> kremove_first (waiting_for_remove ?s1) ?s1;
      kill_loop (to_pid x) (s\<lparr>waiting_for_remove := q\<rparr>) }"
    using p g r g' by (subst kill_loop.simps) (simp add: free_process_0)
  then show thesis
    by (rule that) (use i1 t in \<open>simp_all add: same_objects_def set_sched_queue_def\<close>)
qed

lemma image_minus_one: "B \<subseteq> f ` T \<Longrightarrow> f d \<notin> B \<Longrightarrow> B \<subseteq> f ` (T - {d})"
  by blast

lemma kill_loop_ok:
  assumes "sched_inv s" "p \<noteq> 0" "distinct (p # removal_pids s)" "0 \<notin> set (removal_pids s)"
    and "set (p # removal_pids s) \<subseteq> pid_of s ` set (table s)"
  shows "\<exists>s'. kill_loop p s = Some s' \<and> sched_inv s' \<and> same_objects s s' \<and> items (waiting_for_remove s') = [] \<and>
    set (table s') = {d \<in> set (table s). pid_of s d \<notin> set (p # removal_pids s)}"
  using assms
proof (induction "items (waiting_for_remove s)" arbitrary: s p)
  case Nil
  obtain d where d: "d \<in> set (table s)" "pid_of s d = p" using Nil.prems(5) by auto
  obtain s1 where s1: "kill_loop p s = do {
      (x, q, s) \<leftarrow> kremove_first (waiting_for_remove s1) s1;
      kill_loop (to_pid x) (s\<lparr>waiting_for_remove := q\<rparr>) }"
    "sched_inv s1" "same_objects s s1" "set (table s1) = set (table s) - {d}"
    "waiting_for_remove s1 = waiting_for_remove s"
    using kill_one [OF Nil.prems(1) d Nil.prems(2)] by blast
  have "kremove_first (waiting_for_remove s1) s1 = Some (0, waiting_for_remove s1, s1)"
    using s1(2,5) Nil.hyps by (simp add: kremove_first_def sched_inv_ext_def)
  then have "kill_loop p s = Some s1" unfolding s1(1) by (simp add: kill_loop.simps)
  moreover have "set (table s) - {d} = {e \<in> set (table s). pid_of s e \<notin> set (p # removal_pids s)}"
    using d inv_table_pids [OF Nil.prems(1)] Nil.hyps
    by (auto simp: removal_pids_def distinct_map inj_on_def)
  ultimately show ?case using s1 Nil.hyps by auto
next
  case (Cons e rest)
  obtain a x where e: "e = (a, x)" by (cases e)
  obtain d where d: "d \<in> set (table s)" "pid_of s d = p" using Cons.prems(5) by auto
  obtain s1 where s1: "kill_loop p s = do {
      (x, q, s) \<leftarrow> kremove_first (waiting_for_remove s1) s1;
      kill_loop (to_pid x) (s\<lparr>waiting_for_remove := q\<rparr>) }"
    "sched_inv s1" "same_objects s s1" "set (table s1) = set (table s) - {d}"
    "waiting_for_remove s1 = waiting_for_remove s"
    using kill_one [OF Cons.prems(1) d Cons.prems(2)] by blast
  have q: "items (waiting_for_remove s1) = (a, x) # rest" using Cons.hyps(2) e s1(5) by simp
  let ?q = "(waiting_for_remove s1)\<lparr>items := rest\<rparr>"
  obtain h where h: "kremove_first (waiting_for_remove s1) s1 = Some (x, ?q, s1\<lparr>mm := h\<rparr>)"
    "sched_inv (s1\<lparr>mm := h, waiting_for_remove := ?q\<rparr>)"
    using take_removal [OF s1(2) q] by blast
  let ?s2 = "s1\<lparr>mm := h, waiting_for_remove := ?q\<rparr>"
  have rp: "removal_pids s = to_pid x # removal_pids ?s2"
    using Cons.hyps(2) e by (simp add: removal_pids_def flip: Cons.hyps(2))
  have same: "same_objects s ?s2" using s1(3) by (simp add: same_objects_def)
  have pid: "pid_of ?s2 = pid_of s" using same_objects_pid [OF same] by simp
  have tab: "set (table ?s2) = set (table s) - {d}" using s1(4) by simp
  have inj: "inj_on (pid_of s) (set (table s))" using inv_table_pids [OF Cons.prems(1)] by (simp add: distinct_map)
  have "set (to_pid x # removal_pids ?s2) \<subseteq> pid_of s ` (set (table s) - {d})"
    by (rule image_minus_one) (use Cons.prems(3,5) d rp in auto)
  then have sub: "set (to_pid x # removal_pids ?s2) \<subseteq> pid_of ?s2 ` set (table ?s2)" unfolding pid tab .
  have "\<exists>s'. kill_loop (to_pid x) ?s2 = Some s' \<and> sched_inv s' \<and> same_objects ?s2 s' \<and>
      items (waiting_for_remove s') = [] \<and>
      set (table s') = {d \<in> set (table ?s2). pid_of ?s2 d \<notin> set (to_pid x # removal_pids ?s2)}"
    by (rule Cons.hyps(1)) (use h(2) Cons.prems rp sub in auto)
  then obtain s' where s': "kill_loop (to_pid x) ?s2 = Some s'" "sched_inv s'" "same_objects ?s2 s'"
    "items (waiting_for_remove s') = []"
    "set (table s') = {d \<in> set (table ?s2). pid_of ?s2 d \<notin> set (to_pid x # removal_pids ?s2)}" by blast
  have "kill_loop p s = Some s'" using s1(1) h(1) s'(1) by simp
  moreover have "set (table s') = {d \<in> set (table s). pid_of s d \<notin> set (p # removal_pids s)}"
    unfolding s'(5) rp pid tab using d inj by (auto simp: inj_on_def)
  ultimately show ?case using s'(2,4) same_objects_trans [OF same s'(3)] by blast
qed

lemma kill_processes_ok:
  assumes "sched_inv s" "distinct (removal_pids s)" "0 \<notin> set (removal_pids s)"
    and "set (removal_pids s) \<subseteq> pid_of s ` set (table s)"
  shows "\<exists>s'. kill_processes_in_removal_queue s = Some s' \<and> sched_inv s' \<and> same_objects s s' \<and>
    items (waiting_for_remove s') = [] \<and>
    set (table s') = {d \<in> set (table s). pid_of s d \<notin> set (removal_pids s)}"
proof (cases "items (waiting_for_remove s)")
  case Nil
  then have "kremove_first (waiting_for_remove s) s = Some (0, waiting_for_remove s, s)"
    using assms(1) by (simp add: kremove_first_def sched_inv_ext_def)
  then have "kill_processes_in_removal_queue s = Some s"
    by (simp add: kill_processes_in_removal_queue_def kill_loop.simps)
  then show ?thesis using assms(1) Nil by (simp add: removal_pids_def same_objects_def)
next
  case (Cons e rest)
  obtain a x where e: "e = (a, x)" by (cases e)
  let ?q = "(waiting_for_remove s)\<lparr>items := rest\<rparr>"
  obtain h where h: "kremove_first (waiting_for_remove s) s = Some (x, ?q, s\<lparr>mm := h\<rparr>)"
    "sched_inv (s\<lparr>mm := h, waiting_for_remove := ?q\<rparr>)"
    using take_removal [OF assms(1), of a x rest] Cons e by blast
  let ?s = "s\<lparr>mm := h, waiting_for_remove := ?q\<rparr>"
  have rp: "removal_pids s = to_pid x # removal_pids ?s" using Cons e by (simp add: removal_pids_def)
  have "\<exists>s'. kill_loop (to_pid x) ?s = Some s' \<and> sched_inv s' \<and> same_objects ?s s' \<and>
      items (waiting_for_remove s') = [] \<and>
      set (table s') = {d \<in> set (table ?s). pid_of ?s d \<notin> set (to_pid x # removal_pids ?s)}"
    by (rule kill_loop_ok) (use h(2) assms rp in auto)
  then show ?thesis using h(1) rp by (simp add: kill_processes_in_removal_queue_def same_objects_def)
qed

section \<open>The creation queue\<close>

text \<open>The fields the invariant reads.\<close>

definition same_view :: "kernel \<Rightarrow> kernel \<Rightarrow> bool" where
  "same_view s s' \<longleftrightarrow> mm s' = mm s \<and> scheduler s' = scheduler s \<and> pcbs s' = pcbs s \<and>
     processes s' = processes s \<and> current_pcb s' = current_pcb s \<and>
     creation_queue s' = creation_queue s \<and> waiting_for_remove s' = waiting_for_remove s"

lemma same_view_inv: "same_view s s' \<Longrightarrow> sched_inv_ext X P s' = sched_inv_ext X P s"
proof -
  assume v: "same_view s s'"
  have "process_of s' = process_of s" using v by (simp add: same_view_def process_of_def fun_eq_iff)
  then have "pid_of s' = pid_of s" "status_of s' = status_of s" "pcb_own s' = pcb_own s" "proc_own s' = proc_own s"
    using v by (simp_all add: same_view_def pid_of_def status_of_def pcb_own_def proc_own_def fun_eq_iff)
  moreover have "table s' = table s" "nodes s' = nodes s" "ring_pcbs s' = ring_pcbs s" "rings_ok s' = rings_ok s"
    "heap_blocks s' = heap_blocks s" "new_procs s' = new_procs s"
    using v by (simp_all add: same_view_def inv_defs rings_ok_def heap_blocks_def fun_eq_iff)
  moreover from this have "roster s' = roster s" using v by (simp add: roster_def same_view_def)
  ultimately show ?thesis using v
    by (simp add: sched_inv_ext_def owned_def pids_def same_view_def)
qed

lemma fresh_not_roster:
  assumes "sched_inv_ext (add_mset c X) P s"
  shows "c \<notin> set (roster s)"
proof
  assume c: "c \<in> set (roster s)"
  have "owned s + add_mset c X \<subseteq># heap_blocks s" using assms by (simp add: sched_inv_ext_def)
  then have "c \<notin># owned s" using own_once [of "owned s" "add_mset c X" s c] by auto
  moreover have "c \<in># owned s" using c by (auto simp: owned_def sum_list_mset pcb_own_def)
  ultimately show False by simp
qed

lemma inv_pcb_update:
  assumes "sched_inv_ext X P s" "c \<notin> set (roster s)"
  shows "sched_inv_ext X P (s\<lparr>pcbs := (pcbs s)(c := z)\<rparr>)"
proof -
  let ?s = "s\<lparr>pcbs := (pcbs s)(c := z)\<rparr>"
  have st: "table ?s = table s" "nodes ?s = nodes s" "ring_pcbs ?s = ring_pcbs s" "rings_ok ?s = rings_ok s"
    "heap_blocks ?s = heap_blocks s" "new_procs ?s = new_procs s" "proc_own ?s = proc_own s" "roster ?s = roster s"
    by (simp_all add: inv_defs rings_ok_def heap_blocks_def fun_eq_iff proc_own_def)
  have eq: "process_of ?s d = process_of s d" "pcbs ?s d = pcbs s d" if "d \<in> set (roster s)" for d
    using that assms(2) by (auto simp: process_of_def)
  have own: "map (pcb_own ?s) (roster s) = map (pcb_own s) (roster s)"
    and pid: "map (pid_of ?s) (roster s) = map (pid_of s) (roster s)"
    using eq by (simp_all add: pcb_own_def pid_of_def)
  have mem: "d \<in> set (roster s)" if "i < QUEUE_QTY" "d \<in> set (ring_pcbs s i)" for i d
    using that by (auto simp: roster_set table_mem)
  have cur: "current_pcb s \<in> set (roster s)" by (simp add: roster_set)
  have run: "status_of ?s d = status_of s d" if "d \<in> set (table s)" for d
    using that eq(1) by (simp add: roster_set status_of_def)
  show ?thesis
    using assms(1) eq(2) mem cur run
    by (simp add: sched_inv_ext_def owned_def pids_def st own pid del: fun_upd_apply)
qed

lemma inv_alloc:
  assumes "sched_inv_ext X P s"
  obtains c h where "kmalloc s n = Some (c, s\<lparr>mm := h\<rparr>)" "sched_inv_ext X P (s\<lparr>mm := h\<rparr>)"
    "c \<noteq> 0 \<Longrightarrow> sched_inv_ext (add_mset c X) P (s\<lparr>mm := h\<rparr>)"
proof -
  have ok: "heap_inv (mm s)" "owned s + X \<subseteq># heap_blocks s" using assms by (auto simp: sched_inv_ext_def)
  obtain c h where h: "kmalloc s n = Some (c, s\<lparr>mm := h\<rparr>)" "heap_inv h"
    "owned s + X \<subseteq># heap_blocks (s\<lparr>mm := h\<rparr>)"
    "c \<noteq> 0 \<Longrightarrow> add_mset c (owned s + X) \<subseteq># heap_blocks (s\<lparr>mm := h\<rparr>)"
    using kmalloc_owned [OF ok, of n] by blast
  have "sched_inv_ext Y P (s\<lparr>mm := h\<rparr>)" if "owned s + Y \<subseteq># heap_blocks (s\<lparr>mm := h\<rparr>)" for Y
    using assms h(2) that by (simp add: sched_inv_ext_def)
  from that [OF h(1) this this] h(3,4) show thesis by simp
qed

lemma inv_free:
  assumes "sched_inv_ext (add_mset c X) P s"
  obtains h where "kfree s c = Some (s\<lparr>mm := h\<rparr>)" "sched_inv_ext X P (s\<lparr>mm := h\<rparr>)"
proof -
  have "heap_inv (mm s)" "add_mset c (owned s + X) \<subseteq># heap_blocks s"
    using assms by (auto simp: sched_inv_ext_def)
  from kfree_owned [OF this] obtain h where "kfree s c = Some (s\<lparr>mm := h\<rparr>)" "heap_inv h"
    "owned s + X \<subseteq># heap_blocks (s\<lparr>mm := h\<rparr>)" by blast
  then show thesis using assms by (intro that [of h]) (simp_all add: sched_inv_ext_def)
qed

text \<open>Putting a pcb that is in no ring into ring \<open>i\<close>, under a node that is held outside.\<close>

lemma inv_insert:
  assumes inv: "sched_inv_ext (add_mset a (kept_own s d + X)) (kept_pid s d @ P) s"
    and i: "i < QUEUE_QTY" "priority (pcbs s d) = i" and nt: "d \<notin> set (table s)"
    and st: "d \<noteq> current_pcb s \<Longrightarrow> status_of s d \<noteq> RUNNING"
  shows "sched_inv_ext X P (set_sched_queue i (ring_of s i @ [(a, d)]) s)"
proof -
  let ?s = "set_sched_queue i (ring_of s i @ [(a, d)]) s"
  have nodes: "nodes ?s = add_mset a (nodes s)" using nodes_change [OF i(1), of "ring_of s i @ [(a, d)]" s] by simp
  have table: "mset (table ?s) = add_mset d (mset (table s))"
    using table_change [OF i(1), of "ring_of s i @ [(a, d)]" s] by (simp add: ring_pcbs_def)
  have ts: "set (table ?s) = insert d (set (table s))" using table by (metis set_mset_add_mset_insert set_mset_mset)
  have ro: "mset (roster ?s) = mset (roster s @ (if d = current_pcb s then [] else [d]))"
    using table ts nt by (auto simp: roster_def)
  have own: "owned ?s + X = owned s + add_mset a (kept_own s d + X)"
    unfolding owned_def nodes sum_list_mset own_simps ro kept_own_def by simp
  have dp: "distinct (pids ?s @ P)"
  proof -
    have "distinct (map (pid_of s) (roster s @ (if d = current_pcb s then [] else [d])) @
        map (\<lambda>p. pid (processes s p)) (new_procs s) @ P)"
      using inv by (auto simp: sched_inv_ext_def pids_def kept_pid_def)
    then have "distinct (map (pid_of s) (roster ?s) @ map (\<lambda>p. pid (processes s p)) (new_procs s) @ P)"
      using map_mset_distinct [OF ro] by blast
    then show ?thesis by (simp add: pids_def)
  qed
  have "priority (pcbs s e) = j" if "j < QUEUE_QTY" "e \<in> set (ring_pcbs ?s j)" for e j
  proof (cases "e = d \<and> j = i")
    case False
    then have "e \<in> set (ring_pcbs s j)" using that(2) by (auto simp: ring_pcbs_def split: if_splits)
    then show ?thesis using inv that(1) by (auto simp: sched_inv_ext_def)
  qed (use i in simp)
  moreover have "owned ?s + X \<subseteq># heap_blocks s" unfolding own using inv by (simp only: sched_inv_ext_def)
  ultimately show ?thesis
    using inv dp ts st unfolding sched_inv_ext_def by auto
qed

text \<open>The node \<open>a\<close> of a control block that is in no ring is appended to the ring of its priority.\<close>

lemma append_ok:
  assumes inv: "sched_inv_ext (add_mset a (kept_own t d)) (kept_pid t d) t" and i: "i < QUEUE_QTY" "priority (pcbs t d) = i"
    and d: "d \<notin> set (table t)" "d \<noteq> current_pcb t \<Longrightarrow> status_of t d \<noteq> RUNNING"
    and w: "w = set_sched_queue i (ring_of t i @ [(a, d)]) t"
  shows "sched_inv w" "set (table w) = insert d (set (table t))"
proof -
  show "sched_inv w" unfolding w by (rule inv_insert) (use assms in simp_all)
  have "mset (table w) = add_mset d (mset (table t))"
    using table_change [OF i(1), of "ring_of t i @ [(a, d)]" t] by (simp add: ring_pcbs_def w)
  then show "set (table w) = insert d (set (table t))" by (metis set_mset_add_mset_insert set_mset_mset)
qed

text \<open>What adding processes leaves alone: the processes, their stacks, and the pcbs known so far.\<close>

definition grows :: "kernel \<Rightarrow> kernel \<Rightarrow> bool" where
  "grows s s' \<longleftrightarrow> processes s' = processes s \<and> blocks_at s' = blocks_at s \<and> current_pcb s' = current_pcb s \<and>
     waiting_for_remove s' = waiting_for_remove s \<and> set (table s) \<subseteq> set (table s') \<and>
     (\<forall>d\<in>set (roster s). pcbs s' d = pcbs s d) \<and>
     (\<forall>d\<in>set (table s') - set (table s). status_of s' d = READY)"

lemma grows_refl: "grows s s"
  by (simp add: grows_def)

lemma grows_trans: "grows s t \<Longrightarrow> grows t u \<Longrightarrow> grows s u"
proof -
  assume g: "grows s t" "grows t u"
  have "status_of u d = READY" if d: "d \<in> set (table u)" "d \<notin> set (table s)" for d
  proof (cases "d \<in> set (table t)")
    case True
    then have "status_of t d = READY" "pcbs u d = pcbs t d" "processes u = processes t"
      using g d by (auto simp: grows_def roster_set)
    then show ?thesis by (simp add: status_of_def process_of_def)
  next
    case False
    then show ?thesis using g d by (simp add: grows_def)
  qed
  moreover have "pcbs u d = pcbs s d" if "d \<in> set (roster s)" for d
    using that g by (auto simp: grows_def roster_set)
  ultimately show ?thesis using g by (auto simp: grows_def)
qed

text \<open>The last step of \<open>add_new_process\<close>, when the control block \<open>c\<close> and the node \<open>a\<close> are there.\<close>

lemma insert_new_pcb:
  assumes inv: "sched_inv_ext (add_mset a (add_mset c (proc_own t p))) [pid (processes t p)] t"
    and c: "pcbs t c = \<lparr>ticks = 0, priority = HIGH_PRIORITY, process = p\<rparr>" "c \<notin> set (roster t)"
    and st: "status (processes t p) = READY"
    and w: "w = (set_sched_queue HIGH_PRIORITY (ring_of t HIGH_PRIORITY @ [(a, c)]) t)\<lparr>processes_qty := k\<rparr>"
  shows "sched_inv w" "set (table w) = insert c (set (table t))" "status_of w c = READY"
proof -
  let ?u = "set_sched_queue HIGH_PRIORITY (ring_of t HIGH_PRIORITY @ [(a, c)]) t"
  have own_c: "pcb_own t c = add_mset c (proc_own t p)" "pid_of t c = pid (processes t p)" "status_of t c = READY"
    using st c(1) by (simp_all add: pcb_own_def proc_own_def process_of_def pid_of_def status_of_def)
  have nc: "c \<noteq> current_pcb t" "c \<notin> set (table t)" using c(2) by (auto simp: roster_set)
  have "sched_inv_ext (add_mset a (kept_own t c)) (kept_pid t c) t"
    using inv nc(1) by (simp add: own_c kept_own_def kept_pid_def)
  note u = append_ok [OF this _ _ nc(2) _ refl, of HIGH_PRIORITY]
  have "same_view ?u w" by (simp add: same_view_def w)
  moreover have "sched_inv ?u" by (rule u) (use own_c c(1) in \<open>simp_all add: priority_defs\<close>)
  ultimately show "sched_inv w" using same_view_inv by blast
  have "table w = table ?u" unfolding w by (simp add: table_def ring_pcbs_def)
  moreover have "set (table ?u) = insert c (set (table t))" by (rule u) (use own_c c(1) in \<open>simp_all add: priority_defs\<close>)
  ultimately show "set (table w) = insert c (set (table t))" by simp
  show "status_of w c = READY" using own_c(3) by (simp add: w status_of_def process_of_def)
qed

lemma add_new_process_ok:
  assumes inv: "sched_inv_ext (proc_own s p) [pid (processes s p)] s" and st: "status (processes s p) = READY"
  shows "\<exists>s'. add_new_process p s = Some s' \<and> sched_inv s' \<and> grows s s' \<and> creation_queue s' = creation_queue s"
proof -
  let ?X = "proc_own s p" and ?P = "[pid (processes s p)]"
  have weak: "sched_inv t" if "sched_inv_ext ?X ?P t" for t
    using inv_weaken [of "{#}" ?X "[]" ?P t] that by simp
  obtain c h where m: "kmalloc s sizeof_pcb_t = Some (c, s\<lparr>mm := h\<rparr>)" "sched_inv_ext ?X ?P (s\<lparr>mm := h\<rparr>)"
    and own: "c \<noteq> 0 \<Longrightarrow> sched_inv_ext (add_mset c ?X) ?P (s\<lparr>mm := h\<rparr>)"
    using inv_alloc [OF inv, of sizeof_pcb_t] by metis
  show ?thesis
  proof (cases "c = 0")
    case True
    then have "add_new_process p s = Some (s\<lparr>mm := h\<rparr>)" using m(1) by (simp add: add_new_process_def)
    then show ?thesis using weak [OF m(2)] by (simp add: grows_def)
  next
    case False
    let ?z = "\<lparr>ticks = 0, priority = HIGH_PRIORITY, process = p\<rparr>"
    let ?s2 = "s\<lparr>mm := h\<rparr>\<lparr>pcbs := (pcbs s)(c := ?z)\<rparr>"
    define s3 where "s3 = (if pid_of ?s2 c \<noteq> 1 \<and> foreground (process_of ?s2 c) = 1
      then ?s2\<lparr>foreground_pid := pid_of ?s2 c\<rparr> else ?s2)"
    have fr: "c \<notin> set (roster s)" using fresh_not_roster [OF own [OF False]] by simp
    have "same_view ?s2 s3" by (simp add: same_view_def s3_def)
    moreover have "sched_inv_ext (add_mset c ?X) ?P ?s2" using inv_pcb_update [OF own [OF False], of c] fr by simp
    ultimately have i3: "sched_inv_ext (add_mset c ?X) ?P s3" using same_view_inv by blast
    obtain a h' where n: "kmalloc s3 sizeof_node_t = Some (a, s3\<lparr>mm := h'\<rparr>)"
      "sched_inv_ext (add_mset c ?X) ?P (s3\<lparr>mm := h'\<rparr>)"
      and nown: "a \<noteq> 0 \<Longrightarrow> sched_inv_ext (add_mset a (add_mset c ?X)) ?P (s3\<lparr>mm := h'\<rparr>)"
      using inv_alloc [OF i3, of sizeof_node_t] by metis
    let ?t = "s3\<lparr>mm := h'\<rparr>"
    have "add_new_process p s = do {
        (node, s) \<leftarrow> kcreate_node s3;
        if node = 0 then kfree s c else do {
        q \<leftarrow> sched_queue s HIGH_PRIORITY;
        Some ((set_sched_queue HIGH_PRIORITY (q @ [(node, c)]) s)\<lparr>processes_qty := wrap64 (processes_qty s + 1)\<rparr>)
        } }"
      unfolding add_new_process_def m(1) s3_def using False by (simp add: Let_def)
    then have run: "add_new_process p s = (if a = 0 then kfree ?t c else do {
        q \<leftarrow> sched_queue ?t HIGH_PRIORITY;
        Some ((set_sched_queue HIGH_PRIORITY (q @ [(a, c)]) ?t)\<lparr>processes_qty := wrap64 (processes_qty ?t + 1)\<rparr>) })"
      unfolding kcreate_node_def n(1) by simp
    have pc: "pcbs s3 = (pcbs s)(c := ?z)" "processes s3 = processes s" "blocks_at s3 = blocks_at s"
      "current_pcb s3 = current_pcb s" "waiting_for_remove s3 = waiting_for_remove s"
      "scheduler s3 = scheduler s" "creation_queue s3 = creation_queue s" by (simp_all add: s3_def)
    have tab: "table ?t = table s" using pc(6) by (simp add: table_def ring_pcbs_def)
    show ?thesis
    proof (cases "a = 0")
      case True
      obtain h2 where h2: "kfree ?t c = Some (?t\<lparr>mm := h2\<rparr>)" "sched_inv_ext ?X ?P (?t\<lparr>mm := h2\<rparr>)"
        using inv_free [OF n(2)] by metis
      have "grows s (?t\<lparr>mm := h2\<rparr>)" using fr pc tab by (auto simp: grows_def)
      then show ?thesis using run True h2(1) weak [OF h2(2)] pc(7) by simp
    next
      case na: False
      define w where "w = (set_sched_queue HIGH_PRIORITY (ring_of ?t HIGH_PRIORITY @ [(a, c)]) ?t)
        \<lparr>processes_qty := wrap64 (processes_qty ?t + 1)\<rparr>"
      have "sched_inv_ext (add_mset a (add_mset c (proc_own ?t p))) [pid (processes ?t p)] ?t" "pcbs ?t c = ?z"
        "c \<notin> set (roster ?t)" "status (processes ?t p) = READY"
        using nown [OF na] pc fr st tab by (simp_all add: proc_own_def roster_set)
      note w = insert_new_pcb [OF this w_def, unfolded tab]
      have "rings_ok ?t" using n(2) by (simp add: sched_inv_ext_def)
      then have r: "add_new_process p s = Some w" using run na by (simp add: priority_defs w_def)
      have "grows s w" "creation_queue w = creation_queue s"
        using fr w(2,3) pc by (auto simp: grows_def w_def)
      with r w(1) show ?thesis by blast
    qed
  qed
qed

lemma creation_simps [simp]:
  "table (s\<lparr>creation_queue := q\<rparr>) = table s" "nodes (s\<lparr>creation_queue := q\<rparr>) = nodes s"
  "roster (s\<lparr>creation_queue := q\<rparr>) = roster s" "pid_of (s\<lparr>creation_queue := q\<rparr>) = pid_of s"
  "status_of (s\<lparr>creation_queue := q\<rparr>) = status_of s" "process_of (s\<lparr>creation_queue := q\<rparr>) = process_of s"
  "rings_ok (s\<lparr>creation_queue := q\<rparr>) = rings_ok s" "ring_pcbs (s\<lparr>creation_queue := q\<rparr>) = ring_pcbs s"
  "pcb_own (s\<lparr>creation_queue := q\<rparr>) = pcb_own s" "proc_own (s\<lparr>creation_queue := q\<rparr>) = proc_own s"
  "heap_blocks (s\<lparr>creation_queue := q\<rparr>) = heap_blocks s"
  by (simp_all add: inv_defs pid_of_def status_of_def process_of_def rings_ok_def fun_eq_iff
      pcb_own_def proc_own_def heap_blocks_def)

lemma take_creation:
  assumes inv: "sched_inv s" and q: "items (creation_queue s) = (a, p) # rest"
  obtains h where "kremove_first (creation_queue s) s =
      Some (p, (creation_queue s)\<lparr>items := rest\<rparr>, s\<lparr>mm := h\<rparr>)"
    "sched_inv_ext (proc_own s p) [pid (processes s p)]
       (s\<lparr>mm := h, creation_queue := (creation_queue s)\<lparr>items := rest\<rparr>\<rparr>)" "p \<noteq> 0"
    "status (processes s p) = READY"
proof -
  let ?q = "(creation_queue s)\<lparr>items := rest\<rparr>"
  let ?s = "s\<lparr>creation_queue := ?q\<rparr>"
  have ok: "heap_inv (mm s)" "owned s \<subseteq># heap_blocks s" "qaddr (creation_queue s) \<noteq> 0"
    using inv by (auto simp: sched_inv_ext_def)
  have np: "new_procs s = p # new_procs ?s" using q by (simp add: new_procs_def)
  have o: "owned s = add_mset a (owned ?s + proc_own s p)"
    using q np by (simp add: owned_def)
  then have "p \<in># heap_blocks s" using mset_subset_eqD [OF ok(2), of p] by (simp add: proc_own_def)
  then have "p \<noteq> 0" using heap_blocks_0 [OF ok(1)] by metis
  moreover have "add_mset a (owned ?s + proc_own s p) \<subseteq># heap_blocks s" using o ok(2) by simp
  from kfree_owned [OF ok(1) this] obtain h where h: "kfree s a = Some (s\<lparr>mm := h\<rparr>)" "heap_inv h"
    "owned ?s + proc_own s p \<subseteq># heap_blocks (s\<lparr>mm := h\<rparr>)" by blast
  have u: "s\<lparr>mm := h, creation_queue := ?q\<rparr> = ?s\<lparr>mm := h\<rparr>" by simp
  have "distinct (pids ?s @ [pid (processes s p)])" using inv np by (auto simp: sched_inv_ext_def pids_def)
  then have "sched_inv_ext (proc_own s p) [pid (processes s p)] (s\<lparr>mm := h, creation_queue := ?q\<rparr>)"
    unfolding u using inv h(2,3) np unfolding sched_inv_ext_def by (simp add: heap_blocks_def)
  moreover have "kremove_first (creation_queue s) s = Some (p, ?q, s\<lparr>mm := h\<rparr>)"
    using q ok(3) h(1) by (simp add: kremove_first_def)
  moreover have "status (processes s p) = READY" using inv np by (simp add: sched_inv_ext_def)
  ultimately show thesis using that by blast
qed

lemma create_loop_ok:
  assumes "sched_inv_ext (proc_own s p) [pid (processes s p)] s" "status (processes s p) = READY" "p \<noteq> 0"
  shows "\<exists>s'. create_loop p s = Some s' \<and> sched_inv s' \<and> grows s s' \<and> items (creation_queue s') = []"
  using assms
proof (induction "items (creation_queue s)" arbitrary: s p)
  case Nil
  obtain s1 where s1: "add_new_process p s = Some s1" "sched_inv s1" "grows s s1" "creation_queue s1 = creation_queue s"
    using add_new_process_ok [OF Nil.prems(1,2)] by blast
  have "kremove_first (creation_queue s1) s1 = Some (0, creation_queue s1, s1)"
    using s1(2,4) Nil.hyps by (simp add: kremove_first_def sched_inv_ext_def)
  then have "create_loop p s = Some s1"
    using s1(1) Nil.prems(3) by (subst create_loop.simps) (simp add: create_loop.simps)
  then show ?case using s1 Nil.hyps by auto
next
  case (Cons e rest)
  obtain a x where e: "e = (a, x)" by (cases e)
  obtain s1 where s1: "add_new_process p s = Some s1" "sched_inv s1" "grows s s1" "creation_queue s1 = creation_queue s"
    using add_new_process_ok [OF Cons.prems(1,2)] by blast
  have q: "items (creation_queue s1) = (a, x) # rest" using Cons.hyps(2) e s1(4) by simp
  let ?q = "(creation_queue s1)\<lparr>items := rest\<rparr>"
  obtain h where h: "kremove_first (creation_queue s1) s1 = Some (x, ?q, s1\<lparr>mm := h\<rparr>)"
    "sched_inv_ext (proc_own s1 x) [pid (processes s1 x)] (s1\<lparr>mm := h, creation_queue := ?q\<rparr>)"
    "x \<noteq> 0" "status (processes s1 x) = READY"
    using take_creation [OF s1(2) q] by blast
  let ?s2 = "s1\<lparr>mm := h, creation_queue := ?q\<rparr>"
  have "proc_own s1 x = proc_own ?s2 x" by (simp add: proc_own_def)
  then have "\<exists>s'. create_loop x ?s2 = Some s' \<and> sched_inv s' \<and> grows ?s2 s' \<and> items (creation_queue s') = []"
    using h(2,3,4) by (intro Cons.hyps(1)) auto
  then obtain s' where s': "create_loop x ?s2 = Some s'" "sched_inv s'" "grows ?s2 s'" "items (creation_queue s') = []"
    by blast
  have "create_loop p s = Some s'"
    using s1(1) Cons.prems(3) h(1) s'(1) by (subst create_loop.simps) simp
  moreover have "grows s1 s'" using s'(3) by (simp add: grows_def)
  ultimately show ?case using s'(2,4) grows_trans [OF s1(3)] by blast
qed

lemma create_processes_ok:
  assumes "sched_inv s"
  shows "\<exists>s'. create_processes_in_creation_queue s = Some s' \<and> sched_inv s' \<and> grows s s' \<and>
    items (creation_queue s') = []"
proof (cases "items (creation_queue s)")
  case Nil
  then have "create_processes_in_creation_queue s = Some s"
    using assms by (simp add: create_processes_in_creation_queue_def kremove_first_def create_loop.simps
        sched_inv_ext_def)
  then show ?thesis using assms Nil grows_refl by auto
next
  case (Cons e rest)
  obtain a x where e: "e = (a, x)" by (cases e)
  let ?q = "(creation_queue s)\<lparr>items := rest\<rparr>"
  obtain h where h: "kremove_first (creation_queue s) s = Some (x, ?q, s\<lparr>mm := h\<rparr>)"
    "sched_inv_ext (proc_own s x) [pid (processes s x)] (s\<lparr>mm := h, creation_queue := ?q\<rparr>)"
    "x \<noteq> 0" "status (processes s x) = READY"
    using take_creation [OF assms, of a x rest] Cons e by blast
  let ?s2 = "s\<lparr>mm := h, creation_queue := ?q\<rparr>"
  have "proc_own s x = proc_own ?s2 x" by (simp add: proc_own_def)
  then obtain s' where s': "create_loop x ?s2 = Some s'" "sched_inv s'" "grows ?s2 s'" "items (creation_queue s') = []"
    using h create_loop_ok [of ?s2 x] by auto
  moreover have "grows s s'" using s'(3) by (simp add: grows_def)
  ultimately show ?thesis using h(1) by (simp add: create_processes_in_creation_queue_def)
qed

section \<open>Changing a priority\<close>

lemma inv_set_priority:
  assumes inv: "sched_inv_ext X P s" and d: "d \<notin> set (table s)" and prio: "prio < QUEUE_QTY"
  shows "sched_inv_ext X P (set_priority d prio s)"
proof -
  let ?s = "set_priority d prio s"
  have p: "process (pcbs ?s e) = process (pcbs s e)" for e by (simp add: set_priority_def)
  have pr: "process_of ?s = process_of s" by (simp add: set_priority_def process_of_def fun_eq_iff)
  have st: "table ?s = table s" "nodes ?s = nodes s" "ring_pcbs ?s = ring_pcbs s" "rings_ok ?s = rings_ok s"
    "heap_blocks ?s = heap_blocks s" "new_procs ?s = new_procs s" "proc_own ?s = proc_own s" "roster ?s = roster s"
    by (simp_all add: inv_defs rings_ok_def heap_blocks_def fun_eq_iff proc_own_def set_priority_def)
  have eq: "pcb_own ?s = pcb_own s" "pid_of ?s = pid_of s" "status_of ?s = status_of s"
    using p pr by (simp_all add: pcb_own_def pid_of_def status_of_def fun_eq_iff)
  have f: "mm ?s = mm s" "creation_queue ?s = creation_queue s" "waiting_for_remove ?s = waiting_for_remove s"
    "current_pcb ?s = current_pcb s" "processes ?s = processes s" by (simp_all add: set_priority_def)
  have own: "owned ?s = owned s" "pids ?s = pids s"
    using f by (simp_all add: owned_def pids_def st eq)
  have same: "pcbs ?s e = pcbs s e" if "e \<in> set (table s)" for e
    using that d by (auto simp: set_priority_def)
  have prio': "\<forall>i<QUEUE_QTY. \<forall>e\<in>set (ring_pcbs s i). priority (pcbs ?s e) = i"
  proof (intro allI impI ballI)
    fix i e assume i: "i < QUEUE_QTY" "e \<in> set (ring_pcbs s i)"
    then have "e \<in> set (table s)" by (auto simp: table_mem)
    then have "pcbs ?s e = pcbs s e" by (rule same)
    then show "priority (pcbs ?s e) = i" using inv i by (simp add: sched_inv_ext_def)
  qed
  have cur: "priority (pcbs ?s (current_pcb s)) < QUEUE_QTY"
    using inv prio by (auto simp: sched_inv_ext_def set_priority_def)
  show ?thesis
    using inv prio' cur unfolding sched_inv_ext_def by (simp add: st eq own f)
qed

lemma table_nonzero:
  assumes "sched_inv s" "d \<in> set (table s)"
  shows "d \<noteq> 0"
proof -
  have "owned s \<subseteq># heap_blocks s" "heap_inv (mm s)" using assms(1) by (auto simp: sched_inv_ext_def)
  moreover have "d \<in># owned s" using assms(2) by (auto simp: owned_def roster_set sum_list_mset pcb_own_def)
  ultimately show ?thesis using heap_blocks_0 [of s] by (metis mset_subset_eqD)
qed

text \<open>A control block that has left its ring gets its new priority.\<close>

lemma leave_ring:
  assumes inv: "sched_inv s" and d: "d \<in> set (table s)" and prio: "prio < QUEUE_QTY"
  obtains q' h where "remove_from_queue_by_pid (priority (pcbs s d)) (pid_of s d) s =
       Some (priority (pcbs s d), (set_sched_queue (priority (pcbs s d)) q' s)\<lparr>mm := h\<rparr>)"
    "set (table (set_priority d prio ((set_sched_queue (priority (pcbs s d)) q' s)\<lparr>mm := h\<rparr>))) = set (table s) - {d}"
    "sched_inv_ext (kept_own s d) (kept_pid s d) (set_priority d prio ((set_sched_queue (priority (pcbs s d)) q' s)\<lparr>mm := h\<rparr>))"
proof -
  let ?i = "priority (pcbs s d)"
  obtain q' h where r: "remove_from_queue_by_pid ?i (pid_of s d) s = Some (?i, (set_sched_queue ?i q' s)\<lparr>mm := h\<rparr>)"
    and t: "set (table (set_sched_queue ?i q' s)) = set (table s) - {d}"
    and inv1: "sched_inv_ext ({#} + kept_own s d) ([] @ kept_pid s d) ((set_sched_queue ?i q' s)\<lparr>mm := h\<rparr>)"
    using remove_table [OF inv d] by metis
  let ?s1 = "(set_sched_queue ?i q' s)\<lparr>mm := h\<rparr>"
  have t1: "set (table ?s1) = set (table s) - {d}" using t by simp
  then have "sched_inv_ext (kept_own s d) (kept_pid s d) (set_priority d prio ?s1)"
    using inv1 prio by (intro inv_set_priority) auto
  moreover have "table (set_priority d prio ?s1) = table ?s1" by (simp add: set_priority_def table_def ring_pcbs_def)
  ultimately show thesis using that r t1 by metis
qed

lemma change_process_priority_ok:
  assumes inv: "sched_inv s" and d: "d \<in> set (table s)" and prio: "prio < QUEUE_QTY"
  shows "\<exists>s'. change_process_priority (pid_of s d) prio s = Some s' \<and> sched_inv s' \<and>
    pcbs s' = (pcbs s)(d := (pcbs s d)\<lparr>priority := prio\<rparr>) \<and> processes s' = processes s \<and>
    blocks_at s' = blocks_at s \<and> current_pcb s' = current_pcb s \<and> creation_queue s' = creation_queue s \<and>
    waiting_for_remove s' = waiting_for_remove s \<and>
    (set (table s') = set (table s) \<or> set (table s') = set (table s) - {d})"
proof -
  let ?i = "priority (pcbs s d)"
  obtain q' h where r: "remove_from_queue_by_pid ?i (pid_of s d) s = Some (?i, (set_sched_queue ?i q' s)\<lparr>mm := h\<rparr>)"
    and t: "set (table (set_priority d prio ((set_sched_queue ?i q' s)\<lparr>mm := h\<rparr>))) = set (table s) - {d}"
    and i2: "sched_inv_ext (kept_own s d) (kept_pid s d) (set_priority d prio ((set_sched_queue ?i q' s)\<lparr>mm := h\<rparr>))"
    using leave_ring [OF inv d prio] .
  define s2 where "s2 = set_priority d prio ((set_sched_queue ?i q' s)\<lparr>mm := h\<rparr>)"
  note t = t [folded s2_def] and i2 = i2 [folded s2_def]
  have f: "pcbs s2 = (pcbs s)(d := (pcbs s d)\<lparr>priority := prio\<rparr>)" "processes s2 = processes s"
    "blocks_at s2 = blocks_at s" "current_pcb s2 = current_pcb s" "creation_queue s2 = creation_queue s"
    "waiting_for_remove s2 = waiting_for_remove s" by (simp_all add: s2_def set_priority_def)
  obtain a h2 where n: "kmalloc s2 sizeof_node_t = Some (a, s2\<lparr>mm := h2\<rparr>)"
    "sched_inv_ext (kept_own s d) (kept_pid s d) (s2\<lparr>mm := h2\<rparr>)"
    and nown: "a \<noteq> 0 \<Longrightarrow> sched_inv_ext (add_mset a (kept_own s d)) (kept_pid s d) (s2\<lparr>mm := h2\<rparr>)"
    using inv_alloc [OF i2, of sizeof_node_t] by metis
  have ok: "rings_ok s" "rings_ok s2" using inv i2 by (auto simp: sched_inv_ext_def)
  let ?t = "s2\<lparr>mm := h2\<rparr>"
  define w where "w = set_sched_queue prio (ring_of ?t prio @ [(a, d)]) ?t"
  have run: "change_process_priority (pid_of s d) prio s = (if a = 0 then Some ?t else Some w)"
    using get_pcb_mem [OF ok(1) d inv_table_pids [OF inv]] table_nonzero [OF inv d] r n(1) ok(2) prio
    by (simp add: change_process_priority_def kcreate_node_def w_def flip: s2_def)
  show ?thesis
  proof (cases "a = 0")
    case True
    have "sched_inv ?t" using inv_weaken [of "{#}" "kept_own s d" "[]" "kept_pid s d"] n(2) by simp
    then show ?thesis using run True f t by simp
  next
    case False
    have k: "kept_own ?t d = kept_own s d" "kept_pid ?t d = kept_pid s d" "status_of ?t d = status_of s d"
      using f by (auto simp: kept_own_def kept_pid_def pcb_own_def process_of_def pid_of_def status_of_def proc_own_def)
    have st: "d \<noteq> current_pcb s \<Longrightarrow> status_of s d \<noteq> RUNNING" using inv d by (auto simp: sched_inv_ext_def)
    have "sched_inv w" "set (table w) = insert d (set (table ?t))"
      by (rule append_ok [OF _ prio _ _ _ w_def]; use nown [OF False] k st f t in simp)+
    then show ?thesis using run False f t d by (auto simp: w_def)
  qed
qed

section \<open>Statuses and the current process\<close>

text \<open>The invariant without its last scheduling clause, which the switch breaks for a moment.\<close>

definition core :: "kernel \<Rightarrow> bool" where
  "core s \<longleftrightarrow> rings_ok s \<and> qaddr (waiting_for_remove s) \<noteq> 0 \<and>
     qaddr (creation_queue s) \<noteq> 0 \<and> heap_inv (mm s) \<and> owned s \<subseteq># heap_blocks s \<and> distinct (pids s) \<and>
     (\<forall>i<QUEUE_QTY. \<forall>d\<in>set (ring_pcbs s i). priority (pcbs s d) = i) \<and>
     priority (pcbs s (current_pcb s)) < QUEUE_QTY \<and>
     (\<forall>p\<in>set (new_procs s). status (processes s p) = READY)"

definition run_ok :: "kernel \<Rightarrow> bool" where
  "run_ok s \<longleftrightarrow> (\<forall>d\<in>set (table s). status_of s d = RUNNING \<longrightarrow> d = current_pcb s)"

lemma inv_split: "sched_inv s \<longleftrightarrow> core s \<and> run_ok s"
  by (auto simp: sched_inv_ext_def core_def run_ok_def)

lemma mset_map_own:
  "(\<And>x. f x \<in># g x) \<Longrightarrow> mset (map f xs) \<subseteq># sum_list (map g xs)"
proof (induction xs)
  case (Cons x xs)
  have "{#f x#} \<subseteq># g x" using Cons(2) by (simp add: mset_subset_eq_single)
  from mset_subset_eq_mono_add [OF this Cons(1)] Cons(2) show ?case by simp
qed simp

lemma distinct_of_owned:
  assumes "mset xs \<subseteq># owned s" "owned s \<subseteq># heap_blocks s"
  shows "distinct xs"
proof -
  have "count (mset xs) x \<le> 1" for x
    using heap_blocks_count [of s x] assms by (meson le_trans mset_subset_eq_count)
  then show ?thesis
    by (metis count_mset_0_iff count_mset_gt_0 distinct_count_atmost_1 le_antisym less_one not_le)
qed

lemma core_procs_distinct:
  assumes "core s"
  shows "distinct (map (\<lambda>d. process (pcbs s d)) (roster s) @ new_procs s)"
proof -
  have "mset (map (\<lambda>d. process (pcbs s d)) (roster s)) \<subseteq># sum_list (map (pcb_own s) (roster s))"
    by (rule mset_map_own) (simp add: pcb_own_def)
  moreover have "mset (map (\<lambda>p. p) (new_procs s)) \<subseteq># sum_list (map (proc_own s) (new_procs s))"
    by (rule mset_map_own) (simp add: proc_own_def)
  ultimately have "mset (map (\<lambda>d. process (pcbs s d)) (roster s) @ new_procs s) \<subseteq>#
      sum_list (map (pcb_own s) (roster s)) + sum_list (map (proc_own s) (new_procs s))"
    by (simp add: subset_mset.add_mono)
  also have "\<dots> \<subseteq># owned s" unfolding owned_def
    by (simp add: subset_mset.add_increasing subset_mset.add_increasing2 add.assoc add.left_commute
        subset_mset.le_add_same_cancel1)
  finally show ?thesis using assms by (intro distinct_of_owned) (auto simp: core_def)
qed

lemma core_stacks_distinct:
  assumes "core s"
  shows "distinct (map (\<lambda>d. stack (process_of s d)) (roster s))"
proof -
  have "mset (map (\<lambda>d. stack (process_of s d)) (roster s)) \<subseteq># sum_list (map (pcb_own s) (roster s))"
    by (rule mset_map_own) (simp add: pcb_own_def)
  also have "\<dots> \<subseteq># owned s" unfolding owned_def
    by (simp add: add.assoc add.left_commute)
  finally show ?thesis using assms by (intro distinct_of_owned) (auto simp: core_def)
qed

lemma set_status_simps [simp]:
  "mm (set_status d x s) = mm s" "scheduler (set_status d x s) = scheduler s" "pcbs (set_status d x s) = pcbs s"
  "current_pcb (set_status d x s) = current_pcb s" "creation_queue (set_status d x s) = creation_queue s"
  "waiting_for_remove (set_status d x s) = waiting_for_remove s" "blocks_at (set_status d x s) = blocks_at s"
  "pid (processes (set_status d x s) p) = pid (processes s p)"
  "stack (processes (set_status d x s) p) = stack (processes s p)"
  "status (processes (set_status d x s) p) = (if p = process (pcbs s d) then x else status (processes s p))"
  "status_of (set_status d x s) e = (if process (pcbs s e) = process (pcbs s d) then x else status_of s e)"
  by (simp_all add: set_status_def status_of_def process_of_def)

lemma set_status_views [simp]:
  "table (set_status d x s) = table s" "nodes (set_status d x s) = nodes s"
  "ring_pcbs (set_status d x s) = ring_pcbs s" "rings_ok (set_status d x s) = rings_ok s"
  "heap_blocks (set_status d x s) = heap_blocks s" "new_procs (set_status d x s) = new_procs s"
  "roster (set_status d x s) = roster s" "pid_of (set_status d x s) = pid_of s"
  "pcb_own (set_status d x s) = pcb_own s" "proc_own (set_status d x s) = proc_own s"
  "owned (set_status d x s) = owned s" "pids (set_status d x s) = pids s"
  "stack (process_of (set_status d x s) e) = stack (process_of s e)"
proof -
  show v: "table (set_status d x s) = table s" "nodes (set_status d x s) = nodes s"
    "ring_pcbs (set_status d x s) = ring_pcbs s" "rings_ok (set_status d x s) = rings_ok s"
    "heap_blocks (set_status d x s) = heap_blocks s" "new_procs (set_status d x s) = new_procs s"
    "roster (set_status d x s) = roster s" "stack (process_of (set_status d x s) e) = stack (process_of s e)"
    by (simp_all add: inv_defs rings_ok_def heap_blocks_def fun_eq_iff process_of_def)
  show w: "pid_of (set_status d x s) = pid_of s"
    by (simp add: pid_of_def process_of_def fun_eq_iff)
  show o: "pcb_own (set_status d x s) = pcb_own s" "proc_own (set_status d x s) = proc_own s"
    by (simp_all add: pcb_own_def proc_own_def process_of_def fun_eq_iff)
  show "owned (set_status d x s) = owned s" "pids (set_status d x s) = pids s"
    by (simp_all add: owned_def pids_def v w o)
qed

lemma core_set_status:
  assumes "core s" "d \<in> set (roster s)"
  shows "core (set_status d x s)"
proof -
  have "process (pcbs s d) \<notin> set (new_procs s)" using core_procs_distinct [OF assms(1)] assms(2) by auto
  then show ?thesis using assms(1) unfolding core_def by auto
qed

lemma set_ticks_simps [simp]:
  "mm (set_ticks d n s) = mm s" "scheduler (set_ticks d n s) = scheduler s" "processes (set_ticks d n s) = processes s"
  "current_pcb (set_ticks d n s) = current_pcb s" "creation_queue (set_ticks d n s) = creation_queue s"
  "waiting_for_remove (set_ticks d n s) = waiting_for_remove s" "blocks_at (set_ticks d n s) = blocks_at s"
  "process (pcbs (set_ticks d n s) e) = process (pcbs s e)" "priority (pcbs (set_ticks d n s) e) = priority (pcbs s e)"
  "process_of (set_ticks d n s) = process_of s" "pid_of (set_ticks d n s) = pid_of s"
  "status_of (set_ticks d n s) = status_of s" "table (set_ticks d n s) = table s"
  "ring_pcbs (set_ticks d n s) = ring_pcbs s" "roster (set_ticks d n s) = roster s"
  by (simp_all add: set_ticks_def process_of_def pid_of_def status_of_def fun_eq_iff inv_defs)

lemma core_set_ticks [simp]: "core (set_ticks d n s) = core s"
proof -
  have "nodes (set_ticks d n s) = nodes s" "rings_ok (set_ticks d n s) = rings_ok s"
    "heap_blocks (set_ticks d n s) = heap_blocks s" "new_procs (set_ticks d n s) = new_procs s"
    "pcb_own (set_ticks d n s) = pcb_own s" "proc_own (set_ticks d n s) = proc_own s"
    by (simp_all add: nodes_def rings_ok_def heap_blocks_def new_procs_def pcb_own_def proc_own_def fun_eq_iff)
  then show ?thesis by (simp add: core_def owned_def pids_def)
qed

lemma mset_of_rotate: "mset (rotate k xs) = mset xs"
proof (induction k)
  case (Suc k)
  have "mset (rotate1 ys) = mset ys" for ys :: "'a list" by (cases ys) auto
  with Suc show ?case by simp
qed simp

lemma core_rotate:
  assumes "core s" "i < QUEUE_QTY"
  shows "core (set_sched_queue i (rotate k (ring_of s i)) s)"
    "set (table (set_sched_queue i (rotate k (ring_of s i)) s)) = set (table s)"
proof -
  let ?s = "set_sched_queue i (rotate k (ring_of s i)) s"
  have m: "mset (map f (rotate k (ring_of s i))) = mset (map f (ring_of s i))" for f :: "nat \<times> nat \<Rightarrow> nat"
    by (simp add: mset_of_rotate)
  have n: "nodes ?s = nodes s" using nodes_change [OF assms(2), of "rotate k (ring_of s i)" s] m [of fst] by simp
  have t: "mset (table ?s) = mset (table s)"
    using table_change [OF assms(2), of "rotate k (ring_of s i)" s] m [of snd] by (simp add: ring_pcbs_def)
  then show ts: "set (table ?s) = set (table s)" by (metis set_mset_mset)
  have ro: "mset (roster ?s) = mset (roster s)" using t ts by (simp add: roster_def)
  have own: "owned ?s = owned s" unfolding owned_def n sum_list_mset own_simps ro by simp
  have "distinct (map (pid_of s) (roster s) @ map (\<lambda>p. pid (processes s p)) (new_procs s))"
    using assms(1) by (simp add: pids_def core_def)
  then have "distinct (map (pid_of s) (roster ?s) @ map (\<lambda>p. pid (processes s p)) (new_procs s))"
    using map_mset_distinct [OF ro] by blast
  then have "distinct (pids ?s)" by (simp add: pids_def)
  moreover have "set (ring_pcbs ?s j) = set (ring_pcbs s j)" for j by (simp add: ring_pcbs_def)
  ultimately show "core ?s" using assms(1) own unfolding core_def by simp
qed

lemma core_current:
  assumes "core s" "p \<in> set (table s)"
  shows "core (s\<lparr>current_pcb := p\<rparr>)"
proof -
  let ?s = "s\<lparr>current_pcb := p\<rparr>"
  have v: "table ?s = table s" "nodes ?s = nodes s" "ring_pcbs ?s = ring_pcbs s" "rings_ok ?s = rings_ok s"
    "heap_blocks ?s = heap_blocks s" "new_procs ?s = new_procs s" "process_of ?s = process_of s"
    "pcb_own ?s = pcb_own s" "proc_own ?s = proc_own s" "pid_of ?s = pid_of s"
    by (simp_all add: inv_defs rings_ok_def heap_blocks_def fun_eq_iff process_of_def pid_of_def
        pcb_own_def proc_own_def)
  have ro: "roster ?s = table s" using assms(2) v(1) by (simp add: roster_def)
  obtain ys where ys: "roster s = table s @ ys" by (simp add: roster_def)
  have "owned ?s \<subseteq># owned s" unfolding owned_def v ro ys by simp
  moreover have "distinct (pids ?s)" using assms(1) unfolding core_def pids_def v ro ys by auto
  moreover have "priority (pcbs s p) < QUEUE_QTY" using assms by (auto simp: core_def table_mem)
  ultimately show ?thesis using assms(1) unfolding core_def by (auto simp: v)
qed

section \<open>The context switch\<close>

lemma dead_current_lookup:
  assumes "sched_inv s" "current_pcb s \<notin> set (table s)"
  shows "get_pcb_entry s (pid_of s (current_pcb s)) = Some 0"
proof (rule get_pcb_none)
  show "rings_ok s" using assms(1) by (simp add: sched_inv_ext_def)
  have "distinct (map (pid_of s) (table s @ [current_pcb s]))"
    using assms by (auto simp: sched_inv_ext_def pids_def roster_def)
  then have "pid_of s (current_pcb s) \<notin> pid_of s ` set (table s)" by simp
  then show "\<forall>d\<in>set (table s). pid_of s d \<noteq> pid_of s (current_pcb s)" by (metis imageI)
qed

text \<open>What stopping the current process may change.\<close>

definition stopped :: "kernel \<Rightarrow> kernel \<Rightarrow> bool" where
  "stopped s s' \<longleftrightarrow> blocks_at s' = blocks_at s \<and> current_pcb s' = current_pcb s \<and>
     creation_queue s' = creation_queue s \<and> waiting_for_remove s' = waiting_for_remove s \<and>
     (\<forall>d. process (pcbs s' d) = process (pcbs s d)) \<and> (\<forall>p. stack (processes s' p) = stack (processes s p)) \<and>
     (\<forall>d\<in>set (table s'). d \<in> set (table s) \<and> (status_of s' d = status_of s d \<or> status_of s' d = READY)) \<and>
     set (ring_pcbs s 0) \<subseteq> set (ring_pcbs s' 0)"

lemma in_ring_iff:
  "sched_inv s \<Longrightarrow> i < QUEUE_QTY \<Longrightarrow> d \<in> set (ring_pcbs s i) \<longleftrightarrow> d \<in> set (table s) \<and> priority (pcbs s d) = i"
  by (auto simp: sched_inv_ext_def table_mem)

lemma get_quantum_ok: "sched_inv s \<Longrightarrow> current_pcb s \<noteq> 0 \<Longrightarrow>
    get_quantum s = Some (quantum (scheduler s (priority (pcbs s (current_pcb s)))))"
  by (simp add: get_quantum_def sched_inv_ext_def)

lemma current_nonzero: "sched_inv s \<Longrightarrow> current_pcb s \<noteq> 0"
proof -
  assume inv: "sched_inv s"
  then have "owned s \<subseteq># heap_blocks s" "heap_inv (mm s)" by (auto simp: sched_inv_ext_def)
  moreover have "current_pcb s \<in># owned s" by (auto simp: owned_def roster_set sum_list_mset pcb_own_def)
  ultimately show ?thesis using heap_blocks_0 [of s] by (metis mset_subset_eqD)
qed

text \<open>A process other than \<open>c\<close> stays in the ring of the idle processes when \<open>c\<close> is lowered.\<close>

lemma lowered_stopped:
  assumes inv: "sched_inv s" "sched_inv s'" and low: "0 < priority (pcbs s c)"
    and s': "pcbs s' = (pcbs s)(c := (pcbs s c)\<lparr>priority := i\<rparr>)" "processes s' = processes s"
      "blocks_at s' = blocks_at s" "current_pcb s' = current_pcb s" "creation_queue s' = creation_queue s"
      "waiting_for_remove s' = waiting_for_remove s"
      "set (table s') = set (table s) \<or> set (table s') = set (table s) - {c}"
  shows "stopped s s'"
proof -
  have "d \<in> set (ring_pcbs s' 0)" if "d \<in> set (ring_pcbs s 0)" for d
  proof -
    have m: "d \<in> set (table s)" "priority (pcbs s d) = 0"
      using that in_ring_iff [OF inv(1), of 0 d] by (simp_all add: QUEUE_QTY_def)
    then have "d \<noteq> c" using low by auto
    then have "d \<in> set (table s')" "priority (pcbs s' d) = 0" using m s'(1,7) by auto
    then show ?thesis using in_ring_iff [OF inv(2), of 0 d] by (simp add: QUEUE_QTY_def)
  qed
  moreover have "status_of s' = status_of s" using s'(1,2) by (auto simp: status_of_def process_of_def fun_eq_iff)
  ultimately show ?thesis using s' by (auto simp: stopped_def)
qed

lemma stop_current_ok:
  assumes inv: "sched_inv s"
  shows "\<exists>s'. stop_current_process s = Some s' \<and> sched_inv s' \<and> stopped s s'"
proof -
  let ?c = "current_pcb s"
  let ?i = "priority (pcbs s ?c)"
  have q: "get_quantum s = Some (quantum (scheduler s ?i))"
    using get_quantum_ok [OF inv current_nonzero [OF inv]] .
  consider (low) "ticks (pcbs s ?c) \<ge> quantum (scheduler s ?i)" "\<not> (?i > LOW_PRIORITY \<and> ?i \<le> HIGH_PRIORITY)"
    | (dead) "ticks (pcbs s ?c) \<ge> quantum (scheduler s ?i)" "?i > LOW_PRIORITY \<and> ?i \<le> HIGH_PRIORITY" "?c \<notin> set (table s)"
    | (down) "ticks (pcbs s ?c) \<ge> quantum (scheduler s ?i)" "?i > LOW_PRIORITY \<and> ?i \<le> HIGH_PRIORITY" "?c \<in> set (table s)"
    | (rest) "ticks (pcbs s ?c) < quantum (scheduler s ?i)"
    by linarith
  then show ?thesis
  proof cases
    case low
    then have "stop_current_process s = Some s" using q by (auto simp: stop_current_process_def Let_def)
    then show ?thesis using inv by (simp add: stopped_def)
  next
    case dead
    then have "stop_current_process s = Some s"
      using q dead_current_lookup [OF inv] by (simp add: stop_current_process_def change_process_priority_def Let_def)
    then show ?thesis using inv by (simp add: stopped_def)
  next
    case down
    then have lower: "?i - 1 < QUEUE_QTY" "0 < ?i" unfolding priority_defs by linarith+
    have "stop_current_process s = change_process_priority (pid_of s ?c) (?i - 1) s"
      using q down by (simp add: stop_current_process_def Let_def)
    then show ?thesis
      using change_process_priority_ok [OF inv down(3) lower(1)] lowered_stopped [OF inv _ lower(2)] by metis
  next
    case rest
    let ?s = "set_ticks ?c 0 (set_status ?c READY s)"
    have "core ?s" "run_ok ?s"
      using core_set_status [of s ?c] inv by (auto simp: inv_split roster_set run_ok_def)
    moreover have "stop_current_process s = Some ?s" using q rest by (simp add: stop_current_process_def Let_def)
    ultimately show ?thesis by (simp add: inv_split stopped_def)
  qed
qed

lemma last_running_in:
  "last_running st ps k = k \<or> (last_running st ps k \<in> set ps \<and> st (last_running st ps k) = RUNNING)"
proof (induction ps arbitrary: k)
  case (Cons p ps)
  show ?case using Cons.IH [of p] Cons.IH [of k] by (auto simp: last_running_def)
qed (simp add: last_running_def)

text \<open>The choice: the chosen pcb is in the table, and only its status and its ring change.\<close>

lemma find_next_ok:
  assumes inv: "sched_inv s" and nz: "\<forall>d\<in>set (table s). status_of s d \<noteq> ZOMBIE" and idle: "ring_pcbs s 0 \<noteq> []"
  shows "\<exists>p s'. find_next_process s = Some (p, s') \<and> core s' \<and> p \<in> set (table s) \<and> set (table s') = set (table s) \<and>
    pcbs s' = pcbs s \<and> blocks_at s' = blocks_at s \<and> current_pcb s' = current_pcb s \<and>
    creation_queue s' = creation_queue s \<and> waiting_for_remove s' = waiting_for_remove s \<and>
    (processes s' = processes s \<or> processes s' = processes (set_status p RUNNING s))"
proof -
  have c: "core s" "rings_ok s" using inv by (simp_all add: inv_split core_def)
  have ns: "\<not> stuck s i" if "i < QUEUE_QTY" for i
  proof
    assume "stuck s i"
    then have "last (ring_pcbs s i) \<in> set (ring_pcbs s i)" "status_of s (last (ring_pcbs s i)) = ZOMBIE"
      by (auto simp: stuck_def)
    then show False using nz that by (auto simp: table_mem)
  qed
  have pick: "\<exists>p s'. Some (picked s i) = Some (p, s') \<and> core s' \<and> p \<in> set (table s) \<and> set (table s') = set (table s) \<and>
    pcbs s' = pcbs s \<and> blocks_at s' = blocks_at s \<and> current_pcb s' = current_pcb s \<and>
    creation_queue s' = creation_queue s \<and> waiting_for_remove s' = waiting_for_remove s \<and>
    processes s' = processes (set_status p RUNNING s)" if i: "i < QUEUE_QTY" "has_ready s i" for i
  proof -
    let ?k = "length (takeWhile (\<lambda>p. status_of s p \<noteq> READY) (ring_pcbs s i))"
    let ?p = "ring_pcbs s i ! ?k"
    have "?k < length (ring_pcbs s i)"
      using i(2) takeWhile_less [of _ "ring_pcbs s i" "\<lambda>p. status_of s p \<noteq> READY"] by (auto simp: has_ready_def)
    then have p: "?p \<in> set (table s)" using i(1) nth_mem by (auto simp: table_mem)
    define s1 where "s1 = set_status ?p RUNNING s"
    let ?s2 = "set_sched_queue i (rotate (?k + 1) (ring_of s1 i)) s1"
    have "core s1" unfolding s1_def using core_set_status [OF c(1)] p by (simp add: roster_set)
    from core_rotate [OF this i(1), of "?k + 1"]
    have r: "core ?s2" "set (table ?s2) = set (table s)" by (simp_all add: s1_def)
    have "picked s i = (?p, ?s2)" by (simp add: picked_def Let_def s1_def)
    moreover have "pcbs ?s2 = pcbs s" "blocks_at ?s2 = blocks_at s" "current_pcb ?s2 = current_pcb s"
      "creation_queue ?s2 = creation_queue s" "waiting_for_remove ?s2 = waiting_for_remove s"
      "processes ?s2 = processes (set_status ?p RUNNING s)" by (simp_all add: s1_def)
    ultimately show ?thesis using r p by simp
  qed
  have ne: "ring_of s 0 \<noteq> []" using idle by (simp add: ring_pcbs_def)
  let ?l = "last_running (status_of s) (ring_pcbs s 3 @ ring_pcbs s 2 @ ring_pcbs s 1) 0"
  have l: "?l = 0 \<or> ?l \<in> set (table s)"
    using last_running_in [of "status_of s" "ring_pcbs s 3 @ ring_pcbs s 2 @ ring_pcbs s 1" 0]
    by (auto simp: table_def)
  have "hd (ring_pcbs s 0) \<in> set (table s)" using idle by (cases "ring_pcbs s 0") (auto simp: table_def)
  then have p: "(if ?l \<noteq> 0 then ?l else hd (ring_pcbs s 0)) \<in> set (table s)" using l by auto
  have f: "find_next_process s =
    (if has_ready s 3 then Some (picked s 3) else if has_ready s 2 then Some (picked s 2)
     else if has_ready s 1 then Some (picked s 1)
     else Some (if ?l \<noteq> 0 then ?l else hd (ring_pcbs s 0), s))"
    using find_next_process_correct [OF c(2) ne] ns [of 1] ns [of 2] ns [of 3]
    by (simp add: QUEUE_QTY_def Let_def)
  show ?thesis
  proof (cases "has_ready s 3 \<or> has_ready s 2 \<or> has_ready s 1")
    case True
    then show ?thesis
      unfolding f using pick [of 3] pick [of 2] pick [of 1] by (auto simp: QUEUE_QTY_def)
  next
    case False
    then show ?thesis unfolding f using c(1) p by simp
  qed
qed

text \<open>The statuses at the end of the switch, once the pieces are known.\<close>

lemma switch_end:
  assumes inv: "sched_inv s4" and find: "core s5" "p \<in> set (table s4)" "set (table s5) = set (table s4)" "pcbs s5 = pcbs s4"
    "current_pcb s5 = current_pcb s4" "processes s5 = processes s4 \<or> processes s5 = processes (set_status p RUNNING s4)"
    and s6: "s6 = (if status_of s5 (current_pcb s5) = RUNNING
      then set_ticks (current_pcb s5) 0 (set_status (current_pcb s5) READY s5) else s5)"
    and s7: "s7 = set_status p RUNNING (s6\<lparr>current_pcb := p\<rparr>)"
  shows "sched_inv s7" "set (table s7) = set (table s4)" "status_of s7 p = RUNNING" "current_pcb s7 = p"
    "\<And>d. process (pcbs s7 d) = process (pcbs s4 d)" "\<And>q. stack (processes s7 q) = stack (processes s4 q)"
    "blocks_at s7 = blocks_at s5" "creation_queue s7 = creation_queue s5" "waiting_for_remove s7 = waiting_for_remove s5"
proof -
  let ?c = "current_pcb s4"
  have c6: "core s6" using find(1) core_set_status [OF find(1), of ?c] find(5) by (simp add: s6 roster_set)
  have t6: "table s6 = table s5" by (simp add: s6)
  have u: "table (s6\<lparr>current_pcb := p\<rparr>) = table s6" "status_of (s6\<lparr>current_pcb := p\<rparr>) = status_of s6"
    "pcbs (s6\<lparr>current_pcb := p\<rparr>) = pcbs s6"
    by (simp_all add: inv_defs status_of_def process_of_def fun_eq_iff)
  have c7: "core (s6\<lparr>current_pcb := p\<rparr>)" using core_current [OF c6] find(2,3) t6 by simp
  then have core7: "core s7" using core_set_status unfolding s7 by (simp add: roster_set)
  show t7: "set (table s7) = set (table s4)" using find(3) t6 u(1) by (simp add: s7)
  show cur7: "current_pcb s7 = p" by (simp add: s7)
  show "status_of s7 p = RUNNING" by (simp add: s7)
  have pr6: "process (pcbs s6 d) = process (pcbs s4 d)" for d using find(4) by (simp add: s6)
  show pr7: "process (pcbs s7 d) = process (pcbs s4 d)" for d using pr6 by (simp add: s7)
  show "stack (processes s7 q) = stack (processes s4 q)" for q
    using find(6) by (auto simp: s6 s7)
  show "blocks_at s7 = blocks_at s5" "creation_queue s7 = creation_queue s5" "waiting_for_remove s7 = waiting_for_remove s5"
    by (simp_all add: s6 s7)
  have "run_ok s7"
    unfolding run_ok_def
  proof (intro ballI impI)
    fix d assume d: "d \<in> set (table s7)" "status_of s7 d = RUNNING"
    show "d = current_pcb s7"
    proof (cases "process (pcbs s4 d) = process (pcbs s4 p)")
      case True
      have "distinct (map (\<lambda>d. process (pcbs s7 d)) (roster s7))" using core_procs_distinct [OF core7] by simp
      moreover have "d \<in> set (roster s7)" "p \<in> set (roster s7)" using d cur7 by (auto simp: roster_set)
      ultimately have "d = p" using True pr7 by (auto simp: distinct_map inj_on_def)
      then show ?thesis using cur7 by simp
    next
      case False
      then have "status_of s6 d = RUNNING" using d(2) pr6 u by (simp add: s7)
      then have "status_of s5 d = RUNNING \<and> d \<noteq> ?c"
        using find(4,5) by (auto simp: s6 split: if_splits)
      moreover have "status_of s5 d = status_of s4 d"
        using find(4,6) False by (auto simp: status_of_def process_of_def set_status_def)
      moreover have "d \<in> set (table s4)" using d(1) t7 by simp
      ultimately show ?thesis using inv by (auto simp: sched_inv_ext_def)
    qed
  qed
  with core7 show "sched_inv s7" by (simp add: inv_split)
qed

lemma save_rsp_view:
  assumes "s1 = save_rsp c r0 s"
  shows "same_view s s1" "table s1 = table s" "pid_of s1 = pid_of s" "removal_pids s1 = removal_pids s"
    "status_of s1 = status_of s" "pcbs s1 = pcbs s" "processes s1 = processes s" "current_pcb s1 = current_pcb s"
  by (simp_all add: same_view_def assms save_rsp_def inv_defs pid_of_def status_of_def process_of_def
      removal_pids_def fun_eq_iff)

text \<open>A process of the table that is not being removed is in the table after both queues have
  been served, with its control block.\<close>

lemma queues_keep:
  assumes g: "grows s2 s3" and t: "set (table s2) = {d \<in> set (table s). pid_of s d \<notin> set (removal_pids s)}"
    and same: "pcbs s2 = pcbs s" "processes s2 = processes s"
    and nz: "\<forall>d\<in>set (table s). status_of s d \<noteq> ZOMBIE"
  shows "\<And>d. d \<in> set (table s) \<Longrightarrow> pid_of s d \<notin> set (removal_pids s) \<Longrightarrow> d \<in> set (table s3) \<and> pcbs s3 d = pcbs s d"
    "\<And>d. d \<in> set (table s3) \<Longrightarrow> status_of s3 d \<noteq> ZOMBIE"
proof -
  show kept: "d \<in> set (table s3) \<and> pcbs s3 d = pcbs s d"
    if "d \<in> set (table s)" "pid_of s d \<notin> set (removal_pids s)" for d
    using that g same by (auto simp: grows_def roster_set t)
  show "status_of s3 d \<noteq> ZOMBIE" if d: "d \<in> set (table s3)" for d
  proof (cases "d \<in> set (table s2)")
    case True
    then have "status_of s3 d = status_of s d" "d \<in> set (table s)"
      using kept [of d] g same(2) by (auto simp: t grows_def status_of_def process_of_def)
    then show ?thesis using nz by simp
  qed (use d g in \<open>auto simp: grows_def\<close>)
qed

text \<open>The first half of the switch, up to the choice of the next process.\<close>

lemma switch_begin:
  assumes inv: "sched_inv s" and s1: "s1 = save_rsp (current_pcb s) r0 s"
    and rem: "distinct (removal_pids s)" "0 \<notin> set (removal_pids s)" "set (removal_pids s) \<subseteq> pid_of s ` set (table s)"
    and nz: "\<forall>d\<in>set (table s). status_of s d \<noteq> ZOMBIE"
    and idle: "\<exists>d\<in>set (ring_pcbs s 0). pid_of s d \<notin> set (removal_pids s)"
  obtains s2 s3 s4 where "kill_processes_in_removal_queue s1 = Some s2" "create_processes_in_creation_queue s2 = Some s3"
    "stop_current_process s3 = Some s4" "sched_inv s4" "current_pcb s4 = current_pcb s"
    "\<forall>d\<in>set (table s4). status_of s4 d \<noteq> ZOMBIE" "ring_pcbs s4 0 \<noteq> []"
    "items (waiting_for_remove s4) = []" "items (creation_queue s4) = []" "blocks_at s4 = blocks_at s1"
    "\<And>d. d \<in> set (table s) \<Longrightarrow> pid_of s d \<notin> set (removal_pids s) \<Longrightarrow> process (pcbs s4 d) = process (pcbs s d)"
    "\<And>q. stack (processes s4 q) = stack (processes s q)"
proof -
  note e1 = save_rsp_view [OF s1]
  have i1: "sched_inv s1" using inv same_view_inv [OF e1(1)] by blast
  obtain s2 where s2: "kill_processes_in_removal_queue s1 = Some s2" "sched_inv s2" "same_objects s1 s2"
    "items (waiting_for_remove s2) = []" "set (table s2) = {d \<in> set (table s). pid_of s d \<notin> set (removal_pids s)}"
    using kill_processes_ok [OF i1] rem unfolding e1 by auto
  obtain s3 where s3: "create_processes_in_creation_queue s2 = Some s3" "sched_inv s3" "grows s2 s3"
    "items (creation_queue s3) = []"
    using create_processes_ok [OF s2(2)] by blast
  obtain s4 where s4: "stop_current_process s3 = Some s4" "sched_inv s4" "stopped s3 s4"
    using stop_current_ok [OF s3(2)] by blast
  have st2: "pcbs s2 = pcbs s" "processes s2 = processes s" using s2(3) e1 by (simp_all add: same_objects_def)
  note q = queues_keep [OF s3(3) s2(5) st2 nz]
  have "\<forall>d\<in>set (table s4). status_of s4 d \<noteq> ZOMBIE" using s4(3) q(2) by (auto simp: stopped_def)
  moreover have "ring_pcbs s4 0 \<noteq> []"
  proof -
    obtain d where "d \<in> set (ring_pcbs s 0)" "pid_of s d \<notin> set (removal_pids s)" using idle by blast
    then have "d \<in> set (ring_pcbs s3 0)" using in_ring_iff [OF inv, of 0 d] in_ring_iff [OF s3(2), of 0 d] q(1) [of d]
      by (simp add: QUEUE_QTY_def)
    then show ?thesis using s4(3) by (auto simp: stopped_def)
  qed
  moreover have "process (pcbs s4 d) = process (pcbs s d)"
    if "d \<in> set (table s)" "pid_of s d \<notin> set (removal_pids s)" for d
    using q(1) [OF that] s4(3) by (simp add: stopped_def)
  moreover have "stack (processes s4 q) = stack (processes s q)" for q
    using s4(3) s3(3) st2 by (simp add: stopped_def grows_def)
  moreover have "blocks_at s4 = blocks_at s1" "current_pcb s4 = current_pcb s"
    "items (waiting_for_remove s4) = []" "items (creation_queue s4) = []"
    using s4(3) s3(3,4) s2(3,4) e1 by (simp_all add: stopped_def grows_def same_objects_def)
  ultimately show thesis using that s2(1) s3(1) s4(1,2) by blast
qed

text \<open>Only the interrupted process gets a new saved stack pointer.\<close>

lemma saved_rsp_switch:
  assumes inv: "sched_inv s" and d: "d \<in> set (table s)" "process (pcbs s' d) = process (pcbs s d)"
    and stk: "\<And>q. stack (processes s' q) = stack (processes s q)"
    and blk: "blocks_at s' = blocks_at (save_rsp (current_pcb s) r0 s)"
  shows "saved_rsp s' d = (if d = current_pcb s then r0 else saved_rsp s d)"
proof -
  have "stack (process_of s' d) = stack (process_of s d)" using d(2) stk by (simp add: process_of_def)
  moreover have "(stack (process_of s d) = stack (process_of s (current_pcb s))) = (d = current_pcb s)"
    using core_stacks_distinct [of s] inv d(1) by (auto simp: inv_split distinct_map inj_on_def roster_set)
  ultimately show ?thesis unfolding saved_rsp_def blk by (simp add: save_rsp_def)
qed


text \<open>The demo kernel with process 3 in the removal queue.\<close>

definition demo_dying :: kernel where
  "demo_dying = demo_kernel\<lparr>waiting_for_remove := \<lparr>qaddr = 7200, items = [(9152, 3)]\<rparr>\<rparr>"

lemma demo_heap_blocks: "heap_blocks demo_dying = mset [8192, 8224, 8416, 8480, 8512, 8544, 8736, 8800, 8832, 8864,
    9056, 9120, 9152]"
proof -
  have "mm demo_dying = demo_heap" by (simp add: demo_dying_def demo_kernel_def)
  moreover have "fst ` live demo_heap = set [8192, 8224, 8416, 8480, 8512, 8544, 8736, 8800, 8832, 8864, 9056, 9120, 9152]"
    unfolding live_def Mem_Bitmap.blocks_def demo_scan
    by (simp add: PAGE_SIZE_def demo_heap_def)
  ultimately have "heap_blocks demo_dying =
    mset_set (set [8192, 8224, 8416, 8480, 8512, 8544, 8736, 8800, 8832, 8864, 9056, 9120, 9152])"
    by (simp add: heap_blocks_def)
  also have "\<dots> = mset [8192, 8224, 8416, 8480, 8512, 8544, 8736, 8800, 8832, 8864, 9056, 9120, 9152]"
    by (rule mset_set_set) simp
  finally show ?thesis .
qed

lemmas demo_simps = demo_dying_def demo_defs ring_pcbs_def table_def roster_def pcb_own_def process_of_def
  pid_of_def status_of_def

lemma demo_dying_inv: "sched_inv demo_dying"
  unfolding sched_inv_ext_def
proof (intro conjI)
  show "rings_ok demo_dying" by (simp add: rings_ok_def demo_simps QUEUE_QTY_def all_less_four)
  show "heap_inv (mm demo_dying)" using demo_heap_inv by (simp add: demo_dying_def demo_kernel_def)
  show "owned demo_dying + {#} \<subseteq># heap_blocks demo_dying"
    unfolding demo_heap_blocks by (simp add: owned_def nodes_def new_procs_def demo_simps add_mset_commute)
  show "distinct (pids demo_dying @ [])" by (simp add: pids_def new_procs_def demo_simps)
  show "\<forall>i<QUEUE_QTY. \<forall>d\<in>set (ring_pcbs demo_dying i). priority (pcbs demo_dying d) = i"
    by (simp add: demo_simps QUEUE_QTY_def all_less_four)
qed (simp_all add: demo_simps new_procs_def QUEUE_QTY_def)


end
