(* ===== verification/C_Memory.thy ===== *)
theory C_Memory
  imports Prelude "HOL-Library.Word"
begin

text \<open>
  Byte memory and C strings, shared by Kernel/lib.c, the module loader and the string
  routines of the user programs. A \<open>char\<close> is an 8-bit word, read as a signed number where
  the code compares or subtracts characters. Addresses and indices are unbounded: an object
  that wraps around the address space, or a string of 2^31 bytes, does not exist here.
\<close>

unbundle bit_operations_syntax

type_synonym byte = "8 word"
type_synonym memory = "nat \<Rightarrow> byte"

definition bytes_at :: "memory \<Rightarrow> nat \<Rightarrow> nat \<Rightarrow> byte list" where
  "bytes_at m p n = map (\<lambda>i. m (p + i)) [0..<n]"

definition write_bytes :: "nat \<Rightarrow> byte list \<Rightarrow> memory \<Rightarrow> memory" where
  "write_bytes p bs m = (\<lambda>a. if p \<le> a \<and> a < p + length bs then bs ! (a - p) else m a)"

lemma length_bytes_at [simp]: "length (bytes_at m p n) = n"
  by (simp add: bytes_at_def)

lemma nth_bytes_at [simp]: "i < n \<Longrightarrow> bytes_at m p n ! i = m (p + i)"
  by (simp add: bytes_at_def)

lemma bytes_at_0 [simp]: "bytes_at m p 0 = []"
  by (simp add: bytes_at_def)

lemma bytes_at_Suc: "bytes_at m p (Suc n) = m p # bytes_at m (Suc p) n"
  by (rule nth_equalityI) (auto simp: nth_Cons split: nat.splits)

lemma bytes_at_eq: "bytes_at m p n = bs \<longleftrightarrow> length bs = n \<and> (\<forall>i<n. m (p + i) = bs ! i)"
  by (auto simp: list_eq_iff_nth_eq)

lemma bytes_at_append: "bytes_at m p (a + b) = bytes_at m p a @ bytes_at m (p + a) b"
  by (rule nth_equalityI) (auto simp: nth_append)

lemma write_bytes_Nil [simp]: "write_bytes p [] m = m"
  by (rule ext) (auto simp: write_bytes_def)

lemma write_bytes_Cons: "write_bytes p (b # bs) m = write_bytes (Suc p) bs (m(p := b))"
proof
  fix a
  show "write_bytes p (b # bs) m a = write_bytes (Suc p) bs (m(p := b)) a"
  proof (cases "p < a")
    case True
    then have "a - p = Suc (a - Suc p)" by simp
    then show ?thesis using True by (simp add: write_bytes_def)
  qed (auto simp: write_bytes_def)
qed

lemma write_bytes_snoc: "write_bytes p (bs @ [b]) m = (write_bytes p bs m)(p + length bs := b)"
  by (rule ext) (auto simp: write_bytes_def nth_append)

lemma write_bytes_append: "write_bytes p (as @ bs) m = write_bytes (p + length as) bs (write_bytes p as m)"
  by (rule ext) (auto simp: write_bytes_def nth_append)

lemma write_bytes_outside: "a < p \<or> p + length bs \<le> a \<Longrightarrow> write_bytes p bs m a = m a"
  by (auto simp: write_bytes_def)

lemma write_bytes_inside: "i < length bs \<Longrightarrow> write_bytes p bs m (p + i) = bs ! i"
  by (simp add: write_bytes_def)

lemma bytes_at_write [simp]: "bytes_at (write_bytes p bs m) p (length bs) = bs"
  by (simp add: bytes_at_eq write_bytes_inside)

lemma bytes_at_write_apart:
  "p + length bs \<le> q \<or> q + n \<le> p \<Longrightarrow> bytes_at (write_bytes p bs m) q n = bytes_at m q n"
  by (auto simp: bytes_at_eq intro!: write_bytes_outside)

section \<open>Strings\<close>

text \<open>The NUL-terminated string \<open>s\<close> stands at \<open>p\<close>.\<close>

definition cstr :: "memory \<Rightarrow> nat \<Rightarrow> byte list \<Rightarrow> bool" where
  "cstr m p s \<longleftrightarrow> bytes_at m p (length s) = s \<and> 0 \<notin> set s \<and> m (p + length s) = 0"

lemma cstr_nth: "cstr m p s \<Longrightarrow> i < length s \<Longrightarrow> m (p + i) = s ! i \<and> s ! i \<noteq> 0"
  by (auto simp: cstr_def bytes_at_eq) (metis nth_mem)

lemma cstr_end: "cstr m p s \<Longrightarrow> m (p + length s) = 0"
  by (simp add: cstr_def)

lemma cstr_at: "cstr m p s \<Longrightarrow> i \<le> length s \<Longrightarrow> m (p + i) = (s @ [0]) ! i"
  using cstr_nth [of m p s i] cstr_end [of m p s] by (cases "i < length s") (auto simp: nth_append)

lemma cstr_Nil [simp]: "cstr m p [] \<longleftrightarrow> m p = 0"
  by (simp add: cstr_def)

lemma cstr_Cons [simp]: "cstr m p (b # s) \<longleftrightarrow> m p = b \<and> b \<noteq> 0 \<and> cstr m (Suc p) s"
  by (auto simp: cstr_def bytes_at_Suc)

lemma cstr_unique: "cstr m p s \<Longrightarrow> cstr m p t \<Longrightarrow> s = t"
proof (induction s arbitrary: p t)
  case Nil
  then show ?case by (cases t) auto
next
  case (Cons b s)
  then show ?case by (cases t) auto
qed

lemma cstr_write: "0 \<notin> set s \<Longrightarrow> cstr (write_bytes p (s @ [0]) m) p s"
  by (simp add: cstr_def bytes_at_eq write_bytes_def nth_append)

lemma cstr_frame:
  "cstr m q s \<Longrightarrow> p + length bs \<le> q \<or> q + length s < p \<Longrightarrow> cstr (write_bytes p bs m) q s"
  by (auto simp: cstr_def bytes_at_write_apart write_bytes_outside)

text \<open>Text of the source as bytes.\<close>

definition bytes :: "string \<Rightarrow> byte list" where
  "bytes s = map (\<lambda>c. of_char c) s"

abbreviation ch :: "char \<Rightarrow> byte" where
  "ch c \<equiv> of_char c"

section \<open>Words of four bytes, least significant first\<close>

definition load32 :: "memory \<Rightarrow> nat \<Rightarrow> 32 word" where
  "load32 m a = ucast (m a) OR push_bit 8 (ucast (m (a + 1))) OR
     push_bit 16 (ucast (m (a + 2))) OR push_bit 24 (ucast (m (a + 3)))"

definition le32 :: "32 word \<Rightarrow> byte list" where
  "le32 w = [ucast w, ucast (drop_bit 8 w), ucast (drop_bit 16 w), ucast (drop_bit 24 w)]"

definition store32 :: "nat \<Rightarrow> 32 word \<Rightarrow> memory \<Rightarrow> memory" where
  "store32 a w m = write_bytes a (le32 w) m"

lemma length_le32 [simp]: "length (le32 w) = 4"
  by (simp add: le32_def)

lemma le32_load32: "le32 (load32 m a) = [m a, m (a + 1), m (a + 2), m (a + 3)]"
  unfolding le32_def load32_def
  by (auto intro!: bit_word_eqI simp: bit_simps) (auto dest!: bit_imp_le_length)

lemma load32_le32:
  assumes "bytes_at m a 4 = le32 w"
  shows "load32 m a = w"
proof -
  have b: "m a = ucast w" "m (a + 1) = ucast (drop_bit 8 w)" "m (a + 2) = ucast (drop_bit 16 w)"
    "m (a + 3) = ucast (drop_bit 24 w)"
    using assms by (simp_all add: bytes_at_eq le32_def all_less_four)
  then show ?thesis
    unfolding load32_def b
  proof (intro bit_word_eqI, goal_cases)
    case (1 n)
    consider "n < 8" | "8 \<le> n" "n < 16" | "16 \<le> n" "n < 24" | "24 \<le> n" "n < 32" using 1 by fastforce
    then show ?case by cases (auto simp: bit_simps)
  qed
qed

lemma load32_store32 [simp]: "load32 (store32 a w m) a = w"
  using bytes_at_write [of a "le32 w" m] by (intro load32_le32) (simp add: store32_def)

lemma store32_load32: "store32 a (load32 m b) m = m(a := m b, a + 1 := m (b + 1), a + 2 := m (b + 2), a + 3 := m (b + 3))"
  by (simp add: store32_def le32_load32 write_bytes_Cons numeral_eq_Suc)

end
