(* ===== verification/Lib.thy ===== *)
theory Lib
  imports C_Memory Timer
begin

text \<open>
  Kernel/lib.c: memory and string routines on byte memory, and the busy waits on the tick
  counter of Timer. \<open>memcpy\<close> moves words when everything is aligned to four; the
  lemmas show that this path is the byte loop, and when the copy is exact. The clock of a busy
  wait is the sequence of tick counts the loop reads, one after each interrupt.
\<close>

section \<open>lib.c\<close>

fun memset_loop :: "nat \<Rightarrow> byte \<Rightarrow> nat \<Rightarrow> memory \<Rightarrow> memory" where
  "memset_loop dst chr 0 m = m"
| "memset_loop dst chr (Suc len) m = memset_loop dst chr len (m(dst + len := chr))"

definition memset :: "nat \<Rightarrow> int \<Rightarrow> nat \<Rightarrow> memory \<Rightarrow> nat \<times> memory" where
  "memset destination c len m = (destination, memset_loop destination (word_of_int c) len m)"

definition copy_words :: "nat \<Rightarrow> nat \<Rightarrow> nat \<Rightarrow> memory \<Rightarrow> memory" where
  "copy_words d s k m = fold (\<lambda>i m. store32 (d + 4 * i) (load32 m (s + 4 * i)) m) [0..<k] m"

definition copy_bytes :: "nat \<Rightarrow> nat \<Rightarrow> nat \<Rightarrow> memory \<Rightarrow> memory" where
  "copy_bytes d s n m = fold (\<lambda>i m. m(d + i := m (s + i))) [0..<n] m"

definition memcpy :: "nat \<Rightarrow> nat \<Rightarrow> nat \<Rightarrow> memory \<Rightarrow> nat \<times> memory" where
  "memcpy destination source len m =
     (destination,
      if destination mod 4 = 0 \<and> source mod 4 = 0 \<and> len mod 4 = 0
      then copy_words destination source (len div 4) m
      else copy_bytes destination source len m)"

partial_function (option) str_len_loop :: "memory \<Rightarrow> nat \<Rightarrow> nat \<Rightarrow> nat option" where
  "str_len_loop m str len = (if m (str + len) \<noteq> 0 then str_len_loop m str (len + 1) else Some len)"

definition str_len :: "memory \<Rightarrow> nat \<Rightarrow> nat option" where
  "str_len m str = str_len_loop m str 0"

partial_function (option) strcmp_loop :: "memory \<Rightarrow> nat \<Rightarrow> nat \<Rightarrow> nat \<Rightarrow> int option" where
  "strcmp_loop m str1 str2 i =
     (if m (str1 + i) \<noteq> 0 \<and> m (str2 + i) \<noteq> 0 \<and> m (str1 + i) = m (str2 + i)
      then strcmp_loop m str1 str2 (i + 1)
      else Some (sint (m (str1 + i)) - sint (m (str2 + i))))"

definition strcmp :: "memory \<Rightarrow> nat \<Rightarrow> nat \<Rightarrow> int option" where
  "strcmp m str1 str2 = strcmp_loop m str1 str2 0"

partial_function (option) str_cpy_loop :: "nat \<Rightarrow> nat \<Rightarrow> nat \<Rightarrow> memory \<Rightarrow> (nat \<times> memory) option" where
  "str_cpy_loop dst src i m =
     (if m (src + i) \<noteq> 0 then str_cpy_loop dst src (i + 1) (m(dst + i := m (src + i)))
      else Some (i, m(dst + i := 0)))"

definition str_cpy :: "nat \<Rightarrow> nat \<Rightarrow> memory \<Rightarrow> (nat \<times> memory) option" where
  "str_cpy dst src m = str_cpy_loop dst src 0 m"

section \<open>Waiting for the timer\<close>

text \<open>The three loops count how often they halt; \<open>clock k\<close> is the tick counter at the k-th test.\<close>

partial_function (option) sleep_loop :: "(nat \<Rightarrow> nat) \<Rightarrow> nat \<Rightarrow> nat \<Rightarrow> nat \<Rightarrow> nat option" where
  "sleep_loop clock seconds startTime k =
     (if int seconds > (seconds_elapsed (clock k) - int startTime) mod 2 ^ 32
      then sleep_loop clock seconds startTime (k + 1) else Some k)"

definition sleep :: "(nat \<Rightarrow> nat) \<Rightarrow> nat \<Rightarrow> nat option" where
  "sleep clock seconds = sleep_loop clock seconds (nat (seconds_elapsed (clock 0) mod 2 ^ 32)) 0"

text \<open>
  \<open>startTime\<close> is the counter cut to \<open>int\<close>; both products, the difference and the comparison
  are unsigned 64-bit, \<open>mseconds\<close> included.
\<close>

partial_function (option) wait_loop :: "nat \<Rightarrow> (nat \<Rightarrow> nat) \<Rightarrow> int \<Rightarrow> int \<Rightarrow> nat \<Rightarrow> nat option" where
  "wait_loop unit clock amount startTime k =
     (if amount mod 2 ^ 64 > (int (clock k) * int unit - startTime * int unit) mod 2 ^ 64
      then wait_loop unit clock amount startTime (k + 1) else Some k)"

definition sleepms :: "(nat \<Rightarrow> nat) \<Rightarrow> int \<Rightarrow> nat option" where
  "sleepms clock mseconds = wait_loop 18 clock mseconds (to_int32 (int (clock 0))) 0"

definition nanoms :: "(nat \<Rightarrow> nat) \<Rightarrow> int \<Rightarrow> nat option" where
  "nanoms clock nseconds = wait_loop 18000 clock nseconds (to_int32 (int (clock 0))) 0"

section \<open>Copying and filling\<close>

lemma memset_loop_eq: "memset_loop dst chr n m = write_bytes dst (replicate n chr) m"
proof (induction n arbitrary: m)
  case (Suc n)
  have "write_bytes dst (replicate n chr) (m(dst + n := chr)) = write_bytes dst (replicate (Suc n) chr) m"
    by (rule ext) (auto simp: write_bytes_def nth_Cons' less_Suc_eq)
  then show ?case by (simp only: memset_loop.simps Suc.IH)
qed simp

lemma copy_bytes_Suc: "copy_bytes d s (Suc n) m = (copy_bytes d s n m)(d + n := copy_bytes d s n m (s + n))"
  by (simp add: copy_bytes_def)

lemma copy_words_Suc: "copy_words d s (Suc k) m =
    store32 (d + 4 * k) (load32 (copy_words d s k m) (s + 4 * k)) (copy_words d s k m)"
  by (simp add: copy_words_def)

lemma copy_words_eq:
  assumes "d mod 4 = 0" "s mod 4 = 0"
  shows "copy_words d s k m = copy_bytes d s (4 * k) m"
proof (induction k)
  case (Suc k)
  let ?m = "copy_bytes d s (4 * k) m"
  obtain a b where [simp]: "d = 4 * a" "s = 4 * b" using assms by (auto elim!: dvdE simp: mod_eq_0_iff_dvd)
  have ne: "4 * b + 4 * k + 1 \<noteq> 4 * a + 4 * k" "4 * b + 4 * k + 2 \<noteq> 4 * a + 4 * k" "4 * b + 4 * k + 3 \<noteq> 4 * a + 4 * k"
    "4 * b + 4 * k + 2 \<noteq> 4 * a + 4 * k + 1" "4 * b + 4 * k + 3 \<noteq> 4 * a + 4 * k + 1"
    "4 * b + 4 * k + 3 \<noteq> 4 * a + 4 * k + 2"
    by presburger+
  have four: "4 * Suc k = Suc (Suc (Suc (Suc (4 * k))))" by simp
  show ?case unfolding copy_words_Suc Suc.IH four copy_bytes_Suc store32_load32
    using ne by (simp add: fun_eq_iff numeral_3_eq_3)
qed (simp add: copy_words_def copy_bytes_def)

text \<open>C26: the word-wise path of \<open>memcpy\<close>, taken when both addresses and the length are
  multiples of four, has the same effect as the byte-wise path on every memory, overlapping
  ranges included; \<open>memcpy\<close> is the byte loop.\<close>

theorem memcpy_is_bytewise: "memcpy d s n m = (d, copy_bytes d s n m)"
  using copy_words_eq [of d s "n div 4" m] by (auto simp: memcpy_def)

lemma copy_bytes_exact:
  assumes "d \<le> s \<or> s + n \<le> d"
  shows "copy_bytes d s n m = write_bytes d (bytes_at m s n) m"
  using assms
proof (induction n)
  case (Suc n)
  have "write_bytes d (bytes_at m s n) m (s + n) = m (s + n)"
    using Suc.prems by (auto intro!: write_bytes_outside)
  then show ?case
    using Suc write_bytes_snoc [of d "bytes_at m s n" "m (s + n)" m] bytes_at_append [of m s n 1]
    by (auto simp: copy_bytes_Suc bytes_at_Suc)
qed (simp add: copy_bytes_def)

text \<open>\<open>memset\<close> fills exactly the range with the byte, and \<open>memcpy\<close> leaves exactly a copy
  of the source in the destination when the ranges are apart or the destination is the lower
  one, the case of scrolling the screen.\<close>

theorem memcpy_exact:
  assumes "d \<le> s \<or> s + n \<le> d"
  shows "memcpy d s n m = (d, write_bytes d (bytes_at m s n) m) \<and>
    memset d c n m = (d, write_bytes d (replicate n (word_of_int c)) m)"
  using copy_bytes_exact [OF assms] copy_words_eq [of d s "n div 4" m]
  by (auto simp: memcpy_def memset_def memset_loop_eq)

theorem memcpy_exact_witness:
  "memcpy 0 4 8 (\<lambda>a. of_nat a) = (0, write_bytes 0 [4, 5, 6, 7, 8, 9, 10, 11] (\<lambda>a. of_nat a)) \<and>
   memset 0 0 8 (\<lambda>a. of_nat a) = (0, write_bytes 0 (replicate 8 0) (\<lambda>a. of_nat a))"
  using memcpy_exact [of 0 4 8 "\<lambda>a. of_nat a" 0]
  by (simp add: bytes_at_def upt_rec)

section \<open>Strings\<close>

lemma str_len_loop_eq: "cstr m (p + i) s \<Longrightarrow> str_len_loop m p i = Some (i + length s)"
proof (induction s arbitrary: i)
  case Nil
  then show ?case by (subst str_len_loop.simps) simp
next
  case (Cons b s)
  then show ?case using Cons.IH [of "i + 1"] by (subst str_len_loop.simps) auto
qed

lemma str_len_eq: "cstr m p s \<Longrightarrow> str_len m p = Some (length s)"
  using str_len_loop_eq [of m p 0 s] by (simp add: str_len_def)

text \<open>The first position where two terminated strings differ, or their common end.\<close>

fun strdiff :: "byte list \<Rightarrow> byte list \<Rightarrow> int" where
  "strdiff [] [] = 0"
| "strdiff (a # s) [] = sint a"
| "strdiff [] (b # t) = - sint b"
| "strdiff (a # s) (b # t) = (if a = b then strdiff s t else sint a - sint b)"

lemma strcmp_loop_eq: "cstr m (p + i) s \<Longrightarrow> cstr m (q + i) t \<Longrightarrow> strcmp_loop m p q i = Some (strdiff s t)"
proof (induction s t arbitrary: i rule: strdiff.induct)
  case (4 a s b t)
  then show ?case by (subst strcmp_loop.simps) auto
qed (subst strcmp_loop.simps, simp)+

lemma strcmp_eq: "cstr m p s \<Longrightarrow> cstr m q t \<Longrightarrow> strcmp m p q = Some (strdiff s t)"
  using strcmp_loop_eq [of m p 0 s q t] by (simp add: strcmp_def)

lemma strdiff_0: "0 \<notin> set s \<Longrightarrow> 0 \<notin> set t \<Longrightarrow> strdiff s t = 0 \<longleftrightarrow> s = t"
  by (induction s t rule: strdiff.induct) (auto simp: word_eq_iff_signed [symmetric] signed_eq_0_iff)

lemma strdiff_swap: "strdiff t s = - strdiff s t"
  by (induction s t rule: strdiff.induct) auto

text \<open>Seven-bit text: every character is positive as a signed number.\<close>

definition ascii :: "byte list \<Rightarrow> bool" where
  "ascii s \<longleftrightarrow> (\<forall>b\<in>set s. 0 < sint b)"

lemma ascii_simps [simp]: "ascii []" "ascii (b # s) \<longleftrightarrow> 0 < sint b \<and> ascii s"
  by (auto simp: ascii_def)

lemma strdiff_less: "ascii s \<Longrightarrow> ascii t \<Longrightarrow> strdiff s t < 0 \<longleftrightarrow> ord_class.lexordp (map sint s) (map sint t)"
  by (induction s t rule: strdiff.induct) (auto simp: not_less le_less word_eq_iff_signed [symmetric] signed_eq_0_iff)

text \<open>Comparison: \<open>strcmp\<close> of the kernel returns on terminated strings; it is 0 exactly for equal
  strings, changes sign when the arguments change places, and for seven-bit text is negative
  exactly when the first string is lexicographically smaller.\<close>

lemma strcmp_correct:
  assumes "cstr m p s" "cstr m q t"
  shows "\<exists>r. strcmp m p q = Some r \<and> strcmp m q p = Some (- r) \<and> (r = 0 \<longleftrightarrow> s = t) \<and>
    (ascii s \<and> ascii t \<longrightarrow> (r < 0 \<longleftrightarrow> ord_class.lexordp (map sint s) (map sint t)))"
  using strcmp_eq [OF assms] strcmp_eq [OF assms(2,1)] strdiff_0 [of s t] strdiff_swap [of s t]
    strdiff_less [of s t] assms by (auto simp: cstr_def)

lemma str_cpy_loop_eq:
  "cstr m (src + i) s \<Longrightarrow> dst \<le> src \<or> src + i + length s < dst \<Longrightarrow>
   str_cpy_loop dst src i m = Some (i + length s, write_bytes (dst + i) (s @ [0]) m)"
proof (induction s arbitrary: i m)
  case Nil
  then show ?case by (subst str_cpy_loop.simps) (simp add: write_bytes_Cons)
next
  case (Cons b s)
  let ?m = "m(dst + i := b)"
  have b: "m (src + i) = b" "b \<noteq> 0" using Cons.prems by auto
  have "cstr ?m (src + (i + 1)) s"
    using Cons.prems cstr_frame [of m "Suc (src + i)" s "dst + i" "[b]"] by (auto simp: write_bytes_Cons)
  from Cons.IH [OF this] Cons.prems(2)
  have "str_cpy_loop dst src (i + 1) ?m = Some (i + 1 + length s, write_bytes (dst + (i + 1)) (s @ [0]) ?m)"
    by (auto simp del: fun_upd_apply)
  then show ?case using b by (subst str_cpy_loop.simps) (simp add: write_bytes_Cons del: fun_upd_apply)
qed

text \<open>A destination inside the source overwrites the terminator before it is read.\<close>

lemma str_cpy_runs_on:
  assumes "str_cpy_loop dst src i m = Some r"
  shows "\<not> (src < dst \<and> (\<forall>j. j < dst - src \<longrightarrow> m (src + i + j) \<noteq> 0))"
proof (rule str_cpy_loop.raw_induct [where P = "\<lambda>dst src i m r.
    \<not> (src < dst \<and> (\<forall>j. j < dst - src \<longrightarrow> m (src + i + j) \<noteq> 0))", OF _ assms])
  fix loop :: "nat \<Rightarrow> nat \<Rightarrow> nat \<Rightarrow> memory \<Rightarrow> (nat \<times> memory) option" and dst src i m r
  assume IH: "\<And>dst src i m r. loop dst src i m = Some r \<Longrightarrow>
      \<not> (src < dst \<and> (\<forall>j. j < dst - src \<longrightarrow> m (src + i + j) \<noteq> 0))"
    and step: "(if m (src + i) \<noteq> 0 then loop dst src (i + 1) (m(dst + i := m (src + i)))
      else Some (i, m(dst + i := 0))) = Some r"
  show "\<not> (src < dst \<and> (\<forall>j. j < dst - src \<longrightarrow> m (src + i + j) \<noteq> 0))"
  proof
    assume h: "src < dst \<and> (\<forall>j. j < dst - src \<longrightarrow> m (src + i + j) \<noteq> 0)"
    then have nz: "m (src + i) \<noteq> 0" by (metis add.right_neutral zero_less_diff)
    then have "loop dst src (i + 1) (m(dst + i := m (src + i))) = Some r" using step by simp
    moreover have "(m(dst + i := m (src + i))) (src + (i + 1) + j) \<noteq> 0" if "j < dst - src" for j
    proof (cases "src + (i + 1) + j = dst + i")
      case True
      then show ?thesis using nz by simp
    next
      case False
      then have "j + 1 < dst - src" using that by simp
      then have "m (src + i + (j + 1)) \<noteq> 0" using h by blast
      then show ?thesis using False by simp
    qed
    ultimately show False using IH [of dst src "i + 1" "m(dst + i := m (src + i))" r] h by simp
  qed
qed

text \<open>C34: \<open>str_cpy\<close> copies a terminated string with its terminator and returns its length when
  the destination is not inside the source behind its start; there it never returns.\<close>

theorem str_cpy_correct:
  assumes "cstr m src s"
  shows "str_cpy dst src m =
    (if src < dst \<and> dst \<le> src + length s then None else Some (length s, write_bytes dst (s @ [0]) m))"
proof (cases "src < dst \<and> dst \<le> src + length s")
  case True
  then have "\<forall>j. j < dst - src \<longrightarrow> m (src + 0 + j) \<noteq> 0"
    using cstr_nth [OF assms] by auto
  then show ?thesis using True str_cpy_runs_on [of dst src 0 m]
    by (cases "str_cpy_loop dst src 0 m") (auto simp: str_cpy_def)
next
  case False
  then show ?thesis using str_cpy_loop_eq [of m src 0 s dst] assms by (auto simp: str_cpy_def)
qed

text \<open>Two strings for the witnesses: "ab" at 0 and "ac" at 4.\<close>

definition demo_memory :: memory where
  "demo_memory = (\<lambda>_. 0)(0 := 97, 1 := 98, 4 := 97, 5 := 99)"

lemma demo_memory_strings: "cstr demo_memory 0 [97, 98]" "cstr demo_memory 4 [97, 99]"
  by (simp_all add: demo_memory_def)

lemma strcmp_example:
  "\<exists>r. strcmp demo_memory 0 4 = Some r \<and> strcmp demo_memory 4 0 = Some (- r) \<and> (r = 0 \<longleftrightarrow> [97, 98] = [97, 99 :: byte]) \<and>
    (ascii [97, 98] \<and> ascii [97, 99] \<longrightarrow> (r < 0 \<longleftrightarrow> ord_class.lexordp (map sint [97, 98 :: byte]) (map sint [97, 99 :: byte])))"
  using strcmp_correct [OF demo_memory_strings] by (simp only:)

theorem str_cpy_correct_witness:
  "str_cpy 1 0 demo_memory = None \<and> str_cpy 8 0 demo_memory = Some (2, write_bytes 8 [97, 98, 0] demo_memory)"
  using str_cpy_correct [OF demo_memory_strings(1), of 1] str_cpy_correct [OF demo_memory_strings(1), of 8] by simp

section \<open>Waiting\<close>

lemma sleep_loop_first:
  "k \<le> j \<Longrightarrow> (\<And>i. k \<le> i \<Longrightarrow> i < j \<Longrightarrow> int n > (seconds_elapsed (clock i) - int t) mod 2 ^ 32) \<Longrightarrow>
   int n \<le> (seconds_elapsed (clock j) - int t) mod 2 ^ 32 \<Longrightarrow> sleep_loop clock n t k = Some j"
proof (induction "j - k" arbitrary: k)
  case 0
  then show ?case by (subst sleep_loop.simps) simp
next
  case (Suc x)
  then show ?case using Suc.hyps(1) [of "k + 1"] by (subst sleep_loop.simps) auto
qed

lemma wait_loop_first:
  "k \<le> j \<Longrightarrow> (\<And>i. k \<le> i \<Longrightarrow> i < j \<Longrightarrow> a mod 2 ^ 64 > (int (clock i) * int u - t * int u) mod 2 ^ 64) \<Longrightarrow>
   a mod 2 ^ 64 \<le> (int (clock j) * int u - t * int u) mod 2 ^ 64 \<Longrightarrow> wait_loop u clock a t k = Some j"
proof (induction "j - k" arbitrary: k)
  case 0
  then show ?case by (subst wait_loop.simps) simp
next
  case (Suc x)
  then show ?case using Suc.hyps(1) [of "k + 1"] by (subst wait_loop.simps) auto
qed

lemma wait_loop_never:
  assumes "wait_loop u clock a t k = Some r"
  shows "\<exists>i. a mod 2 ^ 64 \<le> (int (clock i) * int u - t * int u) mod 2 ^ 64"
  by (rule wait_loop.raw_induct [where P = "\<lambda>u clock a t k r.
      \<exists>i. a mod 2 ^ 64 \<le> (int (clock i) * int u - t * int u) mod 2 ^ 64", OF _ assms])
    (auto split: if_splits simp: not_less)

text \<open>The clock runs: every interrupt adds at most one tick.\<close>

definition running_clock :: "(nat \<Rightarrow> nat) \<Rightarrow> bool" where
  "running_clock clock \<longleftrightarrow> (\<forall>k. clock k \<le> clock (k + 1) \<and> clock (k + 1) \<le> clock k + 1)"

lemma running_mono: "running_clock clock \<Longrightarrow> i \<le> j \<Longrightarrow> clock i \<le> clock j"
  by (rule lift_Suc_mono_le) (auto simp: running_clock_def)

text \<open>A clock that reaches a value passes through its first reading of it.\<close>

lemma first_reading:
  assumes run: "running_clock clock" and "clock K \<ge> v" "clock 0 \<le> v"
  obtains j where "clock j = v" "\<And>i. i < j \<Longrightarrow> clock 0 \<le> clock i \<and> clock i < v"
proof -
  define j where "j = (LEAST k. clock k \<ge> v)"
  have j: "clock j \<ge> v" unfolding j_def by (rule LeastI [of _ K]) (rule assms(2))
  have below: "clock i < v" if "i < j" for i
    using not_less_Least [of i "\<lambda>k. clock k \<ge> v"] that by (auto simp: j_def)
  have "clock j = v"
  proof (cases j)
    case 0
    then show ?thesis using j assms(3) by simp
  next
    case (Suc i)
    then have "clock i < v" "clock (i + 1) \<le> clock i + 1" using below run by (auto simp: running_clock_def)
    then show ?thesis using j Suc by simp
  qed
  then show ?thesis using that [of j] below running_mono [OF run] by blast
qed

text \<open>Busy waiting: a wait of \<open>n\<close> seconds returns once the clock has reached the second that is \<open>n\<close>
  after the current one, so it lasts more than \<open>n - 1\<close> and at most \<open>n\<close> times 18 ticks, if the
  clock runs that far and the counter stays in the range of \<open>int\<close>.\<close>

lemma sleep_returns:
  assumes run: "running_clock clock" and reach: "clock K \<ge> clock 0 + 18 * n" and pos: "0 < n"
    and small: "clock 0 + 18 * n < 18 * 2 ^ 31"
  shows "\<exists>k. sleep clock n = Some k \<and> 18 * (n - 1) < clock k - clock 0 \<and> clock k - clock 0 \<le> 18 * n"
proof -
  let ?v = "18 * (clock 0 div 18 + n)"
  have v: "clock 0 \<le> ?v" "?v \<le> clock 0 + 18 * n" "18 * (n - 1) < ?v - clock 0" using pos by auto
  then obtain j where j: "clock j = ?v" "\<And>i. i < j \<Longrightarrow> clock 0 \<le> clock i \<and> clock i < ?v"
    using first_reading [OF run, of "?v" K] reach by (metis le_trans)
  have sec: "seconds_elapsed c = int (c div 18)" if "c < 18 * 2 ^ 31" for c
    using that unfolding seconds_elapsed_def by (intro to_int32_id) (auto simp: div_less_iff_less_mult)
  have diff: "(seconds_elapsed (clock i) - int (clock 0 div 18)) mod 2 ^ 32 = int (clock i div 18 - clock 0 div 18)"
    if "clock 0 \<le> clock i" "clock i \<le> ?v" for i
  proof -
    have "clock i div 18 < 2 ^ 31" using that small v(2) by (simp add: div_less_iff_less_mult)
    moreover have "clock 0 div 18 \<le> clock i div 18" using that(1) by (rule div_le_mono)
    ultimately show ?thesis using that small v(2) by (simp add: sec of_nat_diff)
  qed
  have start: "nat (seconds_elapsed (clock 0) mod 2 ^ 32) = clock 0 div 18"
  proof -
    have "clock 0 div 18 < 2 ^ 31" using small by (simp add: div_less_iff_less_mult)
    then show ?thesis using small by (simp add: sec nat_mod_distrib)
  qed
  have "sleep_loop clock n (clock 0 div 18) 0 = Some j"
  proof (rule sleep_loop_first)
    fix i assume i: "i < j"
    then have "clock i div 18 < clock 0 div 18 + n" using j(2) [OF i] by (simp add: div_less_iff_less_mult algebra_simps)
    then show "int n > (seconds_elapsed (clock i) - int (clock 0 div 18)) mod 2 ^ 32"
      using diff [of i] j(2) [OF i] pos by (simp add: less_diff_conv2 div_le_mono)
  qed (use diff [of j] j(1) v(1) in simp_all)
  moreover have "?v - clock 0 \<le> 18 * n" using v(2) by linarith
  ultimately show ?thesis using j(1) v(3) start by (intro exI [of _ j]) (simp add: sleep_def)
qed

lemma demo_clock: "running_clock (\<lambda>k. k + 5)"
  by (simp add: running_clock_def)

lemma sleep_returns_example:
  "\<exists>k. sleep (\<lambda>k. k + 5) 2 = Some k \<and> 18 * (2 - 1) < (k + 5) - (0 + 5) \<and> (k + 5) - (0 + 5) \<le> (18 * 2 :: nat)"
  by (rule sleep_returns [OF demo_clock, of 2 36]) simp_all



end
