(* ===== verification/Loader.thy ===== *)
theory Loader
  imports Lib Console
begin

text \<open>
  The boot image: Toolchain/ModulePacker/main.c appends the user modules to the kernel binary,
  Kernel/moduleLoader.c and \<open>initialize_kernel_binary\<close> of Kernel/kernel.c take them apart
  again. Files are byte lists in a map from names; a stream being read is the rest of its
  bytes and its end-of-file flag. The linker's symbols are arguments.
\<close>

section \<open>ModulePacker\<close>

definition BUFFER_SIZE :: nat where "BUFFER_SIZE = 128"
definition MAX_FILES :: nat where "MAX_FILES = 128"
definition OUTPUT_FILE :: string where "OUTPUT_FILE = ''packedKernel.bin''"

type_synonym files = "string \<rightharpoonup> byte list"
type_synonym stream = "byte list \<times> bool"

text \<open>\<open>fread(buffer, 1, n, source)\<close>: a short read sets the end-of-file flag.\<close>

definition fread :: "nat \<Rightarrow> stream \<Rightarrow> byte list \<times> stream" where
  "fread n source = (take n (fst source), drop n (fst source), snd source \<or> length (fst source) < n)"

function write_file :: "byte list \<Rightarrow> stream \<Rightarrow> byte list" where
  "write_file target source =
     (if snd source then target
      else case fread BUFFER_SIZE source of (buffer, source) \<Rightarrow> write_file (target @ buffer) source)"
  by pat_completeness auto
termination
  by (relation "measure (\<lambda>(t, s). if snd s then 0 else Suc (length (fst s)))")
    (auto simp: fread_def BUFFER_SIZE_def split: if_splits)

declare write_file.simps [simp del]

definition write_size :: "byte list \<Rightarrow> byte list \<Rightarrow> byte list" where
  "write_size target file = target @ le32 (of_nat (length file))"

fun checkFiles :: "files \<Rightarrow> string list \<Rightarrow> bool" where
  "checkFiles fs [] = True"
| "checkFiles fs (f # fileArray) = (if fs f = None then False else checkFiles fs fileArray)"

text \<open>The loop over the extra binaries; opening a missing file and reading it is undefined.\<close>

fun append_binaries :: "files \<Rightarrow> string list \<Rightarrow> byte list \<Rightarrow> byte list option" where
  "append_binaries fs [] target = Some target"
| "append_binaries fs (f # fileArray) target = do {
     file \<leftarrow> fs f;
     append_binaries fs fileArray (write_file (write_size target file) (file, False))
   }"

text \<open>
  \<open>can_create\<close> says whether the target can be opened for writing, which empties it. The result
  is the return value and the files.
\<close>

definition buildImage :: "bool \<Rightarrow> string list \<Rightarrow> string \<Rightarrow> files \<Rightarrow> (bool \<times> files) option" where
  "buildImage can_create fileArray output_file fs =
     (if \<not> can_create then Some (False, fs)
      else let fs = fs(output_file \<mapsto> []) in
        if fileArray = [] then None
        else do {
          source \<leftarrow> fs (hd fileArray);
          let target = write_file [] (source, False);
          let target = target @ le32 (of_nat (length fileArray - 1));
          target \<leftarrow> append_binaries fs (tl fileArray) target;
          Some (True, fs(output_file \<mapsto> target))
        })"

text \<open>The calls of the argument parser, and what \<open>parse_opt\<close> makes of them.\<close>

datatype argp_key = Key_o string | ARGP_KEY_ARG string | ARGP_KEY_END | Key_other

record arguments =
  args :: "string list"
  output_file :: string
  count :: nat

datatype parse_result = Parsed arguments | Usage | Err_unknown

definition parse_opt :: "argp_key \<Rightarrow> arguments \<Rightarrow> parse_result option" where
  "parse_opt key a =
     (case key of
        Key_o arg \<Rightarrow> Some (Parsed (a\<lparr>output_file := arg\<rparr>))
      | ARGP_KEY_ARG arg \<Rightarrow> if length (args a) < MAX_FILES then Some (Parsed (a\<lparr>args := args a @ [arg]\<rparr>)) else None
      | ARGP_KEY_END \<Rightarrow> if length (args a) < 1 then Some Usage else Some (Parsed (a\<lparr>count := length (args a)\<rparr>))
      | Key_other \<Rightarrow> Some Err_unknown)"

text \<open>\<open>argp_parse\<close> calls it for the options and arguments, then at the end; an option nobody knows is an error.\<close>

fun argp_parse :: "argp_key list \<Rightarrow> arguments \<Rightarrow> parse_result option" where
  "argp_parse [] a = parse_opt ARGP_KEY_END a"
| "argp_parse (k # ks) a = do {
     r \<leftarrow> parse_opt k a;
     case r of Parsed a \<Rightarrow> argp_parse ks a | _ \<Rightarrow> Some r
   }"

text \<open>The exit code of \<open>main\<close>, and the files it leaves; usage and unknown options exit with 64.\<close>

definition packer_main :: "bool \<Rightarrow> argp_key list \<Rightarrow> files \<Rightarrow> (int \<times> files) option" where
  "packer_main can_create keys fs = do {
     r \<leftarrow> argp_parse keys \<lparr>args = [], output_file = OUTPUT_FILE, count = 0\<rparr>;
     case r of
       Parsed a \<Rightarrow>
         if \<not> checkFiles fs (take (count a) (args a)) then Some (1, fs)
         else do {
           (ok, fs) \<leftarrow> buildImage can_create (take (count a) (args a)) (output_file a) fs;
           Some (if ok then 0 else 1, fs)
         }
     | _ \<Rightarrow> Some (64, fs)
   }"

section \<open>moduleLoader.c\<close>

record machine =
  ram :: memory
  screen :: console

definition read_uint_32 :: "nat \<Rightarrow> machine \<Rightarrow> nat \<times> nat" where
  "read_uint_32 address s = (unat (load32 (ram s) address), address + 4)"

definition load_module :: "nat \<Rightarrow> nat \<Rightarrow> machine \<Rightarrow> (nat \<times> machine) option" where
  "load_module module targetModuleAddress s = do {
     let (moduleSize, module) = read_uint_32 module s;
     let c = nc_print ''  Will copy module at 0x'' (screen s);
     c \<leftarrow> nc_print_hex module c;
     let c = nc_print '' to 0x'' c;
     c \<leftarrow> nc_print_hex targetModuleAddress c;
     let c = nc_print '' ('' c;
     c \<leftarrow> nc_print_dec moduleSize c;
     let c = nc_print '' bytes)'' c;
     let m = snd (memcpy targetModuleAddress module moduleSize (ram s));
     let module = module + moduleSize;
     let c = nc_print '' [Done]'' c;
     c \<leftarrow> nc_newline c;
     Some (module, \<lparr>ram = m, screen = c\<rparr>)
   }"

text \<open>The loop over \<open>n\<close> modules; more modules than addresses is an access out of bounds.\<close>

fun load_loop :: "nat \<Rightarrow> nat list \<Rightarrow> nat \<Rightarrow> machine \<Rightarrow> machine option" where
  "load_loop 0 targets module s = Some s"
| "load_loop (Suc n) [] module s = None"
| "load_loop (Suc n) (t # targets) module s = do {
     (module, s) \<leftarrow> load_module module t s;
     load_loop n targets module s
   }"

definition load_modules :: "nat \<Rightarrow> nat list \<Rightarrow> machine \<Rightarrow> machine option" where
  "load_modules payload_start targetModuleAddress s =
     (let (moduleCount, currentModule) = read_uint_32 payload_start s
      in load_loop moduleCount targetModuleAddress currentModule s)"

section \<open>kernel.c, before main\<close>

definition sample_code_module_Address :: nat where "sample_code_module_Address = 0x400000"
definition sample_data_module_address :: nat where "sample_data_module_address = 0x500000"
definition page_size_kernel :: nat where "page_size_kernel = 0x1000"

definition clear_bss :: "nat \<Rightarrow> nat \<Rightarrow> machine \<Rightarrow> machine" where
  "clear_bss bss_address bss_size s = s\<lparr>ram := snd (memset bss_address 0 bss_size (ram s))\<rparr>"

definition ret_userland :: nat where
  "ret_userland = sample_code_module_Address"

definition get_stack_base :: "nat \<Rightarrow> nat" where
  "get_stack_base end_of_kernel = end_of_kernel + page_size_kernel * 8 - 8"

definition initialize_kernel_binary :: "nat \<Rightarrow> nat \<Rightarrow> nat \<Rightarrow> machine \<Rightarrow> (nat \<times> machine) option" where
  "initialize_kernel_binary end_of_kernelBinary bss end_of_kernel s = do {
     s \<leftarrow> load_modules end_of_kernelBinary [sample_code_module_Address, sample_data_module_address] s;
     let s = clear_bss bss (sub64 end_of_kernel bss) s;
     Some (get_stack_base end_of_kernel, s)
   }"

section \<open>The image\<close>

definition packed :: "byte list \<Rightarrow> byte list" where
  "packed file = le32 (of_nat (length file)) @ file"

definition packed_image :: "byte list \<Rightarrow> byte list list \<Rightarrow> byte list" where
  "packed_image kern modules = kern @ le32 (of_nat (length modules)) @ concat (map packed modules)"

lemma length_packed [simp]: "length (packed b) = 4 + length b"
  by (simp add: packed_def)

lemma write_file_eq: "write_file target (rest, False) = target @ rest"
proof (induction "length rest" arbitrary: target rest rule: less_induct)
  case less
  show ?case
  proof (cases "length rest < BUFFER_SIZE")
    case True
    then show ?thesis by (simp add: write_file.simps [of _ "(rest, False)"] write_file.simps [of _ "(_, True)"] fread_def)
  next
    case False
    then have "length (drop BUFFER_SIZE rest) < length rest" by (simp add: BUFFER_SIZE_def)
    from less [OF this] False show ?thesis by (simp add: write_file.simps [of _ "(rest, False)"] fread_def)
  qed
qed

lemma append_binaries_eq:
  "map fs names = map Some contents \<Longrightarrow>
   append_binaries fs names target = Some (target @ concat (map packed contents))"
proof (induction names arbitrary: contents target)
  case (Cons f names)
  then obtain c cs where "contents = c # cs" "fs f = Some c" "map fs names = map Some cs"
    by (cases contents) auto
  then show ?case using Cons.IH by (simp add: write_file_eq write_size_def packed_def)
qed simp

lemma buildImage_eq:
  assumes "fs f = Some kern" "map fs names = map Some modules" "out \<notin> set (f # names)"
  shows "buildImage True (f # names) out fs = Some (True, fs(out \<mapsto> packed_image kern modules))"
proof -
  have "length names = length modules" using assms(2) by (metis length_map)
  moreover have "map (fs(out \<mapsto> [])) names = map Some modules" using assms(2,3) by (auto intro!: map_cong)
  ultimately show ?thesis
    using assms append_binaries_eq by (simp add: buildImage_def write_file_eq packed_image_def Let_def) blast
qed

text \<open>The effect of loading, and what it leaves alone.\<close>

fun loads :: "nat list \<Rightarrow> byte list list \<Rightarrow> memory \<Rightarrow> memory" where
  "loads (t # ts) (b # bs) m = loads ts bs (write_bytes t b m)"
| "loads ts bs m = m"

definition off :: "nat \<times> nat \<Rightarrow> nat \<times> nat \<Rightarrow> bool" where
  "off x y \<longleftrightarrow> fst x + snd x \<le> fst y \<or> fst y + snd y \<le> fst x"

definition regions :: "nat list \<Rightarrow> byte list list \<Rightarrow> (nat \<times> nat) list" where
  "regions ts bs = zip ts (map length bs)"

lemma regions_simps [simp]:
  "regions (t # ts) (b # bs) = (t, length b) # regions ts bs" "regions ts [] = []" "regions [] bs = []"
  by (simp_all add: regions_def)

lemma loads_apart: "\<forall>r\<in>set (regions ts bs). off r (q, n) \<Longrightarrow> bytes_at (loads ts bs m) q n = bytes_at m q n"
  by (induction ts bs m rule: loads.induct) (auto simp: off_def bytes_at_write_apart)

lemma loads_exact:
  "length bs \<le> length ts \<Longrightarrow> sorted_wrt off (regions ts bs) \<Longrightarrow> i < length bs \<Longrightarrow>
   bytes_at (loads ts bs m) (ts ! i) (length (bs ! i)) = bs ! i"
proof (induction ts bs m arbitrary: i rule: loads.induct)
  case (1 t ts b bs m)
  show ?case
  proof (cases i)
    case 0
    have "\<forall>r\<in>set (regions ts bs). off r (t, length b)" using 1 by (auto simp: off_def)
    then show ?thesis using 0 by (simp add: loads_apart)
  next
    case (Suc j)
    then show ?thesis using 1 by simp
  qed
qed auto

definition on_grid :: "machine \<Rightarrow> bool" where
  "on_grid s \<longleftrightarrow> (\<exists>k. current_video (screen s) = video + 2 * k)"

lemma nc_print_current: "current_video (nc_print xs c) = current_video c + 2 * length xs"
  by (induction xs arbitrary: c) auto

lemma load_module_eq:
  assumes grid: "on_grid s" and src: "bytes_at (ram s) p (length (packed b)) = packed b"
    and len: "length b < 2 ^ 32" and apart: "off (t, length b) (p + 4, length b)"
  shows "\<exists>c. load_module p t s = Some (p + length (packed b), \<lparr>ram = write_bytes t b (ram s), screen = c\<rparr>) \<and>
    on_grid \<lparr>ram = write_bytes t b (ram s), screen = c\<rparr>"
proof -
  have parts: "bytes_at (ram s) p 4 = le32 (of_nat (length b))" "bytes_at (ram s) (p + 4) (length b) = b"
    using src bytes_at_append [of "ram s" p 4 "length b"] by (simp_all add: packed_def)
  then have sz: "read_uint_32 p s = (length b, p + 4)"
    using load32_le32 [OF parts(1)] len by (simp add: read_uint_32_def unat_of_nat take_bit_eq_mod)
  have cp: "snd (memcpy t (p + 4) (length b) (ram s)) = write_bytes t b (ram s)"
    using memcpy_exact [of t "p + 4" "length b" "ram s" 0] apart parts(2) by (auto simp: off_def)
  have u: "\<exists>n d. uint_to_base v base = Some (n, d)" if "2 \<le> base" for v base
    using uint_to_base_eq [OF that] by blast
  obtain k where k: "current_video (screen s) = video + 2 * k" using grid by (auto simp: on_grid_def)
  obtain d1 where d1: "nc_print_hex (p + 4) c = Some (nc_print d1 c)" for c
    using u [of 16 "p + 4"] by (auto simp: nc_print_hex_def nc_print_base_def)
  obtain d2 where d2: "nc_print_hex t c = Some (nc_print d2 c)" for c
    using u [of 16 t] by (auto simp: nc_print_hex_def nc_print_base_def)
  obtain d3 where d3: "nc_print_dec (length b) c = Some (nc_print d3 c)" for c
    using u [of 10 "length b"] by (auto simp: nc_print_dec_def nc_print_base_def)
  define c where "c = nc_print '' [Done]'' (nc_print '' bytes)'' (nc_print d3 (nc_print '' ('' (nc_print d2
    (nc_print '' to 0x'' (nc_print d1 (nc_print ''  Will copy module at 0x'' (screen s))))))))"
  have "current_video c = video + 2 * (k + 24 + length d1 + 6 + length d2 + 2 + length d3 + 7 + 7)"
    by (simp add: c_def nc_print_current k del: nc_print.simps)
  then obtain c' k' where "nc_newline c = Some c'" "current_video c' = video + 2 * k'"
    using nc_newline_steps by blast
  then show ?thesis
    by (simp add: load_module_def sz d1 d2 d3 cp on_grid_def packed_def add.assoc del: nc_print.simps flip: c_def)
qed

lemma load_loop_eq:
  assumes "on_grid s" "bytes_at (ram s) p (length (concat (map packed bs))) = concat (map packed bs)"
    "\<forall>b\<in>set bs. length b < 2 ^ 32" "length bs \<le> length ts"
    "\<forall>r\<in>set (regions ts bs). off r (p, length (concat (map packed bs)))"
  shows "\<exists>s'. load_loop (length bs) ts p s = Some s' \<and> ram s' = loads ts bs (ram s)"
  using assms
proof (induction bs arbitrary: ts p s)
  case (Cons b bs)
  then obtain t ts' where ts: "ts = t # ts'" by (cases ts) auto
  let ?n = "length (packed b)"
  have parts: "bytes_at (ram s) p ?n = packed b"
    "bytes_at (ram s) (p + ?n) (length (concat (map packed bs))) = concat (map packed bs)"
    using Cons.prems(2) bytes_at_append [of "ram s" p ?n] by simp_all
  have o: "off (t, length b) (p + 4, length b)" "off (t, length b) (p + ?n, length (concat (map packed bs)))"
    using Cons.prems(5) ts by (auto simp: off_def)
  obtain c where c: "load_module p t s = Some (p + ?n, \<lparr>ram = write_bytes t b (ram s), screen = c\<rparr>)"
    "on_grid \<lparr>ram = write_bytes t b (ram s), screen = c\<rparr>" (is "on_grid ?s")
    using load_module_eq [OF Cons.prems(1) parts(1) _ o(1)] Cons.prems(3) by auto
  have "bytes_at (ram ?s) (p + ?n) (length (concat (map packed bs))) = concat (map packed bs)"
    using parts(2) o(2) by (simp add: off_def bytes_at_write_apart)
  moreover have "\<forall>r\<in>set (regions ts' bs). off r (p + ?n, length (concat (map packed bs)))"
    using Cons.prems(5) ts by (auto simp: off_def)
  ultimately show ?case using Cons.IH [of ?s "p + ?n" ts'] c Cons.prems(3,4) ts by simp
qed (cases ts, simp_all)

abbreviation module_addresses :: "nat list" where
  "module_addresses \<equiv> [sample_code_module_Address, sample_data_module_address]"

lemma argp_parse_args:
  "length (args a) + length names \<le> MAX_FILES \<Longrightarrow> 0 < length (args a) + length names \<Longrightarrow>
   argp_parse (map ARGP_KEY_ARG names) a =
     Some (Parsed (a\<lparr>args := args a @ names, count := length (args a) + length names\<rparr>))"
  by (induction names arbitrary: a) (simp_all add: parse_opt_def)

lemma checkFiles_eq: "checkFiles fs names \<longleftrightarrow> (\<forall>f\<in>set names. fs f \<noteq> None)"
  by (induction names) auto

lemma packer_main_eq:
  assumes "map fs (f # names) = map Some (kern # modules)" "OUTPUT_FILE \<notin> set (f # names)"
    "length (f # names) \<le> MAX_FILES"
  shows "packer_main True (map ARGP_KEY_ARG (f # names)) fs =
    Some (0, fs(OUTPUT_FILE \<mapsto> packed_image kern modules))"
proof -
  have "fs g \<noteq> None" if "g \<in> set (f # names)" for g
  proof -
    have "fs g \<in> set (map fs (f # names))" using that by (simp only: set_map image_eqI)
    then show ?thesis unfolding assms(1) by auto
  qed
  then have "checkFiles fs (f # names)" unfolding checkFiles_eq by blast
  then show ?thesis
    using buildImage_eq [of fs f kern names modules OUTPUT_FILE] assms argp_parse_args [of _ "f # names"]
    by (simp add: packer_main_def)
qed

text \<open>C9: the module packer and the boot code are inverse. Packing a kernel and at most two
  modules succeeds; on a machine whose memory holds the image, with the kernel's end symbol
  behind the kernel binary, \<open>initialize_kernel_binary\<close> returns with every module, byte for
  byte, at its address and the bss cleared, if these ranges overlap neither each other nor
  the packed modules. The bss may overlap the packed modules, as it does in kernel.ld.\<close>

theorem packer_loader_roundtrip:
  assumes files: "map fs (f # names) = map Some (kern # modules)" "OUTPUT_FILE \<notin> set (f # names)"
    and two: "length modules \<le> 2" "\<forall>b\<in>set modules. length b < 2 ^ 32"
    and mem: "bytes_at (ram s) p (length (packed_image kern modules)) = packed_image kern modules" "on_grid s"
    and apart: "\<forall>r\<in>set (regions module_addresses modules).
      off r (p + length kern, length (packed_image kern modules) - length kern) \<and> off r (bss, eok - bss)"
      "sorted_wrt off (regions module_addresses modules)" "bss \<le> eok" "eok < 2 ^ 64"
  shows "packer_main True (map ARGP_KEY_ARG (f # names)) fs = Some (0, fs(OUTPUT_FILE \<mapsto> packed_image kern modules)) \<and>
    (\<exists>s'. initialize_kernel_binary (p + length kern) bss eok s = Some (get_stack_base eok, s') \<and>
      (\<forall>i<length modules. bytes_at (ram s') (module_addresses ! i) (length (modules ! i)) = modules ! i) \<and>
      bytes_at (ram s') bss (eok - bss) = replicate (eok - bss) 0)"
proof -
  have "length names = length modules" using files(1) by (metis length_map length_Cons nat.inject)
  then have pack: "packer_main True (map ARGP_KEY_ARG (f # names)) fs = Some (0, fs(OUTPUT_FILE \<mapsto> packed_image kern modules))"
    using packer_main_eq [OF files] two(1) by (simp add: MAX_FILES_def)
  let ?q = "p + length kern" and ?c = "concat (map packed modules)"
  have parts: "bytes_at (ram s) ?q 4 = le32 (of_nat (length modules))" "bytes_at (ram s) (?q + 4) (length ?c) = ?c"
    using mem(1) bytes_at_append [of "ram s" p "length kern" "4 + length ?c"]
      bytes_at_append [of "ram s" ?q 4 "length ?c"] by (simp_all add: packed_image_def)
  have n: "read_uint_32 ?q s = (length modules, ?q + 4)"
    using load32_le32 [OF parts(1)] two(1) by (simp add: read_uint_32_def unat_of_nat take_bit_eq_mod)
  have o: "\<forall>r\<in>set (regions module_addresses modules). off r (?q + 4, length ?c)"
    using apart(1) by (auto simp: off_def packed_image_def)
  obtain s1 where s1: "load_loop (length modules) module_addresses (?q + 4) s = Some s1"
    "ram s1 = loads module_addresses modules (ram s)"
    using load_loop_eq [OF mem(2) parts(2) two(2) _ o] two(1) by auto
  let ?s = "clear_bss bss (eok - bss) s1"
  have ini: "initialize_kernel_binary ?q bss eok s = Some (get_stack_base eok, ?s)"
    using s1(1) n apart(3,4) by (simp add: initialize_kernel_binary_def load_modules_def sub64_id Let_def)
  have ram: "ram ?s = write_bytes bss (replicate (eok - bss) 0) (loads module_addresses modules (ram s))"
    by (simp add: clear_bss_def memset_def memset_loop_eq s1(2))
  have "bytes_at (ram ?s) (module_addresses ! i) (length (modules ! i)) = modules ! i" if i: "i < length modules" for i
  proof -
    have "(module_addresses ! i, length (modules ! i)) \<in> set (regions module_addresses modules)"
      using i two(1) unfolding regions_def by (force simp: set_zip)
    then have "off (module_addresses ! i, length (modules ! i)) (bss, eok - bss)" using apart(1) by blast
    then have "bytes_at (ram ?s) (module_addresses ! i) (length (modules ! i)) =
        bytes_at (loads module_addresses modules (ram s)) (module_addresses ! i) (length (modules ! i))"
      unfolding ram by (intro bytes_at_write_apart) (auto simp: off_def)
    then show ?thesis using loads_exact [of modules module_addresses i] apart(2) two(1) i by simp
  qed
  moreover have "bytes_at (ram ?s) bss (eok - bss) = replicate (eok - bss) 0"
    unfolding ram using bytes_at_write [of bss "replicate (eok - bss) 0"] by simp
  ultimately show ?thesis using pack ini by blast
qed

text \<open>A kernel of two bytes and two small modules, packed at 0x100000.\<close>

definition demo_files :: files where
  "demo_files = [''kernel.bin'' \<mapsto> [7, 8], ''code'' \<mapsto> [1, 2, 3, 4], ''data'' \<mapsto> [5]]"

definition demo_machine :: machine where
  "demo_machine = \<lparr>ram = write_bytes 0x100000 (packed_image [7, 8] [[1, 2, 3, 4], [5]]) (\<lambda>_. 9),
     screen = \<lparr>video_mem = \<lambda>_. 0, current_video = video\<rparr>\<rparr>"

theorem packer_loader_roundtrip_witness:
  "packer_main True (map ARGP_KEY_ARG [''kernel.bin'', ''code'', ''data'']) demo_files =
      Some (0, demo_files(OUTPUT_FILE \<mapsto> packed_image [7, 8] [[1, 2, 3, 4], [5]])) \<and>
    (\<exists>s'. initialize_kernel_binary (0x100000 + length [7, 8 :: byte]) 0x100010 0x100040 demo_machine =
        Some (get_stack_base 0x100040, s') \<and>
      (\<forall>i<length [[1, 2, 3, 4], [5 :: byte]]. bytes_at (ram s') (module_addresses ! i)
         (length ([[1, 2, 3, 4], [5 :: byte]] ! i)) = [[1, 2, 3, 4], [5]] ! i) \<and>
      bytes_at (ram s') 0x100010 (0x100040 - 0x100010) = replicate (0x100040 - 0x100010) 0)"
proof (rule packer_loader_roundtrip)
  show "on_grid demo_machine" by (simp add: on_grid_def demo_machine_def)
  show "bytes_at (ram demo_machine) 0x100000 (length (packed_image [7, 8] [[1, 2, 3, 4], [5]])) =
      packed_image [7, 8] [[1, 2, 3, 4], [5]]"
    by (simp add: demo_machine_def)
qed (simp_all add: demo_files_def OUTPUT_FILE_def off_def packed_image_def sample_code_module_Address_def
    sample_data_module_address_def regions_def)

end
