(* ===== verification/Blocking.thy ===== *)
theory Blocking
  imports Scheduler
begin

text \<open>
  The operations that give up the processor: waiting for a semaphore (semaphore.c and
  semaphores.asm), ending and blocking processes and waiting for a child (process.c,
  basicScheduler.c). A call that puts the current process to sleep leaves the state after the
  context switch; what the process does when it runs again is a second operation, named
  \<open>_resume\<close>, on the state of that later time.
\<close>

section \<open>Waiting for a semaphore\<close>

datatype 'a outcome = Returned 'a | Sleeping

definition whiff :: "nat \<Rightarrow> kernel \<Rightarrow> kernel option" where
  "whiff i s =
     (let p = current_process_id s
      in if p < 0 then Some s
         else do {
           (r, s) \<leftarrow> add_to_queue i p s;
           finish_current_tick (snd (os_block_current_process s))
         })"

text \<open>
  One exchange of \<open>enter_region\<close>: the lock is taken, or the process sleeps and starts over with
  the same operation when it runs again.
\<close>

definition enter_region :: "nat \<Rightarrow> kernel \<Rightarrow> (unit outcome \<times> kernel) option" where
  "enter_region i s =
     (let old = is_locked (sem_at s i); s = set_sem i ((sem_at s i)\<lparr>is_locked := 1\<rparr>) s
      in if old = 0 then Some (Returned (), s)
         else do { s \<leftarrow> whiff i s; Some (Sleeping, s) })"

text \<open>The search of the caller in \<open>allowed_processes\<close>.\<close>

definition sem_allowed :: "int \<Rightarrow> my_sem_t \<Rightarrow> bool option" where
  "sem_allowed p x =
     (let ps = take (nat (allowed_process_count x)) (allowed_processes x)
      in if p \<in> set ps then Some True
         else if nat (allowed_process_count x) \<le> length (allowed_processes x) then Some False else None)"

definition my_sem_wait :: "string \<Rightarrow> kernel \<Rightarrow> (int outcome \<times> kernel) option" where
  "my_sem_wait n s =
     (case locate_sem n s of
        None \<Rightarrow> Some (Returned (- 1), s)
      | Some i \<Rightarrow> do {
          ok \<leftarrow> sem_allowed (current_process_id s) (sem_at s i);
          if \<not> ok then Some (Returned (- 1), s)
          else do {
            (r, s) \<leftarrow> enter_region i s;
            Some (case r of Returned _ \<Rightarrow> Returned 0 | Sleeping \<Rightarrow> Sleeping, s)
          }
        })"

definition my_sem_wait_resume :: "nat \<Rightarrow> kernel \<Rightarrow> (int outcome \<times> kernel) option" where
  "my_sem_wait_resume i s = do {
     (r, s) \<leftarrow> enter_region i s;
     Some (case r of Returned _ \<Rightarrow> Returned 0 | Sleeping \<Rightarrow> Sleeping, s)
   }"

section \<open>Ending processes\<close>

text \<open>The guard \<open>pcb == NULL || pcb->process == NULL || pid==SHELL_PID\<close>.\<close>

definition not_killable :: "nat \<Rightarrow> int \<Rightarrow> kernel \<Rightarrow> bool" where
  "not_killable pcb p s \<longleftrightarrow> pcb = 0 \<or> process (pcbs s pcb) = 0 \<or> p = SHELL_PID"

definition force_kill :: "int \<Rightarrow> kernel \<Rightarrow> (int \<times> kernel) option" where
  "force_kill p s = do {
     pcb \<leftarrow> get_pcb_entry s p;
     if not_killable pcb p s then Some (- 1, s)
     else do {
       let s = (if foreground_pid s = pid_of s pcb then s\<lparr>foreground_pid := SHELL_PID\<rparr> else s);
       s \<leftarrow> reassign_children_to_shell p s;
       (r, s) \<leftarrow> my_sem_post (sem_name (process_of s pcb)) s;
       let s = set_status pcb DEAD s;
       (r, s) \<leftarrow> add_process_to_removal_queue (pid_of s pcb) s;
       s \<leftarrow> (if p = current_process_id s then finish_current_tick s else Some s);
       Some (1, s)
     }
   }"

definition kill_process :: "int \<Rightarrow> kernel \<Rightarrow> (int \<times> kernel) option" where
  "kill_process p s = do {
     pcb \<leftarrow> get_pcb_entry s p;
     if not_killable pcb p s then Some (- 1, s)
     else do {
       s \<leftarrow> reassign_children_to_shell p s;
       parent_pcb \<leftarrow> get_pcb_entry s (parent_pid (process_of s pcb));
       (r, s) \<leftarrow> my_sem_post (sem_name (process_of s pcb)) s;
       s \<leftarrow> (if parent_pid (process_of s pcb) = OS_PID \<or> parent_pcb = 0 \<or> status_of s parent_pcb = DEAD \<or>
               status_of s pcb = ZOMBIE
            then do {
              (r, s) \<leftarrow> add_process_to_removal_queue (pid_of s pcb) (set_status pcb DEAD s);
              Some s
            }
            else let s = set_status pcb ZOMBIE s in my_sem_close (sem_name (process_of s pcb)) s);
       s \<leftarrow> (if p = current_process_id s then finish_current_tick s else Some s);
       Some (0, s)
     }
   }"

definition kill_foreground_process :: "kernel \<Rightarrow> (int \<times> kernel) option" where
  "kill_foreground_process s =
     (if foreground_pid s = SHELL_PID then Some (- 1, s) else force_kill (foreground_pid s) s)"

definition kill_current_process :: "kernel \<Rightarrow> kernel option" where
  "kill_current_process s =
     (if current_pcb s = 0 then None else map_option snd (kill_process (pid_of s (current_pcb s)) s))"

text \<open>
  What \<open>process_wrapper\<close> does when the entry point returns. A process that kills itself does not
  come back from \<open>force_kill\<close> unless the scheduler is off: the context switch inside it leaves the
  process DEAD, which is never picked again. \<open>suicide\<close> tells, on the state before the call.
\<close>

definition suicide :: "int \<Rightarrow> int \<Rightarrow> kernel \<Rightarrow> bool" where
  "suicide p r s \<longleftrightarrow> r = 1 \<and> p = current_process_id s \<and> scheduler_status s \<noteq> 0"

definition process_wrapper_end :: "kernel \<Rightarrow> kernel option" where
  "process_wrapper_end s =
     (if current_pcb s = 0 then None
      else do {
        let p = pid_of s (current_pcb s);
        (r, s') \<leftarrow> force_kill p s;
        if suicide p r s then Some s' else finish_current_tick s'
      })"

text \<open>
  \<open>waitpid\<close> ignores the result of \<open>my_sem_wait\<close>: a caller that the semaphore denies kills the
  process at once. Its second half runs when the wait is over.
\<close>

definition waitpid_end :: "nat \<Rightarrow> int \<Rightarrow> kernel \<Rightarrow> (int outcome \<times> kernel) option" where
  "waitpid_end pcb ret s = do { (r, s) \<leftarrow> force_kill (pid_of s pcb) s; Some (Returned ret, s) }"

definition waitpid :: "int \<Rightarrow> kernel \<Rightarrow> (int outcome \<times> kernel) option" where
  "waitpid p s = do {
     pcb \<leftarrow> get_pcb_entry s p;
     if pcb = 0 then Some (Returned (- 1), s)
     else do {
       let ret = pid_of s pcb;
       (r, s) \<leftarrow> my_sem_wait (sem_name (process_of s pcb)) s;
       case r of Sleeping \<Rightarrow> Some (Sleeping, s) | Returned _ \<Rightarrow> waitpid_end pcb ret s
     }
   }"

definition waitpid_resume :: "nat \<Rightarrow> int \<Rightarrow> nat \<Rightarrow> kernel \<Rightarrow> (int outcome \<times> kernel) option" where
  "waitpid_resume pcb ret i s = do {
     (r, s) \<leftarrow> my_sem_wait_resume i s;
     case r of Sleeping \<Rightarrow> Some (Sleeping, s) | Returned _ \<Rightarrow> waitpid_end pcb ret s
   }"

text \<open>\<open>block_process\<close> toggles: a blocked process becomes ready.\<close>

definition block_process :: "int \<Rightarrow> kernel \<Rightarrow> (int \<times> kernel) option" where
  "block_process p s = do {
     pcb \<leftarrow> get_pcb_entry s p;
     if pcb = 0 then Some (- 1, s)
     else if status_of s pcb = READY \<or> status_of s pcb = RUNNING then do {
       let s = set_status pcb BLOCKED s;
       s \<leftarrow> (if pcb = current_pcb s then finish_current_tick s else Some s);
       Some (1, s)
     }
     else if status_of s pcb = BLOCKED then Some (2, set_status pcb READY s)
     else Some (- 1, s)
   }"

end
