(* ===== verification/Pipe.thy ===== *)
theory Pipe
  imports Blocking C_Memory
begin

text \<open>
  Kernel/pipe.c: ten pipes, each a buffer of 1024 bytes on the heap with two semaphores.
  The code keeps the index that \<open>my_sem_open\<close> returns and passes it on as the address of a
  name, so what a wait or post on a pipe means depends on the string that stands at that low
  address: the argument \<open>low\<close> gives it, and is \<open>None\<close> where the address cannot be read. A
  transfer that has to wait is left at a byte index and goes on with the \<open>_resume\<close> operation.
\<close>

definition PIPE_BUFFER_SIZE :: nat where "PIPE_BUFFER_SIZE = 1024"
definition MAX_PIPES :: nat where "MAX_PIPES = 10"
definition EOF_BYTE :: byte where "EOF_BYTE = 1"

record pipe =
  pipe_name :: int
  read_sem_id :: int
  write_sem_id :: int
  write_pos :: nat
  read_pos :: nat
  pipe_buffer :: nat
  eof :: nat
  left_to_read :: int

record pipes =
  kern :: kernel
  bytes_of :: memory
  pipe_array :: "pipe list"
  max_pipe :: int
  first_eof :: nat

text \<open>Access to \<open>pipe_array[id]\<close>; the array is not checked by the code.\<close>

definition valid_id :: "int \<Rightarrow> pipes \<Rightarrow> bool" where
  "valid_id i s \<longleftrightarrow> 0 \<le> i \<and> i < int (length (pipe_array s))"

definition pipe_at :: "int \<Rightarrow> pipes \<Rightarrow> pipe" where
  "pipe_at i s = pipe_array s ! nat i"

definition set_pipe :: "int \<Rightarrow> pipe \<Rightarrow> pipes \<Rightarrow> pipes" where
  "set_pipe i p s = s\<lparr>pipe_array := (pipe_array s)[nat i := p]\<rparr>"

definition init_pipes :: "pipes \<Rightarrow> pipes" where
  "init_pipes s = s\<lparr>pipe_array := map (\<lambda>p. p\<lparr>pipe_name := - 1\<rparr>) (pipe_array s)\<rparr>"

section \<open>Creating and finding\<close>

text \<open>The search: \<open>Inl found\<close>, or \<open>Inr ()\<close> when the name is taken. Index 0 does not stop it.\<close>

fun find_slot :: "pipe list \<Rightarrow> int \<Rightarrow> nat \<Rightarrow> nat \<Rightarrow> nat + unit" where
  "find_slot [] n i found = Inl found"
| "find_slot (p # ps) n i found =
     (if found \<noteq> 0 then Inl found
      else let found = (if pipe_name p = - 1 then i else found)
           in if pipe_name p = n then Inr () else find_slot ps n (i + 1) found)"

definition create_pipe :: "int \<Rightarrow> pipes \<Rightarrow> (int \<times> pipes) option" where
  "create_pipe n s =
     (case find_slot (pipe_array s) n 0 0 of
        Inr _ \<Rightarrow> Some (- 1, s)
      | Inl found \<Rightarrow>
          if found \<ge> length (pipe_array s) then None
          else do {
            (r, k) \<leftarrow> my_sem_open 0 ''pipe_read'' (kern s);
            (w, k) \<leftarrow> my_sem_open PIPE_BUFFER_SIZE ''pipe_write'' k;
            (b, k) \<leftarrow> kmalloc k PIPE_BUFFER_SIZE;
            let s = set_pipe (int found) \<lparr>pipe_name = n, read_sem_id = r, write_sem_id = w, write_pos = 0,
              read_pos = 0, pipe_buffer = b, eof = 0, left_to_read = 0\<rparr> (s\<lparr>kern := k\<rparr>);
            Some (int found, if n \<ge> max_pipe s then s\<lparr>max_pipe := n + 1\<rparr> else s)
          })"

definition create_pipe_anonymous :: "pipes \<Rightarrow> (int \<times> pipes) option" where
  "create_pipe_anonymous s = create_pipe (max_pipe s) s"

fun pipe_id_loop :: "pipe list \<Rightarrow> int \<Rightarrow> nat \<Rightarrow> int" where
  "pipe_id_loop [] n i = - 1"
| "pipe_id_loop (p # ps) n i = (if pipe_name p = n then int i else pipe_id_loop ps n (i + 1))"

definition get_pipe_id :: "int \<Rightarrow> pipes \<Rightarrow> int" where
  "get_pipe_id n s = pipe_id_loop (pipe_array s) n 0"

definition get_pipe :: "int \<Rightarrow> pipes \<Rightarrow> pipe option" where
  "get_pipe i s = (if valid_id i s then Some (pipe_at i s) else None)"

section \<open>Semaphores by a misread name\<close>

definition pipe_wait :: "(int \<Rightarrow> string option) \<Rightarrow> int \<Rightarrow> pipes \<Rightarrow> (int outcome \<times> pipes) option" where
  "pipe_wait low q s = do {
     n \<leftarrow> low q;
     (r, k) \<leftarrow> my_sem_wait n (kern s);
     Some (r, s\<lparr>kern := k\<rparr>)
   }"

definition pipe_post :: "(int \<Rightarrow> string option) \<Rightarrow> int \<Rightarrow> pipes \<Rightarrow> pipes option" where
  "pipe_post low q s = do {
     n \<leftarrow> low q;
     (r, k) \<leftarrow> my_sem_post n (kern s);
     Some (s\<lparr>kern := k\<rparr>)
   }"

section \<open>Transfer\<close>

datatype transfer = Finished int | Waiting nat

text \<open>\<open>pipe_buffer[write_pos++] = b; left_to_read++; my_sem_post(read_sem_id)\<close>.\<close>

definition put_byte :: "(int \<Rightarrow> string option) \<Rightarrow> int \<Rightarrow> byte \<Rightarrow> pipes \<Rightarrow> pipes option" where
  "put_byte low i b s =
     (let p = pipe_at i s;
          s = s\<lparr>bytes_of := (bytes_of s)(pipe_buffer p + write_pos p := b)\<rparr>;
          s = set_pipe i (p\<lparr>write_pos := write_pos p + 1, left_to_read := left_to_read p + 1\<rparr>) s
      in pipe_post low (read_sem_id p) s)"

text \<open>The body of the loop of \<open>pipe_write\<close> after the wait; the Boolean says that it goes on.\<close>

definition write_body :: "(int \<Rightarrow> string option) \<Rightarrow> int \<Rightarrow> byte \<Rightarrow> pipes \<Rightarrow> (bool \<times> pipes) option" where
  "write_body low i b s =
     (let p = pipe_at i s;
          s = (if write_pos p = PIPE_BUFFER_SIZE then set_pipe i (p\<lparr>write_pos := 0\<rparr>) s else s)
      in if first_eof s \<noteq> 0 \<and> eof p \<noteq> 0
         then do { s \<leftarrow> put_byte low i EOF_BYTE (s\<lparr>first_eof := 0\<rparr>); Some (False, s) }
         else do { s \<leftarrow> put_byte low i b s; Some (True, s) })"

text \<open>The loop over the \<open>n\<close> bytes from index \<open>j\<close> on; \<open>message\<close> is their address.\<close>

fun write_loop :: "(int \<Rightarrow> string option) \<Rightarrow> int \<Rightarrow> nat \<Rightarrow> nat \<Rightarrow> nat \<Rightarrow> pipes \<Rightarrow> (transfer \<times> pipes) option" where
  "write_loop low i message j 0 s = Some (Finished 1, s)"
| "write_loop low i message j (Suc n) s = do {
     (r, s) \<leftarrow> pipe_wait low (write_sem_id (pipe_at i s)) s;
     case r of
       Sleeping \<Rightarrow> Some (Waiting j, s)
     | Returned _ \<Rightarrow> do {
         (go, s) \<leftarrow> write_body low i (bytes_of s (message + j)) s;
         if go then write_loop low i message (j + 1) n s else Some (Finished (- 1), s)
       }
   }"

definition pipe_write :: "(int \<Rightarrow> string option) \<Rightarrow> int \<Rightarrow> nat \<Rightarrow> nat \<Rightarrow> pipes \<Rightarrow> (transfer \<times> pipes) option" where
  "pipe_write low i message sz s =
     (if \<not> valid_id i s then None
      else if eof (pipe_at i s) \<noteq> 0 \<and> first_eof s = 0 then Some (Finished (- 1), s)
      else write_loop low i message 0 sz s)"

definition pipe_write_resume ::
  "(int \<Rightarrow> string option) \<Rightarrow> int \<Rightarrow> nat \<Rightarrow> nat \<Rightarrow> nat \<Rightarrow> pipes \<Rightarrow> (transfer \<times> pipes) option" where
  "pipe_write_resume low i message sz j s = do {
     (go, s) \<leftarrow> write_body low i (bytes_of s (message + j)) s;
     if go then write_loop low i message (j + 1) (sz - (j + 1)) s else Some (Finished (- 1), s)
   }"

text \<open>The body of the loop of \<open>pipe_read\<close>: an end-of-file byte is delivered and ends the loop.\<close>

definition read_body :: "(int \<Rightarrow> string option) \<Rightarrow> int \<Rightarrow> nat \<Rightarrow> pipes \<Rightarrow> (bool \<times> pipes) option" where
  "read_body low i dest s =
     (let p = pipe_at i s;
          p = (if read_pos p = PIPE_BUFFER_SIZE then p\<lparr>read_pos := 0\<rparr> else p);
          b = bytes_of s (pipe_buffer p + read_pos p);
          s = set_pipe i (p\<lparr>read_pos := read_pos p + 1, left_to_read := left_to_read p - 1\<rparr>)
            (s\<lparr>bytes_of := (bytes_of s)(dest := b)\<rparr>)
      in do { s \<leftarrow> pipe_post low (write_sem_id p) s; Some (b \<noteq> EOF_BYTE, s) })"

fun read_loop :: "(int \<Rightarrow> string option) \<Rightarrow> int \<Rightarrow> nat \<Rightarrow> nat \<Rightarrow> nat \<Rightarrow> pipes \<Rightarrow> (transfer \<times> pipes) option" where
  "read_loop low i dest j 0 s = Some (Finished 0, s)"
| "read_loop low i dest j (Suc n) s = do {
     (r, s) \<leftarrow> pipe_wait low (read_sem_id (pipe_at i s)) s;
     case r of
       Sleeping \<Rightarrow> Some (Waiting j, s)
     | Returned _ \<Rightarrow> do {
         (go, s) \<leftarrow> read_body low i (dest + j) s;
         if go then read_loop low i dest (j + 1) n s else Some (Finished (- 1), s)
       }
   }"

definition pipe_read :: "(int \<Rightarrow> string option) \<Rightarrow> int \<Rightarrow> nat \<Rightarrow> nat \<Rightarrow> pipes \<Rightarrow> (transfer \<times> pipes) option" where
  "pipe_read low i dest sz s =
     (if \<not> valid_id i s then None
      else if eof (pipe_at i s) \<noteq> 0 \<and> left_to_read (pipe_at i s) = 0
           then Some (Finished (- 1), s\<lparr>bytes_of := (bytes_of s)(dest := EOF_BYTE)\<rparr>)
      else read_loop low i dest 0 sz s)"

definition pipe_read_resume ::
  "(int \<Rightarrow> string option) \<Rightarrow> int \<Rightarrow> nat \<Rightarrow> nat \<Rightarrow> nat \<Rightarrow> pipes \<Rightarrow> (transfer \<times> pipes) option" where
  "pipe_read_resume low i dest sz j s = do {
     (go, s) \<leftarrow> read_body low i (dest + j) s;
     if go then read_loop low i dest (j + 1) (sz - (j + 1)) s else Some (Finished (- 1), s)
   }"

section \<open>Closing and end of file\<close>

definition close_pipe :: "(int \<Rightarrow> string option) \<Rightarrow> int \<Rightarrow> pipes \<Rightarrow> pipes option" where
  "close_pipe low i s =
     (if \<not> valid_id i s then None
      else do {
        let p = pipe_at i s;
        let s = set_pipe i (p\<lparr>pipe_name := - 1, read_pos := 0, write_pos := 0, eof := 0\<rparr>) s;
        n \<leftarrow> low (read_sem_id p);
        k \<leftarrow> my_sem_close n (kern s);
        n \<leftarrow> low (write_sem_id p);
        k \<leftarrow> my_sem_close n k;
        k \<leftarrow> kfree k (pipe_buffer p);
        Some (s\<lparr>kern := k\<rparr>)
      })"

text \<open>\<open>send_eof\<close> has an empty body.\<close>

definition send_eof :: "int \<Rightarrow> pipes \<Rightarrow> pipes" where
  "send_eof i s = s"

definition send_eof_to_foreground :: "pipes \<Rightarrow> pipes option" where
  "send_eof_to_foreground s = do {
     pcb \<leftarrow> get_pcb_entry (kern s) (foreground_pid (kern s));
     if pcb = 0 then Some s
     else if pid_of (kern s) pcb = 2 then Some s
     else let i = fr (process_of (kern s) pcb)
          in if valid_id i s then Some (set_pipe i ((pipe_at i s)\<lparr>eof := 1\<rparr>) s) else None
   }"

definition eof_sent :: "int \<Rightarrow> pipes \<Rightarrow> nat option" where
  "eof_sent i s = map_option eof (get_pipe i s)"

section \<open>A pipe as a ring of bytes\<close>

text \<open>What the two loops do to the buffer, position by position.\<close>

fun ring_write :: "nat \<Rightarrow> nat \<Rightarrow> byte list \<Rightarrow> memory \<Rightarrow> memory" where
  "ring_write buf w [] m = m"
| "ring_write buf w (b # bs) m = ring_write buf (w mod PIPE_BUFFER_SIZE + 1) bs (m(buf + w mod PIPE_BUFFER_SIZE := b))"

fun ring_read :: "nat \<Rightarrow> nat \<Rightarrow> nat \<Rightarrow> memory \<Rightarrow> byte list" where
  "ring_read buf r 0 m = []"
| "ring_read buf r (Suc n) m = m (buf + r mod PIPE_BUFFER_SIZE) # ring_read buf (r mod PIPE_BUFFER_SIZE + 1) n m"

fun ring_pos :: "nat \<Rightarrow> nat \<Rightarrow> nat" where
  "ring_pos w 0 = w"
| "ring_pos w (Suc n) = ring_pos (w mod PIPE_BUFFER_SIZE + 1) n"

lemma ring_step: "(w mod PIPE_BUFFER_SIZE + 1 + k) mod PIPE_BUFFER_SIZE = (w + Suc k) mod PIPE_BUFFER_SIZE"
  using mod_add_left_eq [of w PIPE_BUFFER_SIZE "Suc k"] by simp

lemma ring_write_outside:
  "a < buf \<or> buf + PIPE_BUFFER_SIZE \<le> a \<Longrightarrow> ring_write buf w bs m a = m a"
proof (induction buf w bs m rule: ring_write.induct)
  case (2 buf w b bs m)
  have "w mod PIPE_BUFFER_SIZE < PIPE_BUFFER_SIZE" by (simp add: PIPE_BUFFER_SIZE_def)
  then have "a \<noteq> buf + w mod PIPE_BUFFER_SIZE" using 2 by linarith
  then show ?case using "2.IH" [OF "2.prems"] unfolding ring_write.simps by (metis fun_upd_other)
qed simp

text \<open>Different offsets below the size of the ring are different places.\<close>

lemma ring_apart:
  assumes "(w + i) mod PIPE_BUFFER_SIZE = (w + j) mod PIPE_BUFFER_SIZE" "i < PIPE_BUFFER_SIZE" "j < PIPE_BUFFER_SIZE"
  shows "i = j"
proof (cases "i \<le> j")
  case True
  obtain s where "w + j = w + i + PIPE_BUFFER_SIZE * s"
    using mod_eq_nat1E [of "w + j" PIPE_BUFFER_SIZE "w + i"] assms(1) True by auto
  then show ?thesis using assms(3) by (cases s) auto
next
  case False
  obtain s where "w + i = w + j + PIPE_BUFFER_SIZE * s"
    using mod_eq_nat1E [of "w + i" PIPE_BUFFER_SIZE "w + j"] assms(1) False by auto
  then show ?thesis using assms(2) by (cases s) auto
qed

lemma ring_write_keeps:
  "length bs < PIPE_BUFFER_SIZE \<Longrightarrow> (\<And>k. k < length bs \<Longrightarrow> (w + k) mod PIPE_BUFFER_SIZE \<noteq> x) \<Longrightarrow>
   ring_write buf w bs m (buf + x) = m (buf + x)"
proof (induction bs arbitrary: w m)
  case (Cons b bs)
  have "(w mod PIPE_BUFFER_SIZE + 1 + k) mod PIPE_BUFFER_SIZE \<noteq> x" if "k < length bs" for k
    using Cons.prems(2) [of "Suc k"] that by (simp only: ring_step) simp
  moreover have "w mod PIPE_BUFFER_SIZE \<noteq> x" using Cons.prems(2) [of 0] by simp
  ultimately show ?case using Cons by simp
qed simp

lemma ring_write_nth:
  "length bs \<le> PIPE_BUFFER_SIZE \<Longrightarrow> k < length bs \<Longrightarrow>
   ring_write buf w bs m (buf + (w + k) mod PIPE_BUFFER_SIZE) = bs ! k"
proof (induction bs arbitrary: w m k)
  case (Cons b bs)
  let ?m = "m(buf + w mod PIPE_BUFFER_SIZE := b)" and ?w = "w mod PIPE_BUFFER_SIZE + 1"
  show ?case
  proof (cases k)
    case 0
    have "(?w + j) mod PIPE_BUFFER_SIZE \<noteq> w mod PIPE_BUFFER_SIZE" if "j < length bs" for j
    proof
      assume "(?w + j) mod PIPE_BUFFER_SIZE = w mod PIPE_BUFFER_SIZE"
      then have "(w + Suc j) mod PIPE_BUFFER_SIZE = (w + 0) mod PIPE_BUFFER_SIZE" by (simp only: ring_step) simp
      then show False using ring_apart [of w "Suc j" 0] that Cons.prems(1) by (simp add: PIPE_BUFFER_SIZE_def)
    qed
    then have "ring_write buf ?w bs ?m (buf + w mod PIPE_BUFFER_SIZE) = ?m (buf + w mod PIPE_BUFFER_SIZE)"
      using Cons.prems(1) by (intro ring_write_keeps) simp_all
    then show ?thesis using 0 by simp
  next
    case (Suc j)
    then have "ring_write buf ?w bs ?m (buf + (?w + j) mod PIPE_BUFFER_SIZE) = bs ! j"
      using Cons.IH [of j ?w ?m] Cons.prems Suc_leD by (simp only: length_Cons Suc_less_eq)
    then show ?thesis using Suc by (simp only: ring_step ring_write.simps nth_Cons_Suc)
  qed
qed simp

lemma length_ring_read [simp]: "length (ring_read buf r n m) = n"
  by (induction n arbitrary: r) auto

lemma ring_read_nth: "k < n \<Longrightarrow> ring_read buf r n m ! k = m (buf + (r + k) mod PIPE_BUFFER_SIZE)"
proof (induction n arbitrary: r k)
  case (Suc n)
  show ?case
  proof (cases k)
    case (Suc j)
    then have "ring_read buf (r mod PIPE_BUFFER_SIZE + 1) n m ! j =
        m (buf + (r mod PIPE_BUFFER_SIZE + 1 + j) mod PIPE_BUFFER_SIZE)"
      using Suc.IH Suc.prems by simp
    then show ?thesis using Suc by (simp only: ring_step) simp
  qed simp
qed simp

lemma ring_roundtrip:
  assumes "r mod PIPE_BUFFER_SIZE = w mod PIPE_BUFFER_SIZE" "length bs \<le> PIPE_BUFFER_SIZE"
  shows "ring_read buf r (length bs) (ring_write buf w bs m) = bs"
proof (rule nth_equalityI)
  fix k assume "k < length (ring_read buf r (length bs) (ring_write buf w bs m))"
  then have k: "k < length bs" by simp
  have "(r + k) mod PIPE_BUFFER_SIZE = (w + k) mod PIPE_BUFFER_SIZE" using assms(1) by (rule mod_add_cong) simp
  then show "ring_read buf r (length bs) (ring_write buf w bs m) ! k = bs ! k"
    using ring_write_nth [OF assms(2) k] by (simp add: ring_read_nth k)
qed simp

section \<open>Transfers that no semaphore holds up\<close>

text \<open>
  Neither misread name of pipe \<open>i\<close> belongs to an open semaphore: waits are refused and posts
  fail, both silently.
\<close>

definition quiet :: "(int \<Rightarrow> string option) \<Rightarrow> int \<Rightarrow> pipes \<Rightarrow> bool" where
  "quiet low i s \<longleftrightarrow> valid_id i s \<and> (\<forall>q\<in>{read_sem_id (pipe_at i s), write_sem_id (pipe_at i s)}.
     \<exists>n. low q = Some n \<and> locate_sem n (kern s) = None)"

lemma quiet_wait: "locate_sem n (kern s) = None \<Longrightarrow> low q = Some n \<Longrightarrow> pipe_wait low q s = Some (Returned (- 1), s)"
  by (simp add: pipe_wait_def my_sem_wait_def)

lemma quiet_post: "locate_sem n (kern s) = None \<Longrightarrow> low q = Some n \<Longrightarrow> pipe_post low q s = Some s"
  by (simp add: pipe_post_def my_sem_post_def)

lemma set_pipe_simps [simp]:
  "kern (set_pipe i p s) = kern s" "bytes_of (set_pipe i p s) = bytes_of s" "first_eof (set_pipe i p s) = first_eof s"
  "valid_id i (set_pipe j p s) = valid_id i s" "valid_id i s \<Longrightarrow> pipe_at i (set_pipe i p s) = p"
  "set_pipe i p (set_pipe i q s) = set_pipe i p s"
  by (auto simp: set_pipe_def valid_id_def pipe_at_def)

lemma bytes_of_simps [simp]:
  "pipe_at i (s\<lparr>bytes_of := m\<rparr>) = pipe_at i s" "valid_id i (s\<lparr>bytes_of := m\<rparr>) = valid_id i s"
  "set_pipe i p (s\<lparr>bytes_of := m\<rparr>) = (set_pipe i p s)\<lparr>bytes_of := m\<rparr>"
  by (simp_all add: set_pipe_def valid_id_def pipe_at_def)

text \<open>The pipe after writing or reading \<open>n\<close> bytes.\<close>

definition wrote :: "nat \<Rightarrow> pipe \<Rightarrow> pipe" where
  "wrote n p = p\<lparr>write_pos := ring_pos (write_pos p) n, left_to_read := left_to_read p + int n\<rparr>"

definition did_read :: "nat \<Rightarrow> pipe \<Rightarrow> pipe" where
  "did_read n p = p\<lparr>read_pos := ring_pos (read_pos p) n, left_to_read := left_to_read p - int n\<rparr>"

lemma wrap_pos: "w \<le> PIPE_BUFFER_SIZE \<Longrightarrow> (if w = PIPE_BUFFER_SIZE then 0 else w) = w mod PIPE_BUFFER_SIZE"
  by auto

lemma write_body_quiet:
  assumes "quiet low i s" "eof (pipe_at i s) = 0" "write_pos (pipe_at i s) \<le> PIPE_BUFFER_SIZE"
  shows "write_body low i b s = Some (True, set_pipe i (wrote 1 (pipe_at i s)) (s\<lparr>bytes_of := (bytes_of s)
     (pipe_buffer (pipe_at i s) + write_pos (pipe_at i s) mod PIPE_BUFFER_SIZE := b)\<rparr>))"
proof -
  obtain n where n: "low (read_sem_id (pipe_at i s)) = Some n" "locate_sem n (kern s) = None"
    using assms(1) by (auto simp: quiet_def)
  have v: "valid_id i s" using assms(1) by (simp add: quiet_def)
  show ?thesis
    using n v assms(2) wrap_pos [OF assms(3)]
    by (simp add: write_body_def put_byte_def Let_def quiet_post wrote_def del: fun_upd_apply split: if_splits)
qed

lemma read_body_quiet:
  assumes "quiet low i s" "read_pos (pipe_at i s) \<le> PIPE_BUFFER_SIZE"
  shows "read_body low i dest s = (let p = pipe_at i s; b = bytes_of s (pipe_buffer p + read_pos p mod PIPE_BUFFER_SIZE)
    in Some (b \<noteq> EOF_BYTE, set_pipe i (did_read 1 p) (s\<lparr>bytes_of := (bytes_of s)(dest := b)\<rparr>)))"
proof -
  obtain n where n: "low (write_sem_id (pipe_at i s)) = Some n" "locate_sem n (kern s) = None"
    using assms(1) by (auto simp: quiet_def)
  have v: "valid_id i s" using assms(1) by (simp add: quiet_def)
  show ?thesis
    using n v wrap_pos [OF assms(2)]
    by (simp add: read_body_def Let_def quiet_post did_read_def del: fun_upd_apply split: if_splits)
qed

lemma wrote_simps [simp]:
  "eof (wrote n p) = eof p" "pipe_buffer (wrote n p) = pipe_buffer p" "read_sem_id (wrote n p) = read_sem_id p"
  "write_sem_id (wrote n p) = write_sem_id p" "write_pos (wrote n p) = ring_pos (write_pos p) n"
  "read_pos (wrote n p) = read_pos p" "left_to_read (wrote n p) = left_to_read p + int n"
  "eof (did_read n p) = eof p" "pipe_buffer (did_read n p) = pipe_buffer p"
  "read_sem_id (did_read n p) = read_sem_id p" "write_sem_id (did_read n p) = write_sem_id p"
  "read_pos (did_read n p) = ring_pos (read_pos p) n" "left_to_read (did_read n p) = left_to_read p - int n"
  by (simp_all add: wrote_def did_read_def)

lemma wrote_add: "wrote n (wrote 1 p) = wrote (Suc n) p" "did_read n (did_read 1 p) = did_read (Suc n) p"
  by (simp_all add: wrote_def did_read_def)

lemma ring_pos_1 [simp]: "ring_pos w 1 = w mod PIPE_BUFFER_SIZE + 1" "ring_pos w (Suc 0) = w mod PIPE_BUFFER_SIZE + 1"
  by simp_all

lemma ring_pos_bound: "w mod PIPE_BUFFER_SIZE + 1 \<le> PIPE_BUFFER_SIZE"
  by (simp add: PIPE_BUFFER_SIZE_def Suc_leI)

lemma quiet_wrote [simp]: "quiet low i ((set_pipe i (wrote n (pipe_at i s)) s)\<lparr>bytes_of := m\<rparr>) = quiet low i s"
  by (auto simp: quiet_def)

lemma quiet_did_read [simp]: "quiet low i ((set_pipe i (did_read n (pipe_at i s)) s)\<lparr>bytes_of := m\<rparr>) = quiet low i s"
  by (auto simp: quiet_def)

lemma set_pipe_id [simp]: "valid_id i s \<Longrightarrow> set_pipe i (pipe_at i s) s = s"
  by (simp add: set_pipe_def pipe_at_def valid_id_def list_update_id)

lemma wrote_0 [simp]: "wrote 0 p = p" "did_read 0 p = p"
  by (simp_all add: wrote_def did_read_def)

lemma set_bytes_id [simp]: "s\<lparr>bytes_of := bytes_of s\<rparr> = s"
  by simp

lemma write_loop_quiet:
  assumes "quiet low i s" "eof (pipe_at i s) = 0" "write_pos (pipe_at i s) \<le> PIPE_BUFFER_SIZE"
    "message + j + n \<le> pipe_buffer (pipe_at i s) \<or> pipe_buffer (pipe_at i s) + PIPE_BUFFER_SIZE \<le> message + j"
  shows "write_loop low i message j n s = Some (Finished 1, set_pipe i (wrote n (pipe_at i s)) (s\<lparr>bytes_of :=
    ring_write (pipe_buffer (pipe_at i s)) (write_pos (pipe_at i s)) (bytes_at (bytes_of s) (message + j) n) (bytes_of s)\<rparr>))"
  using assms
proof (induction n arbitrary: j s)
  case 0
  then have "valid_id i s" by (simp add: quiet_def)
  then show ?case by simp
next
  case (Suc n)
  let ?p = "pipe_at i s" and ?b = "bytes_of s (message + j)"
  let ?m = "(bytes_of s)(pipe_buffer ?p + write_pos ?p mod PIPE_BUFFER_SIZE := ?b)"
  define t where "t = set_pipe i (wrote 1 ?p) (s\<lparr>bytes_of := ?m\<rparr>)"
  have v: "valid_id i s" using Suc.prems(1) by (simp add: quiet_def)
  obtain nm where nm: "low (write_sem_id ?p) = Some nm" "locate_sem nm (kern s) = None"
    using Suc.prems(1) by (auto simp: quiet_def)
  have t: "pipe_at i t = wrote 1 ?p" "bytes_of t = ?m" "quiet low i t" "valid_id i t"
    using v Suc.prems(1) by (simp_all add: t_def)
  have lt: "write_pos ?p mod PIPE_BUFFER_SIZE < PIPE_BUFFER_SIZE" by (simp add: PIPE_BUFFER_SIZE_def)
  have msg: "bytes_at ?m (message + (j + 1)) n = bytes_at (bytes_of s) (message + (j + 1)) n"
    using Suc.prems(4) lt by (auto simp: bytes_at_eq)
  have "write_loop low i message (j + 1) n t = Some (Finished 1, set_pipe i (wrote n (pipe_at i t)) (t\<lparr>bytes_of :=
    ring_write (pipe_buffer (pipe_at i t)) (write_pos (pipe_at i t)) (bytes_at (bytes_of t) (message + (j + 1)) n) (bytes_of t)\<rparr>))"
    using t Suc.prems(2,4) ring_pos_bound by (intro Suc.IH) auto
  also have "\<dots> = Some (Finished 1, set_pipe i (wrote (Suc n) ?p) (s\<lparr>bytes_of :=
    ring_write (pipe_buffer ?p) (write_pos ?p) (bytes_at (bytes_of s) (message + j) (Suc n)) (bytes_of s)\<rparr>))"
    unfolding t(1,2) by (simp add: t_def wrote_add [simplified] msg bytes_at_Suc del: fun_upd_apply)
      (use msg in \<open>simp del: fun_upd_apply\<close>)
  finally show ?case
    using quiet_wait [of nm s low "write_sem_id ?p"] nm write_body_quiet [OF Suc.prems(1-3), of ?b]
    by (simp add: t_def del: fun_upd_apply)
qed

lemma read_loop_quiet:
  assumes "quiet low i s" "read_pos (pipe_at i s) \<le> PIPE_BUFFER_SIZE"
    "dest + j + n \<le> pipe_buffer (pipe_at i s) \<or> pipe_buffer (pipe_at i s) + PIPE_BUFFER_SIZE \<le> dest + j"
    "EOF_BYTE \<notin> set (ring_read (pipe_buffer (pipe_at i s)) (read_pos (pipe_at i s)) n (bytes_of s))"
  shows "read_loop low i dest j n s = Some (Finished 0, set_pipe i (did_read n (pipe_at i s)) (s\<lparr>bytes_of :=
    write_bytes (dest + j) (ring_read (pipe_buffer (pipe_at i s)) (read_pos (pipe_at i s)) n (bytes_of s)) (bytes_of s)\<rparr>))"
  using assms
proof (induction n arbitrary: j s)
  case 0
  then have "valid_id i s" by (simp add: quiet_def)
  then show ?case by simp
next
  case (Suc n)
  let ?p = "pipe_at i s"
  let ?b = "bytes_of s (pipe_buffer ?p + read_pos ?p mod PIPE_BUFFER_SIZE)"
  let ?m = "(bytes_of s)(dest + j := ?b)"
  define t where "t = set_pipe i (did_read 1 ?p) (s\<lparr>bytes_of := ?m\<rparr>)"
  have v: "valid_id i s" using Suc.prems(1) by (simp add: quiet_def)
  obtain nm where nm: "low (read_sem_id ?p) = Some nm" "locate_sem nm (kern s) = None"
    using Suc.prems(1) by (auto simp: quiet_def)
  have t: "pipe_at i t = did_read 1 ?p" "bytes_of t = ?m" "quiet low i t" "valid_id i t"
    using v Suc.prems(1) by (simp_all add: t_def)
  have same: "ring_read (pipe_buffer ?p) r k ?m = ring_read (pipe_buffer ?p) r k (bytes_of s)" for r k
  proof (rule nth_equalityI)
    fix l assume "l < length (ring_read (pipe_buffer ?p) r k ?m)"
    then have l: "l < k" by simp
    have "(r + l) mod PIPE_BUFFER_SIZE < PIPE_BUFFER_SIZE" by (simp add: PIPE_BUFFER_SIZE_def)
    then have "pipe_buffer ?p + (r + l) mod PIPE_BUFFER_SIZE \<noteq> dest + j" using Suc.prems(3) by auto
    then show "ring_read (pipe_buffer ?p) r k ?m ! l = ring_read (pipe_buffer ?p) r k (bytes_of s) ! l"
      by (simp add: ring_read_nth l)
  qed simp
  have eof: "?b \<noteq> EOF_BYTE" "EOF_BYTE \<notin> set (ring_read (pipe_buffer ?p) (read_pos ?p mod PIPE_BUFFER_SIZE + 1) n (bytes_of s))"
    using Suc.prems(4) by auto
  have "read_loop low i dest (j + 1) n t = Some (Finished 0, set_pipe i (did_read n (pipe_at i t)) (t\<lparr>bytes_of :=
    write_bytes (dest + (j + 1)) (ring_read (pipe_buffer (pipe_at i t)) (read_pos (pipe_at i t)) n (bytes_of t)) (bytes_of t)\<rparr>))"
  proof (rule Suc.IH)
    show "quiet low i t" by (rule t(3))
    show "read_pos (pipe_at i t) \<le> PIPE_BUFFER_SIZE" unfolding t(1) using ring_pos_bound by simp
    show "dest + (j + 1) + n \<le> pipe_buffer (pipe_at i t) \<or> pipe_buffer (pipe_at i t) + PIPE_BUFFER_SIZE \<le> dest + (j + 1)"
      unfolding t(1) using Suc.prems(3) by auto
    show "EOF_BYTE \<notin> set (ring_read (pipe_buffer (pipe_at i t)) (read_pos (pipe_at i t)) n (bytes_of t))"
      unfolding t(1,2) wrote_simps ring_pos_1 same by (rule eof(2))
  qed
  also have "\<dots> = Some (Finished 0, set_pipe i (did_read (Suc n) ?p) (s\<lparr>bytes_of :=
    write_bytes (dest + j) (ring_read (pipe_buffer ?p) (read_pos ?p) (Suc n) (bytes_of s)) (bytes_of s)\<rparr>))"
    unfolding t(1,2) by (simp add: t_def wrote_add [simplified] same write_bytes_Cons del: fun_upd_apply)
  finally show ?case
    using quiet_wait [of nm s low "read_sem_id ?p"] nm read_body_quiet [OF Suc.prems(1,2), of "dest + j"] eof(1)
    by (simp add: t_def Let_def del: fun_upd_apply)
qed

text \<open>C11: a pipe delivers what was written. With no end of file sent, the two positions in
  step, at most 1024 bytes, none of them the end-of-file byte, and the buffer apart from both
  messages, \<open>pipe_write\<close> and then \<open>pipe_read\<close> return and the destination holds the message;
  the count of unread bytes and the kernel are as before. This needs that the misread
  semaphore names belong to no open semaphore, which also means that nothing ever blocks.\<close>

theorem pipe_roundtrip:
  assumes q: "quiet low i s" and eof: "eof (pipe_at i s) = 0"
    and pos: "write_pos (pipe_at i s) \<le> PIPE_BUFFER_SIZE" "read_pos (pipe_at i s) \<le> PIPE_BUFFER_SIZE"
      "read_pos (pipe_at i s) mod PIPE_BUFFER_SIZE = write_pos (pipe_at i s) mod PIPE_BUFFER_SIZE"
    and n: "n \<le> PIPE_BUFFER_SIZE" "EOF_BYTE \<notin> set (bytes_at (bytes_of s) message n)"
    and apart: "message + n \<le> pipe_buffer (pipe_at i s) \<or> pipe_buffer (pipe_at i s) + PIPE_BUFFER_SIZE \<le> message"
      "dest + n \<le> pipe_buffer (pipe_at i s) \<or> pipe_buffer (pipe_at i s) + PIPE_BUFFER_SIZE \<le> dest"
  shows "\<exists>s1 s2. pipe_write low i message n s = Some (Finished 1, s1) \<and>
    pipe_read low i dest n s1 = Some (Finished 0, s2) \<and>
    bytes_at (bytes_of s2) dest n = bytes_at (bytes_of s) message n \<and>
    left_to_read (pipe_at i s2) = left_to_read (pipe_at i s) \<and> kern s2 = kern s"
proof -
  let ?p = "pipe_at i s" and ?bs = "bytes_at (bytes_of s) message n"
  define s1 where "s1 = set_pipe i (wrote n ?p) (s\<lparr>bytes_of := ring_write (pipe_buffer ?p) (write_pos ?p) ?bs (bytes_of s)\<rparr>)"
  have v: "valid_id i s" using q by (simp add: quiet_def)
  have w: "pipe_write low i message n s = Some (Finished 1, s1)"
    using write_loop_quiet [OF q eof pos(1), of message 0 n] apart(1) v eof by (simp add: pipe_write_def s1_def)
  have s1: "pipe_at i s1 = wrote n ?p" "quiet low i s1" "valid_id i s1" "kern s1 = kern s"
    "bytes_of s1 = ring_write (pipe_buffer ?p) (write_pos ?p) ?bs (bytes_of s)"
    using v q by (simp_all add: s1_def)
  have got: "ring_read (pipe_buffer ?p) (read_pos ?p) n (bytes_of s1) = ?bs"
    using ring_roundtrip [OF pos(3), of "?bs" "pipe_buffer ?p" "bytes_of s"] n(1) by (simp add: s1(5))
  define s2 where "s2 = set_pipe i (did_read n (wrote n ?p)) (s1\<lparr>bytes_of := write_bytes dest ?bs (bytes_of s1)\<rparr>)"
  have r: "pipe_read low i dest n s1 = Some (Finished 0, s2)"
    using read_loop_quiet [OF s1(2), of dest 0 n] apart(2) pos(2) n(2) got s1(1,3) eof
    by (simp add: pipe_read_def s2_def)
  have "bytes_at (bytes_of s2) dest n = ?bs" using bytes_at_write [of dest "?bs"] by (simp add: s2_def)
  then show ?thesis using w r s1(3,4) by (intro exI [of _ s1] exI [of _ s2]) (simp add: s2_def)
qed

text \<open>A pipe in slot 1 of the demo kernel whose semaphores got the indices 5 and 6.\<close>

definition demo_pipes :: pipes where
  "demo_pipes = \<lparr>kern = demo_kernel, bytes_of = (\<lambda>_. 7),
     pipe_array = replicate 10 \<lparr>pipe_name = 4, read_sem_id = 5, write_sem_id = 6, write_pos = 1020, read_pos = 1020,
       pipe_buffer = 20000, eof = 0, left_to_read = 0\<rparr>, max_pipe = 5, first_eof = 1\<rparr>"

lemma demo_no_sem: "locate_sem n demo_kernel = None"
proof -
  have "locate_loop (replicate k demo_sem) n j = None" for k j
    by (induction k arbitrary: j) (simp_all add: demo_sem_def AVAILABLE_def UNAVAILABLE_def)
  then show ?thesis by (simp add: locate_sem_def demo_kernel_def)
qed

theorem pipe_roundtrip_witness:
  "\<exists>s1 s2. pipe_write (\<lambda>_. Some ''x'') 1 100 30 demo_pipes = Some (Finished 1, s1) \<and>
    pipe_read (\<lambda>_. Some ''x'') 1 200 30 s1 = Some (Finished 0, s2) \<and>
    bytes_at (bytes_of s2) 200 30 = bytes_at (bytes_of demo_pipes) 100 30 \<and>
    left_to_read (pipe_at 1 s2) = left_to_read (pipe_at 1 demo_pipes) \<and> kern s2 = kern demo_pipes"
  by (rule pipe_roundtrip)
    (auto simp: quiet_def valid_id_def demo_pipes_def pipe_at_def PIPE_BUFFER_SIZE_def EOF_BYTE_def bytes_at_def
      demo_no_sem)

end
