(* ===== verification/Font.thy ===== *)
theory Font
  imports Prelude
begin

text \<open>
  The glyph table of Kernel/drivers/include/font.h, 32 bytes for each character from '!' on:
  two for each of 16 rows, the second of which is always zero.
\<close>

definition font :: "nat list" where
  "font = [
    0, 0, 0, 0, 24, 0, 60, 0, 60, 0, 60, 0, 24, 0, 24, 0, 24, 0, 0, 0, 24, 0, 24, 0, 0, 0, 0, 0, 0, 0, 0, 0,
    0, 0, 102, 0, 102, 0, 102, 0, 36, 0, 0, 0, 0, 0, 0, 0, 0, 0, 0, 0, 0, 0, 0, 0, 0, 0, 0, 0, 0, 0, 0, 0,
    0, 0, 0, 0, 0, 0, 54, 0, 54, 0, 127, 0, 54, 0, 54, 0, 54, 0, 127, 0, 54, 0, 54, 0, 0, 0, 0, 0, 0, 0, 0, 0,
    24, 0, 24, 0, 62, 0, 99, 0, 67, 0, 3, 0, 62, 0, 96, 0, 96, 0, 97, 0, 99, 0, 62, 0, 24, 0, 24, 0, 0, 0, 0, 0,
    0, 0, 0, 0, 0, 0, 0, 0, 67, 0, 99, 0, 48, 0, 24, 0, 12, 0, 6, 0, 99, 0, 97, 0, 0, 0, 0, 0, 0, 0, 0, 0,
    0, 0, 0, 0, 28, 0, 54, 0, 54, 0, 28, 0, 110, 0, 59, 0, 51, 0, 51, 0, 51, 0, 110, 0, 0, 0, 0, 0, 0, 0, 0, 0,
    0, 0, 12, 0, 12, 0, 12, 0, 6, 0, 0, 0, 0, 0, 0, 0, 0, 0, 0, 0, 0, 0, 0, 0, 0, 0, 0, 0, 0, 0, 0, 0,
    0, 0, 0, 0, 48, 0, 24, 0, 12, 0, 12, 0, 12, 0, 12, 0, 12, 0, 12, 0, 24, 0, 48, 0, 0, 0, 0, 0, 0, 0, 0, 0,
    0, 0, 0, 0, 12, 0, 24, 0, 48, 0, 48, 0, 48, 0, 48, 0, 48, 0, 48, 0, 24, 0, 12, 0, 0, 0, 0, 0, 0, 0, 0, 0,
    0, 0, 0, 0, 0, 0, 0, 0, 0, 0, 102, 0, 60, 0, 255, 0, 60, 0, 102, 0, 0, 0, 0, 0, 0, 0, 0, 0, 0, 0, 0, 0,
    0, 0, 0, 0, 0, 0, 0, 0, 0, 0, 24, 0, 24, 0, 126, 0, 24, 0, 24, 0, 0, 0, 0, 0, 0, 0, 0, 0, 0, 0, 0, 0,
    0, 0, 0, 0, 0, 0, 0, 0, 0, 0, 0, 0, 0, 0, 0, 0, 0, 0, 24, 0, 24, 0, 24, 0, 12, 0, 0, 0, 0, 0, 0, 0,
    0, 0, 0, 0, 0, 0, 0, 0, 0, 0, 0, 0, 0, 0, 127, 0, 0, 0, 0, 0, 0, 0, 0, 0, 0, 0, 0, 0, 0, 0, 0, 0,
    0, 0, 0, 0, 0, 0, 0, 0, 0, 0, 0, 0, 0, 0, 0, 0, 0, 0, 0, 0, 24, 0, 24, 0, 0, 0, 0, 0, 0, 0, 0, 0,
    0, 0, 0, 0, 0, 0, 0, 0, 64, 0, 96, 0, 48, 0, 24, 0, 12, 0, 6, 0, 3, 0, 1, 0, 0, 0, 0, 0, 0, 0, 0, 0,
    0, 0, 0, 0, 60, 0, 102, 0, 195, 0, 195, 0, 219, 0, 219, 0, 195, 0, 195, 0, 102, 0, 60, 0, 0, 0, 0, 0, 0, 0, 0, 0,
    0, 0, 0, 0, 24, 0, 28, 0, 30, 0, 24, 0, 24, 0, 24, 0, 24, 0, 24, 0, 24, 0, 126, 0, 0, 0, 0, 0, 0, 0, 0, 0,
    0, 0, 0, 0, 62, 0, 99, 0, 96, 0, 48, 0, 24, 0, 12, 0, 6, 0, 3, 0, 99, 0, 127, 0, 0, 0, 0, 0, 0, 0, 0, 0,
    0, 0, 0, 0, 62, 0, 99, 0, 96, 0, 96, 0, 60, 0, 96, 0, 96, 0, 96, 0, 99, 0, 62, 0, 0, 0, 0, 0, 0, 0, 0, 0,
    0, 0, 0, 0, 48, 0, 56, 0, 60, 0, 54, 0, 51, 0, 127, 0, 48, 0, 48, 0, 48, 0, 120, 0, 0, 0, 0, 0, 0, 0, 0, 0,
    0, 0, 0, 0, 127, 0, 3, 0, 3, 0, 3, 0, 63, 0, 96, 0, 96, 0, 96, 0, 99, 0, 62, 0, 0, 0, 0, 0, 0, 0, 0, 0,
    0, 0, 0, 0, 28, 0, 6, 0, 3, 0, 3, 0, 63, 0, 99, 0, 99, 0, 99, 0, 99, 0, 62, 0, 0, 0, 0, 0, 0, 0, 0, 0,
    0, 0, 0, 0, 127, 0, 99, 0, 96, 0, 96, 0, 48, 0, 24, 0, 12, 0, 12, 0, 12, 0, 12, 0, 0, 0, 0, 0, 0, 0, 0, 0,
    0, 0, 0, 0, 62, 0, 99, 0, 99, 0, 99, 0, 62, 0, 99, 0, 99, 0, 99, 0, 99, 0, 62, 0, 0, 0, 0, 0, 0, 0, 0, 0,
    0, 0, 0, 0, 62, 0, 99, 0, 99, 0, 99, 0, 126, 0, 96, 0, 96, 0, 96, 0, 48, 0, 30, 0, 0, 0, 0, 0, 0, 0, 0, 0,
    0, 0, 0, 0, 0, 0, 0, 0, 24, 0, 24, 0, 0, 0, 0, 0, 0, 0, 24, 0, 24, 0, 0, 0, 0, 0, 0, 0, 0, 0, 0, 0,
    0, 0, 0, 0, 0, 0, 0, 0, 24, 0, 24, 0, 0, 0, 0, 0, 0, 0, 24, 0, 24, 0, 12, 0, 0, 0, 0, 0, 0, 0, 0, 0,
    0, 0, 0, 0, 0, 0, 96, 0, 48, 0, 24, 0, 12, 0, 6, 0, 12, 0, 24, 0, 48, 0, 96, 0, 0, 0, 0, 0, 0, 0, 0, 0,
    0, 0, 0, 0, 0, 0, 0, 0, 0, 0, 126, 0, 0, 0, 0, 0, 126, 0, 0, 0, 0, 0, 0, 0, 0, 0, 0, 0, 0, 0, 0, 0,
    0, 0, 0, 0, 0, 0, 6, 0, 12, 0, 24, 0, 48, 0, 96, 0, 48, 0, 24, 0, 12, 0, 6, 0, 0, 0, 0, 0, 0, 0, 0, 0,
    0, 0, 0, 0, 62, 0, 99, 0, 99, 0, 48, 0, 24, 0, 24, 0, 24, 0, 0, 0, 24, 0, 24, 0, 0, 0, 0, 0, 0, 0, 0, 0,
    0, 0, 0, 0, 0, 0, 62, 0, 99, 0, 99, 0, 123, 0, 123, 0, 123, 0, 59, 0, 3, 0, 62, 0, 0, 0, 0, 0, 0, 0, 0, 0,
    0, 0, 0, 0, 8, 0, 28, 0, 54, 0, 99, 0, 99, 0, 127, 0, 99, 0, 99, 0, 99, 0, 99, 0, 0, 0, 0, 0, 0, 0, 0, 0,
    0, 0, 0, 0, 63, 0, 102, 0, 102, 0, 102, 0, 62, 0, 102, 0, 102, 0, 102, 0, 102, 0, 63, 0, 0, 0, 0, 0, 0, 0, 0, 0,
    0, 0, 0, 0, 60, 0, 102, 0, 67, 0, 3, 0, 3, 0, 3, 0, 3, 0, 67, 0, 102, 0, 60, 0, 0, 0, 0, 0, 0, 0, 0, 0,
    0, 0, 0, 0, 31, 0, 54, 0, 102, 0, 102, 0, 102, 0, 102, 0, 102, 0, 102, 0, 54, 0, 31, 0, 0, 0, 0, 0, 0, 0, 0, 0,
    0, 0, 0, 0, 127, 0, 102, 0, 70, 0, 22, 0, 30, 0, 22, 0, 6, 0, 70, 0, 102, 0, 127, 0, 0, 0, 0, 0, 0, 0, 0, 0,
    0, 0, 0, 0, 127, 0, 102, 0, 70, 0, 22, 0, 30, 0, 22, 0, 6, 0, 6, 0, 6, 0, 15, 0, 0, 0, 0, 0, 0, 0, 0, 0,
    0, 0, 0, 0, 60, 0, 102, 0, 67, 0, 3, 0, 3, 0, 123, 0, 99, 0, 99, 0, 102, 0, 92, 0, 0, 0, 0, 0, 0, 0, 0, 0,
    0, 0, 0, 0, 99, 0, 99, 0, 99, 0, 99, 0, 127, 0, 99, 0, 99, 0, 99, 0, 99, 0, 99, 0, 0, 0, 0, 0, 0, 0, 0, 0,
    0, 0, 0, 0, 60, 0, 24, 0, 24, 0, 24, 0, 24, 0, 24, 0, 24, 0, 24, 0, 24, 0, 60, 0, 0, 0, 0, 0, 0, 0, 0, 0,
    0, 0, 0, 0, 120, 0, 48, 0, 48, 0, 48, 0, 48, 0, 48, 0, 51, 0, 51, 0, 51, 0, 30, 0, 0, 0, 0, 0, 0, 0, 0, 0,
    0, 0, 0, 0, 103, 0, 102, 0, 102, 0, 54, 0, 30, 0, 30, 0, 54, 0, 102, 0, 102, 0, 103, 0, 0, 0, 0, 0, 0, 0, 0, 0,
    0, 0, 0, 0, 15, 0, 6, 0, 6, 0, 6, 0, 6, 0, 6, 0, 6, 0, 70, 0, 102, 0, 127, 0, 0, 0, 0, 0, 0, 0, 0, 0,
    0, 0, 0, 0, 195, 0, 231, 0, 255, 0, 255, 0, 219, 0, 195, 0, 195, 0, 195, 0, 195, 0, 195, 0, 0, 0, 0, 0, 0, 0, 0, 0,
    0, 0, 0, 0, 99, 0, 103, 0, 111, 0, 127, 0, 123, 0, 115, 0, 99, 0, 99, 0, 99, 0, 99, 0, 0, 0, 0, 0, 0, 0, 0, 0,
    0, 0, 0, 0, 62, 0, 99, 0, 99, 0, 99, 0, 99, 0, 99, 0, 99, 0, 99, 0, 99, 0, 62, 0, 0, 0, 0, 0, 0, 0, 0, 0,
    0, 0, 0, 0, 63, 0, 102, 0, 102, 0, 102, 0, 62, 0, 6, 0, 6, 0, 6, 0, 6, 0, 15, 0, 0, 0, 0, 0, 0, 0, 0, 0,
    0, 0, 0, 0, 62, 0, 99, 0, 99, 0, 99, 0, 99, 0, 99, 0, 99, 0, 107, 0, 123, 0, 62, 0, 48, 0, 112, 0, 0, 0, 0, 0,
    0, 0, 0, 0, 63, 0, 102, 0, 102, 0, 102, 0, 62, 0, 54, 0, 102, 0, 102, 0, 102, 0, 103, 0, 0, 0, 0, 0, 0, 0, 0, 0,
    0, 0, 0, 0, 62, 0, 99, 0, 99, 0, 6, 0, 28, 0, 48, 0, 96, 0, 99, 0, 99, 0, 62, 0, 0, 0, 0, 0, 0, 0, 0, 0,
    0, 0, 0, 0, 255, 0, 219, 0, 153, 0, 24, 0, 24, 0, 24, 0, 24, 0, 24, 0, 24, 0, 60, 0, 0, 0, 0, 0, 0, 0, 0, 0,
    0, 0, 0, 0, 99, 0, 99, 0, 99, 0, 99, 0, 99, 0, 99, 0, 99, 0, 99, 0, 99, 0, 62, 0, 0, 0, 0, 0, 0, 0, 0, 0,
    0, 0, 0, 0, 195, 0, 195, 0, 195, 0, 195, 0, 195, 0, 195, 0, 195, 0, 102, 0, 60, 0, 24, 0, 0, 0, 0, 0, 0, 0, 0, 0,
    0, 0, 0, 0, 195, 0, 195, 0, 195, 0, 195, 0, 195, 0, 219, 0, 219, 0, 255, 0, 102, 0, 102, 0, 0, 0, 0, 0, 0, 0, 0, 0,
    0, 0, 0, 0, 195, 0, 195, 0, 102, 0, 60, 0, 24, 0, 24, 0, 60, 0, 102, 0, 195, 0, 195, 0, 0, 0, 0, 0, 0, 0, 0, 0,
    0, 0, 0, 0, 195, 0, 195, 0, 195, 0, 102, 0, 60, 0, 24, 0, 24, 0, 24, 0, 24, 0, 60, 0, 0, 0, 0, 0, 0, 0, 0, 0,
    0, 0, 0, 0, 255, 0, 195, 0, 97, 0, 48, 0, 24, 0, 12, 0, 6, 0, 131, 0, 195, 0, 255, 0, 0, 0, 0, 0, 0, 0, 0, 0,
    0, 0, 0, 0, 60, 0, 12, 0, 12, 0, 12, 0, 12, 0, 12, 0, 12, 0, 12, 0, 12, 0, 60, 0, 0, 0, 0, 0, 0, 0, 0, 0,
    0, 0, 0, 0, 0, 0, 1, 0, 3, 0, 7, 0, 14, 0, 28, 0, 56, 0, 112, 0, 96, 0, 64, 0, 0, 0, 0, 0, 0, 0, 0, 0,
    0, 0, 0, 0, 60, 0, 48, 0, 48, 0, 48, 0, 48, 0, 48, 0, 48, 0, 48, 0, 48, 0, 60, 0, 0, 0, 0, 0, 0, 0, 0, 0,
    8, 0, 28, 0, 54, 0, 99, 0, 0, 0, 0, 0, 0, 0, 0, 0, 0, 0, 0, 0, 0, 0, 0, 0, 0, 0, 0, 0, 0, 0, 0, 0,
    0, 0, 0, 0, 0, 0, 0, 0, 0, 0, 0, 0, 0, 0, 0, 0, 0, 0, 0, 0, 0, 0, 0, 0, 0, 0, 255, 0, 0, 0, 0, 0,
    12, 0, 12, 0, 24, 0, 0, 0, 0, 0, 0, 0, 0, 0, 0, 0, 0, 0, 0, 0, 0, 0, 0, 0, 0, 0, 0, 0, 0, 0, 0, 0,
    0, 0, 0, 0, 0, 0, 0, 0, 0, 0, 30, 0, 48, 0, 62, 0, 51, 0, 51, 0, 51, 0, 110, 0, 0, 0, 0, 0, 0, 0, 0, 0,
    0, 0, 0, 0, 7, 0, 6, 0, 6, 0, 30, 0, 54, 0, 102, 0, 102, 0, 102, 0, 102, 0, 62, 0, 0, 0, 0, 0, 0, 0, 0, 0,
    0, 0, 0, 0, 0, 0, 0, 0, 0, 0, 62, 0, 99, 0, 3, 0, 3, 0, 3, 0, 99, 0, 62, 0, 0, 0, 0, 0, 0, 0, 0, 0,
    0, 0, 0, 0, 56, 0, 48, 0, 48, 0, 60, 0, 54, 0, 51, 0, 51, 0, 51, 0, 51, 0, 110, 0, 0, 0, 0, 0, 0, 0, 0, 0,
    0, 0, 0, 0, 0, 0, 0, 0, 0, 0, 62, 0, 99, 0, 127, 0, 3, 0, 3, 0, 99, 0, 62, 0, 0, 0, 0, 0, 0, 0, 0, 0,
    0, 0, 0, 0, 28, 0, 54, 0, 38, 0, 6, 0, 15, 0, 6, 0, 6, 0, 6, 0, 6, 0, 15, 0, 0, 0, 0, 0, 0, 0, 0, 0,
    0, 0, 0, 0, 0, 0, 0, 0, 0, 0, 110, 0, 51, 0, 51, 0, 51, 0, 51, 0, 51, 0, 62, 0, 48, 0, 51, 0, 30, 0, 0, 0,
    0, 0, 0, 0, 7, 0, 6, 0, 6, 0, 54, 0, 110, 0, 102, 0, 102, 0, 102, 0, 102, 0, 103, 0, 0, 0, 0, 0, 0, 0, 0, 0,
    0, 0, 0, 0, 24, 0, 24, 0, 0, 0, 28, 0, 24, 0, 24, 0, 24, 0, 24, 0, 24, 0, 60, 0, 0, 0, 0, 0, 0, 0, 0, 0,
    0, 0, 0, 0, 96, 0, 96, 0, 0, 0, 112, 0, 96, 0, 96, 0, 96, 0, 96, 0, 96, 0, 96, 0, 102, 0, 102, 0, 60, 0, 0, 0,
    0, 0, 0, 0, 7, 0, 6, 0, 6, 0, 102, 0, 54, 0, 30, 0, 30, 0, 54, 0, 102, 0, 103, 0, 0, 0, 0, 0, 0, 0, 0, 0,
    0, 0, 0, 0, 28, 0, 24, 0, 24, 0, 24, 0, 24, 0, 24, 0, 24, 0, 24, 0, 24, 0, 60, 0, 0, 0, 0, 0, 0, 0, 0, 0,
    0, 0, 0, 0, 0, 0, 0, 0, 0, 0, 103, 0, 255, 0, 219, 0, 219, 0, 219, 0, 219, 0, 219, 0, 0, 0, 0, 0, 0, 0, 0, 0,
    0, 0, 0, 0, 0, 0, 0, 0, 0, 0, 59, 0, 102, 0, 102, 0, 102, 0, 102, 0, 102, 0, 102, 0, 0, 0, 0, 0, 0, 0, 0, 0,
    0, 0, 0, 0, 0, 0, 0, 0, 0, 0, 62, 0, 99, 0, 99, 0, 99, 0, 99, 0, 99, 0, 62, 0, 0, 0, 0, 0, 0, 0, 0, 0,
    0, 0, 0, 0, 0, 0, 0, 0, 0, 0, 59, 0, 102, 0, 102, 0, 102, 0, 102, 0, 102, 0, 62, 0, 6, 0, 6, 0, 15, 0, 0, 0,
    0, 0, 0, 0, 0, 0, 0, 0, 0, 0, 110, 0, 51, 0, 51, 0, 51, 0, 51, 0, 51, 0, 62, 0, 48, 0, 48, 0, 120, 0, 0, 0,
    0, 0, 0, 0, 0, 0, 0, 0, 0, 0, 59, 0, 110, 0, 102, 0, 6, 0, 6, 0, 6, 0, 15, 0, 0, 0, 0, 0, 0, 0, 0, 0,
    0, 0, 0, 0, 0, 0, 0, 0, 0, 0, 62, 0, 99, 0, 6, 0, 28, 0, 48, 0, 99, 0, 62, 0, 0, 0, 0, 0, 0, 0, 0, 0,
    0, 0, 0, 0, 8, 0, 12, 0, 12, 0, 63, 0, 12, 0, 12, 0, 12, 0, 12, 0, 108, 0, 56, 0, 0, 0, 0, 0, 0, 0, 0, 0,
    0, 0, 0, 0, 0, 0, 0, 0, 0, 0, 51, 0, 51, 0, 51, 0, 51, 0, 51, 0, 51, 0, 110, 0, 0, 0, 0, 0, 0, 0, 0, 0,
    0, 0, 0, 0, 0, 0, 0, 0, 0, 0, 195, 0, 195, 0, 195, 0, 195, 0, 102, 0, 60, 0, 24, 0, 0, 0, 0, 0, 0, 0, 0, 0,
    0, 0, 0, 0, 0, 0, 0, 0, 0, 0, 195, 0, 195, 0, 195, 0, 219, 0, 219, 0, 255, 0, 102, 0, 0, 0, 0, 0, 0, 0, 0, 0,
    0, 0, 0, 0, 0, 0, 0, 0, 0, 0, 195, 0, 102, 0, 60, 0, 24, 0, 60, 0, 102, 0, 195, 0, 0, 0, 0, 0, 0, 0, 0, 0,
    0, 0, 0, 0, 0, 0, 0, 0, 0, 0, 99, 0, 99, 0, 99, 0, 99, 0, 99, 0, 99, 0, 126, 0, 96, 0, 48, 0, 31, 0, 0, 0,
    0, 0, 0, 0, 0, 0, 0, 0, 0, 0, 127, 0, 51, 0, 24, 0, 12, 0, 6, 0, 99, 0, 127, 0, 0, 0, 0, 0, 0, 0, 0, 0,
    0, 0, 0, 0, 112, 0, 24, 0, 24, 0, 24, 0, 14, 0, 24, 0, 24, 0, 24, 0, 24, 0, 112, 0, 0, 0, 0, 0, 0, 0, 0, 0,
    0, 0, 0, 0, 24, 0, 24, 0, 24, 0, 24, 0, 0, 0, 24, 0, 24, 0, 24, 0, 24, 0, 24, 0, 0, 0, 0, 0, 0, 0, 0, 0,
    0, 0, 0, 0, 14, 0, 24, 0, 24, 0, 24, 0, 112, 0, 24, 0, 24, 0, 24, 0, 24, 0, 14, 0, 0, 0, 0, 0, 0, 0, 0, 0]"

lemma length_font: "length font = 2976"
  by (simp add: font_def)

fun even_only :: "nat list \<Rightarrow> bool" where
  "even_only (a # b # xs) \<longleftrightarrow> b = 0 \<and> even_only xs"
| "even_only xs \<longleftrightarrow> True"

lemma even_only_nth: "even_only xs \<Longrightarrow> odd i \<Longrightarrow> i < length xs \<Longrightarrow> xs ! i = 0"
proof (induction xs arbitrary: i rule: even_only.induct)
  case (1 a b xs)
  show ?case
  proof (cases "i = 1")
    case False
    then obtain j where "i = Suc (Suc j)" using 1 by (metis One_nat_def even_zero not0_implies_Suc)
    then show ?thesis using 1 by simp
  qed (use 1 in simp)
qed auto

lemma font_odd: "odd i \<Longrightarrow> i < length font \<Longrightarrow> font ! i = 0"
  by (rule even_only_nth) (simp_all add: font_def)

end
