(* ===== verification/Video.thy ===== *)
theory Video
  imports Font Lib Console
begin

text \<open>
  Kernel/drivers/videoDriver.c: the linear frame buffer, text drawn into it with the glyphs of
  font.h, the cursor and scrolling. All coordinates are \<open>uint32_t\<close> and wrap. \<open>vbe\<close> holds the
  fields of the mode information block the driver reads. A string to be drawn is the list of
  its bytes; reading a glyph outside the table is \<open>None\<close>.
\<close>

section \<open>Pixels\<close>

definition RED :: nat where "RED = 0xFF0000"
definition BLUE :: nat where "BLUE = 0x0000FF"
definition WHITE :: nat where "WHITE = 0xFFFFFF"
definition YELLOW :: nat where "YELLOW = 0xFFFF00"
definition SCREEN_WIDTH :: nat where "SCREEN_WIDTH = 1024"
definition SCREEN_HEIGHT :: nat where "SCREEN_HEIGHT = 768"
definition DEFAULT_FONT_SIZE :: nat where "DEFAULT_FONT_SIZE = 2"

record vbe_mode_info =
  framebuffer :: nat
  pitch :: nat
  vbe_width :: nat
  vbe_height :: nat

record video =
  fb :: memory
  cursorX :: nat
  cursorY :: nat
  font_size :: nat
  bg_color :: nat
  font_color :: nat

definition video_zero :: "memory \<Rightarrow> video" where
  "video_zero m = \<lparr>fb = m, cursorX = 0, cursorY = 0, font_size = DEFAULT_FONT_SIZE, bg_color = 0, font_color = 0xFFFFFF\<rparr>"

definition TO_RED :: "nat \<Rightarrow> nat" where "TO_RED hex = hex AND 0xFF"
definition TO_BLUE :: "nat \<Rightarrow> nat" where "TO_BLUE hex = drop_bit 8 hex AND 0xFF"
definition TO_GREEN :: "nat \<Rightarrow> nat" where "TO_GREEN hex = drop_bit 16 hex AND 0xFF"
definition FROM_RGB :: "nat \<Rightarrow> nat \<Rightarrow> nat \<Rightarrow> nat" where
  "FROM_RGB r g b = push_bit 16 r OR push_bit 8 g OR b"

definition pixel_offset :: "vbe_mode_info \<Rightarrow> nat \<Rightarrow> nat \<Rightarrow> nat" where
  "pixel_offset vm x y = wrap32 (pitch vm * y + x * 3)"

definition put_pixel :: "vbe_mode_info \<Rightarrow> nat \<Rightarrow> nat \<Rightarrow> nat \<Rightarrow> video \<Rightarrow> video" where
  "put_pixel vm hex_color x y v =
     (let screen = framebuffer vm; offset = pixel_offset vm x y
      in v\<lparr>fb := (fb v)(screen + offset := of_nat (TO_RED hex_color),
           screen + wrap32 (offset + 1) := of_nat (TO_BLUE hex_color),
           screen + wrap32 (offset + 2) := of_nat (TO_GREEN hex_color))\<rparr>)"

definition get_pixel_hex :: "vbe_mode_info \<Rightarrow> nat \<Rightarrow> nat \<Rightarrow> video \<Rightarrow> nat" where
  "get_pixel_hex vm x y v =
     (let screen = framebuffer vm; offset = pixel_offset vm x y
      in FROM_RGB (unat (fb v (screen + wrap32 (offset + 2)))) (unat (fb v (screen + wrap32 (offset + 1))))
           (unat (fb v (screen + offset))))"

text \<open>Nested counting loops, the inner index running faster.\<close>

definition for_loop :: "nat \<Rightarrow> (nat \<Rightarrow> 'a \<Rightarrow> 'a) \<Rightarrow> 'a \<Rightarrow> 'a" where
  "for_loop n f v = fold f [0..<n] v"

definition draw_rectangle :: "vbe_mode_info \<Rightarrow> nat \<Rightarrow> nat \<Rightarrow> nat \<Rightarrow> nat \<Rightarrow> nat \<Rightarrow> video \<Rightarrow> video" where
  "draw_rectangle vm color x y w h =
     for_loop h (\<lambda>i. for_loop w (\<lambda>j. put_pixel vm color (wrap32 (x + j)) (wrap32 (y + i))))"

definition put_square :: "vbe_mode_info \<Rightarrow> nat \<Rightarrow> nat \<Rightarrow> nat \<Rightarrow> nat \<Rightarrow> video \<Rightarrow> video" where
  "put_square vm x y sz hex_color =
     for_loop sz (\<lambda>i. for_loop sz (\<lambda>j. put_pixel vm hex_color (wrap32 (x + i)) (wrap32 (y + j))))"

text \<open>\<open>drawSquare\<close> passes its arguments in the order of another prototype.\<close>

definition drawSquare :: "vbe_mode_info \<Rightarrow> nat \<Rightarrow> nat \<Rightarrow> nat \<Rightarrow> nat \<Rightarrow> video \<Rightarrow> video" where
  "drawSquare vm hex_color side_length x y = draw_rectangle vm hex_color side_length side_length x y"

definition fill_section :: "vbe_mode_info \<Rightarrow> nat \<Rightarrow> nat \<Rightarrow> nat \<Rightarrow> video \<Rightarrow> video" where
  "fill_section vm hex_color startY endY v =
     fold (\<lambda>y. for_loop (vbe_width vm) (\<lambda>x. put_pixel vm hex_color x y)) [startY..<endY] v"

definition boke :: "vbe_mode_info \<Rightarrow> video \<Rightarrow> video" where
  "boke vm v =
     (let h = vbe_height vm div 3;
          v = fill_section vm BLUE 0 h v;
          v = fill_section vm YELLOW h (h * 2) v
      in fill_section vm BLUE (h * 2) (vbe_height vm) v)"

definition clear_color :: "vbe_mode_info \<Rightarrow> nat \<Rightarrow> video \<Rightarrow> video" where
  "clear_color vm hex_color v =
     (for_loop (vbe_width vm) (\<lambda>x. for_loop (vbe_height vm) (\<lambda>y. put_pixel vm hex_color x y)) v)
       \<lparr>cursorX := 0, cursorY := 0\<rparr>"

definition clear :: "vbe_mode_info \<Rightarrow> video \<Rightarrow> video" where
  "clear vm v = clear_color vm (bg_color v) v"

definition paint_screen :: "vbe_mode_info \<Rightarrow> nat \<Rightarrow> video \<Rightarrow> video" where
  "paint_screen vm hex_color v =
     for_loop (vbe_width vm) (\<lambda>x. for_loop (vbe_height vm) (\<lambda>y v.
       if get_pixel_hex vm x y v \<noteq> font_color v \<and> get_pixel_hex vm x y v \<noteq> RED
       then put_pixel vm hex_color x y v else v)) (v\<lparr>bg_color := hex_color\<rparr>)"

text \<open>The bounds of the loops are \<open>int\<close>; a pixel goes to the sums reduced to 32 bits.\<close>

definition draw_ball :: "vbe_mode_info \<Rightarrow> nat \<Rightarrow> int \<Rightarrow> int \<Rightarrow> int \<Rightarrow> video \<Rightarrow> video" where
  "draw_ball vm color sz x y v =
     (let radius = (if sz < 0 then - ((- sz) div 2) else sz div 2); center_x = x + radius; center_y = y + radius
      in fold (\<lambda>dy. fold (\<lambda>dx v.
           if dx * dx + dy * dy \<le> radius * radius
           then put_pixel vm color (nat ((center_x + dx) mod 2 ^ 32)) (nat ((center_y + dy) mod 2 ^ 32)) v else v)
         [- radius..radius]) [- radius..radius] v)"

section \<open>Text\<close>

definition set_font_size :: "nat \<Rightarrow> video \<Rightarrow> video" where
  "set_font_size new_size v = v\<lparr>font_size := new_size\<rparr>"

definition change_size :: "nat \<Rightarrow> video \<Rightarrow> video" where
  "change_size new_size v = v\<lparr>font_size := new_size\<rparr>"

definition get_max_height :: nat where "get_max_height = SCREEN_HEIGHT"
definition get_max_width :: nat where "get_max_width = SCREEN_WIDTH"

definition sub32 :: "nat \<Rightarrow> nat \<Rightarrow> nat" where
  "sub32 a b = nat ((int a - int b) mod 2 ^ 32)"

definition move_one_line_up :: "vbe_mode_info \<Rightarrow> video \<Rightarrow> video" where
  "move_one_line_up vm v =
     (let dst = framebuffer vm;
          src = dst + wrap32 (pitch vm * font_size v * 16);
          numBytes = wrap32 (pitch vm * sub32 (vbe_height vm) (font_size v * 16));
          v = v\<lparr>fb := snd (memcpy dst src numBytes (fb v))\<rparr>;
          v = draw_rectangle vm (bg_color v) 0 (sub32 (vbe_height vm) (font_size v * 16)) 1024 (wrap32 (font_size v * 16)) v
      in v\<lparr>cursorY := sub32 (cursorY v) (font_size v * 16)\<rparr>)"

definition check_line_up :: "vbe_mode_info \<Rightarrow> video \<Rightarrow> video" where
  "check_line_up vm v =
     (let v = (if cursorX v \<ge> get_max_width
               then v\<lparr>cursorX := 0, cursorY := wrap32 (cursorY v + font_size v * 16)\<rparr> else v)
      in if cursorY v \<ge> get_max_height then move_one_line_up vm (v\<lparr>cursorX := 0\<rparr>) else v)"

definition backspace :: "vbe_mode_info \<Rightarrow> video \<Rightarrow> video" where
  "backspace vm v =
     (let v = (if cursorX v > 0 then v\<lparr>cursorX := sub32 (cursorX v) (font_size v * 8)\<rparr>
               else if cursorY v > 0
               then v\<lparr>cursorY := sub32 (cursorY v) (font_size v * 16), cursorX := sub32 get_max_width (font_size v * 8)\<rparr>
               else v)
      in draw_rectangle vm (bg_color v) (cursorX v) (cursorY v) (wrap32 (font_size v * 8)) (wrap32 (font_size v * 16)) v)"

definition newline :: "vbe_mode_info \<Rightarrow> video \<Rightarrow> video" where
  "newline vm v = check_line_up vm (v\<lparr>cursorX := 0, cursorY := wrap32 (cursorY v + font_size v * 16)\<rparr>)"

text \<open>The macro \<open>is_minusc\<close> asks for a character that is at most 'a' and at least 'z'.\<close>

definition is_minusc :: "byte \<Rightarrow> bool" where
  "is_minusc c \<longleftrightarrow> sint c \<le> 97 \<and> 122 \<le> sint c"

definition glyph :: "byte \<Rightarrow> nat" where
  "glyph c =
     (let start = sint c - 33;
          start = (if start > 92 * 32 \<or> start < 0 then 3 else start);
          start = (if is_minusc c then sint c - 97 else start)
      in nat start)"

text \<open>The nine columns of one byte: bit 0, then \<open>aux\<close> over bits 1 to 7 and once more, shifted out.\<close>

definition draw_byte :: "vbe_mode_info \<Rightarrow> nat \<Rightarrow> nat \<Rightarrow> nat \<Rightarrow> nat \<Rightarrow> video \<Rightarrow> video" where
  "draw_byte vm b a y hex_color v =
     (let v = (if b AND 1 \<noteq> 0 then put_square vm a y (font_size v) hex_color v else v)
      in for_loop 8 (\<lambda>j v.
           if drop_bit j (b AND (2 * 2 ^ j) mod 256) \<noteq> 0
           then put_square vm (wrap32 (a + (j + 1) * font_size v)) y (font_size v) hex_color v else v) v)"

text \<open>The loop over the 32 bytes of a glyph from \<open>i\<close> on, at \<open>a\<close> in the line \<open>y\<close>.\<close>

fun glyph_loop :: "vbe_mode_info \<Rightarrow> nat \<Rightarrow> nat \<Rightarrow> nat \<Rightarrow> nat \<Rightarrow> nat \<Rightarrow> nat \<Rightarrow> video \<Rightarrow> nat \<Rightarrow> video option" where
  "glyph_loop vm start hex_color x i a y v 0 = Some v"
| "glyph_loop vm start hex_color x i a y v (Suc n) =
     (let (a, y) = (if i mod 2 = 0 \<and> i \<noteq> 0 then (x, wrap32 (y + font_size v)) else (a, y))
      in if i + start * 32 < length font
         then glyph_loop vm start hex_color x (i + 1) (wrap32 (a + 9 * font_size v)) y
                (draw_byte vm (font ! (i + start * 32)) a y hex_color v) n
         else None)"

definition draw_char :: "vbe_mode_info \<Rightarrow> nat \<Rightarrow> byte \<Rightarrow> video \<Rightarrow> video option" where
  "draw_char vm hex_color c v =
     (if c = ch CHR '' '' then Some v
      else glyph_loop vm (glyph c) hex_color (cursorX v) 0 (cursorX v) (cursorY v) v 32)"

text \<open>The loop of \<open>tab\<close>: blanks draw nothing and move the cursor.\<close>

fun tab_loop :: "vbe_mode_info \<Rightarrow> nat \<Rightarrow> video \<Rightarrow> video option" where
  "tab_loop vm 0 v = Some v"
| "tab_loop vm (Suc n) v = do {
     v \<leftarrow> draw_char vm WHITE (ch CHR '' '') v;
     tab_loop vm n (v\<lparr>cursorX := wrap32 (cursorX v + font_size v * 8)\<rparr>)
   }"

definition tab :: "vbe_mode_info \<Rightarrow> video \<Rightarrow> video option" where
  "tab vm v =
     (let w = wrap32 (font_size v * 8)
      in if w = 0 then None else tab_loop vm (5 - (cursorX v div w) mod 5) v)"

definition is_white_space :: "byte \<Rightarrow> bool" where
  "is_white_space c \<longleftrightarrow> c = ch CHR '' '' \<or> c = 11 \<or> c = 13 \<or> c = 7 \<or> c = 12"

definition character :: "vbe_mode_info \<Rightarrow> nat \<Rightarrow> byte \<Rightarrow> video \<Rightarrow> video option" where
  "character vm hex_color c v =
     (if c = 8 then Some (backspace vm v)
      else if is_white_space c then Some (v\<lparr>cursorX := wrap32 (cursorX v + font_size v * 8)\<rparr>)
      else if c = 10 then Some (newline vm v)
      else if c = 9 then tab vm v
      else do {
        v \<leftarrow> draw_char vm hex_color c (check_line_up vm v);
        Some (v\<lparr>cursorX := wrap32 (cursorX v + font_size v * 8)\<rparr>)
      })"

definition character_at :: "vbe_mode_info \<Rightarrow> nat \<Rightarrow> byte \<Rightarrow> nat \<Rightarrow> nat \<Rightarrow> video \<Rightarrow> video option" where
  "character_at vm hex_color c x y v = do {
     w \<leftarrow> character vm hex_color c (v\<lparr>cursorX := x, cursorY := y\<rparr>);
     Some (w\<lparr>cursorX := cursorX v, cursorY := cursorY v\<rparr>)
   }"

fun draw_word_color :: "vbe_mode_info \<Rightarrow> nat \<Rightarrow> byte list \<Rightarrow> video \<Rightarrow> video option" where
  "draw_word_color vm hex_color [] v = Some v"
| "draw_word_color vm hex_color (c # word) v =
     (if c = 0 then Some v else do { v \<leftarrow> character vm hex_color c v; draw_word_color vm hex_color word v })"

definition draw_word_colorAt :: "vbe_mode_info \<Rightarrow> nat \<Rightarrow> byte list \<Rightarrow> nat \<Rightarrow> nat \<Rightarrow> video \<Rightarrow> video option" where
  "draw_word_colorAt vm hex_color word x y v = do {
     w \<leftarrow> draw_word_color vm hex_color word (v\<lparr>cursorX := x, cursorY := y\<rparr>);
     Some (w\<lparr>cursorX := cursorX v, cursorY := cursorY v\<rparr>)
   }"

definition draw_word :: "vbe_mode_info \<Rightarrow> byte list \<Rightarrow> video \<Rightarrow> video option" where
  "draw_word vm = draw_word_color vm WHITE"

definition draw_word_colorLen :: "vbe_mode_info \<Rightarrow> nat \<Rightarrow> byte list \<Rightarrow> int \<Rightarrow> video \<Rightarrow> video option" where
  "draw_word_colorLen vm color buff len = draw_word_color vm color (take (nat len) buff)"

definition draw_word_len :: "vbe_mode_info \<Rightarrow> byte list \<Rightarrow> int \<Rightarrow> video \<Rightarrow> video option" where
  "draw_word_len vm = draw_word_colorLen vm WHITE"

text \<open>An \<open>int\<close> becomes the unsigned 64-bit argument of \<open>uint_to_base\<close>.\<close>

definition draw_number_color :: "vbe_mode_info \<Rightarrow> int \<Rightarrow> nat \<Rightarrow> video \<Rightarrow> video option" where
  "draw_number_color vm n hex_color v = do {
     (k, buffer) \<leftarrow> uint_to_base (nat (n mod 2 ^ 64)) 10;
     draw_word_color vm hex_color (bytes buffer) v
   }"

definition draw_number :: "vbe_mode_info \<Rightarrow> int \<Rightarrow> video \<Rightarrow> video option" where
  "draw_number vm n = draw_number_color vm n WHITE"

definition draw_registers :: "vbe_mode_info \<Rightarrow> int \<Rightarrow> video \<Rightarrow> video option" where
  "draw_registers vm n v = do {
     (k, buffer) \<leftarrow> uint_to_base (nat (n mod 2 ^ 64)) 16;
     v \<leftarrow> draw_word_color vm WHITE (bytes buffer) v;
     Some (newline vm v)
   }"

definition draw_number_color_at :: "vbe_mode_info \<Rightarrow> nat \<Rightarrow> int \<Rightarrow> nat \<Rightarrow> nat \<Rightarrow> video \<Rightarrow> video option" where
  "draw_number_color_at vm hex_color n x y v = do {
     (k, buffer) \<leftarrow> uint_to_base (nat (n mod 2 ^ 64)) 10;
     draw_word_colorAt vm hex_color (bytes buffer) x y v
   }"

definition invalid_fd :: "vbe_mode_info \<Rightarrow> video \<Rightarrow> video option" where
  "invalid_fd vm = draw_word_color vm RED (bytes ''Invalid file descriptor'')"

definition draw_word_padded :: "vbe_mode_info \<Rightarrow> nat \<Rightarrow> byte list \<Rightarrow> int \<Rightarrow> video \<Rightarrow> video option" where
  "draw_word_padded vm hex_color word w v = do {
     v \<leftarrow> draw_word_color vm hex_color word v;
     draw_word_color vm hex_color (replicate (nat w - length word) (ch CHR '' '')) v
   }"

definition draw_number_padded :: "vbe_mode_info \<Rightarrow> nat \<Rightarrow> int \<Rightarrow> int \<Rightarrow> video \<Rightarrow> video option" where
  "draw_number_padded vm hex_color n w v = do {
     (k, buffer) \<leftarrow> uint_to_base (nat (n mod 2 ^ 64)) 10;
     draw_word_padded vm hex_color (bytes buffer) w v
   }"

section \<open>Pixels on the screen\<close>

text \<open>The mode the driver is written for: 1024 by 768, rows apart, the buffer below 4 GB.\<close>

definition screen_ok :: "vbe_mode_info \<Rightarrow> bool" where
  "screen_ok vm \<longleftrightarrow> vbe_width vm = 1024 \<and> vbe_height vm = 768 \<and> 3 * 1024 \<le> pitch vm \<and> pitch vm * 768 < 2 ^ 32"

lemma pixel_offset_eq:
  assumes "screen_ok vm" "x < 1024" "y < 768"
  shows "pixel_offset vm x y = pitch vm * y + 3 * x" "pitch vm * y + 3 * x + 3 \<le> pitch vm * (y + 1)"
    "pitch vm * (y + 1) \<le> pitch vm * 768" "pitch vm * y + 3 * x + 3 < 2 ^ 32"
proof -
  have y: "pitch vm * (y + 1) \<le> pitch vm * 768" using assms(3) by (intro mult_le_mono2) simp
  have x: "pitch vm * y + 3 * x + 3 \<le> pitch vm * (y + 1)" using assms(1,2) by (simp add: screen_ok_def)
  have b: "pitch vm * y + 3 * x + 3 < 2 ^ 32" using x y assms(1) unfolding screen_ok_def by linarith
  show "pixel_offset vm x y = pitch vm * y + 3 * x" using b by (simp add: pixel_offset_def mult.commute)
  show "pitch vm * y + 3 * x + 3 \<le> pitch vm * (y + 1)" "pitch vm * (y + 1) \<le> pitch vm * 768"
    "pitch vm * y + 3 * x + 3 < 2 ^ 32" by (rule x y b)+
qed

lemma color_bytes: "FROM_RGB (unat (of_nat (TO_GREEN c) :: byte)) (unat (of_nat (TO_BLUE c) :: byte))
    (unat (of_nat (TO_RED c) :: byte)) = c mod 2 ^ 24"
proof -
  have small: "unat (of_nat (n AND 0xFF) :: byte) = take_bit 8 n" for n :: nat
  proof -
    have "n AND 0xFF = take_bit 8 n" by (simp add: take_bit_eq_mask mask_eq_exp_minus_1)
    then show ?thesis by (simp add: unat_of_nat take_bit_eq_mod)
  qed
  have "c mod 2 ^ 24 = take_bit 24 c" by (simp add: take_bit_eq_mod)
  then show ?thesis unfolding FROM_RGB_def TO_RED_def TO_BLUE_def TO_GREEN_def small
  proof (simp only:, intro bit_eqI)
    fix n :: nat
    consider "n < 8" | "8 \<le> n" "n < 16" | "16 \<le> n" "n < 24" | "24 \<le> n" by linarith
    then show "bit (push_bit 16 (take_bit 8 (drop_bit 16 c)) OR push_bit 8 (take_bit 8 (drop_bit 8 c)) OR take_bit 8 c) n =
        bit (take_bit 24 c) n"
      by cases (auto simp: bit_simps)
  qed
qed

lemma put_get_pixel:
  assumes "screen_ok vm" "x < 1024" "y < 768" "x' < 1024" "y' < 768"
  shows "get_pixel_hex vm x' y' (put_pixel vm c x y v) =
    (if x' = x \<and> y' = y then c mod 2 ^ 24 else get_pixel_hex vm x' y' v)"
proof -
  note o = pixel_offset_eq [OF assms(1-3)] and o' = pixel_offset_eq [OF assms(1,4,5)]
  let ?o = "pitch vm * y + 3 * x" and ?o' = "pitch vm * y' + 3 * x'"
  show ?thesis
  proof (cases "x' = x \<and> y' = y")
    case True
    then show ?thesis using o(1,4) color_bytes [of c] by (simp add: get_pixel_hex_def put_pixel_def Let_def)
  next
    case False
    have "?o' + 3 \<le> ?o \<or> ?o + 3 \<le> ?o'"
    proof (cases "y' = y")
      case True
      then show ?thesis using False by auto
    next
      case ne: False
      then have "y' + 1 \<le> y \<or> y + 1 \<le> y'" by auto
      then have "pitch vm * (y' + 1) \<le> pitch vm * y \<or> pitch vm * (y + 1) \<le> pitch vm * y'"
        using mult_le_mono2 by blast
      then show ?thesis using o(2) o'(2) by linarith
    qed
    then show ?thesis using False o(1,4) o'(1,4) by (auto simp: get_pixel_hex_def put_pixel_def Let_def)
  qed
qed

text \<open>Drawing that stays inside the frame buffer and leaves the text state alone.\<close>

definition paints :: "vbe_mode_info \<Rightarrow> video \<Rightarrow> video \<Rightarrow> bool" where
  "paints vm v w \<longleftrightarrow> w = v\<lparr>fb := fb w\<rparr> \<and>
     (\<forall>a. a < framebuffer vm \<or> framebuffer vm + pitch vm * 768 \<le> a \<longrightarrow> fb w a = fb v a)"

lemma paints_refl [simp]: "paints vm v v"
  by (simp add: paints_def)

lemma paints_trans: "paints vm u v \<Longrightarrow> paints vm v w \<Longrightarrow> paints vm u w"
  unfolding paints_def by (metis video.update_convs(1) video.select_convs(1) video.surjective)

lemma paints_simps:
  assumes "paints vm v w"
  shows "cursorX w = cursorX v" "cursorY w = cursorY v" "font_size w = font_size v" "bg_color w = bg_color v"
    "font_color w = font_color v"
  using assms by (auto simp: paints_def video.defs intro: arg_cong) (metis video.ext_inject video.surjective video.update_convs(1))+

lemma put_pixel_paints:
  assumes "screen_ok vm" "x < 1024" "y < 768"
  shows "paints vm v (put_pixel vm c x y v)"
proof -
  note o = pixel_offset_eq [OF assms]
  have "pitch vm * y + 3 * x + 3 \<le> pitch vm * 768" using o(2,3) by linarith
  then show ?thesis using o(1,4) by (auto simp: paints_def put_pixel_def Let_def)
qed

lemma for_loop_0 [simp]: "for_loop 0 f v = v"
  by (simp add: for_loop_def)

lemma for_loop_Suc: "for_loop (Suc n) f v = f n (for_loop n f v)"
  by (simp add: for_loop_def)

lemma for_loop_paints:
  "(\<And>i w. i < n \<Longrightarrow> paints vm v w \<Longrightarrow> paints vm w (f i w)) \<Longrightarrow> paints vm v (for_loop n f v)"
proof (induction n)
  case (Suc n)
  then have "paints vm v (for_loop n f v)" by simp
  then show ?case using Suc.prems [of n] paints_trans by (auto simp: for_loop_Suc)
qed simp

lemma draw_rectangle_paints:
  assumes "screen_ok vm" "x + w \<le> 1024" "y + h \<le> 768"
  shows "paints vm v (draw_rectangle vm c x y w h v)"
  unfolding draw_rectangle_def
  by (rule for_loop_paints, rule for_loop_paints) (use assms in \<open>simp add: put_pixel_paints\<close>)

lemma put_square_paints:
  assumes "screen_ok vm" "x + sz \<le> 1024" "y + sz \<le> 768"
  shows "paints vm v (put_square vm x y sz c v)"
  unfolding put_square_def
  by (rule for_loop_paints, rule for_loop_paints) (use assms in \<open>simp add: put_pixel_paints\<close>)

text \<open>\<open>draw_rectangle\<close> on the screen sets exactly the pixels of the rectangle to the low 24
  bits of the colour, as \<open>get_pixel_hex\<close> reads them back, and writes nothing outside the
  frame buffer.\<close>

lemma draw_rectangle_exact:
  assumes "screen_ok vm" "x + w \<le> 1024" "y + h \<le> 768" "x' < 1024" "y' < 768"
  shows "get_pixel_hex vm x' y' (draw_rectangle vm c x y w h v) =
      (if x \<le> x' \<and> x' < x + w \<and> y \<le> y' \<and> y' < y + h then c mod 2 ^ 24 else get_pixel_hex vm x' y' v) \<and>
    paints vm v (draw_rectangle vm c x y w h v)"
proof
  have row: "get_pixel_hex vm x' y' (for_loop n (\<lambda>j. put_pixel vm c (wrap32 (x + j)) (wrap32 r)) u) =
      (if x \<le> x' \<and> x' < x + n \<and> y' = r then c mod 2 ^ 24 else get_pixel_hex vm x' y' u)"
    if "x + n \<le> 1024" "r < 768" for n r u
    using that
  proof (induction n)
    case (Suc n)
    then show ?case using assms by (auto simp: for_loop_Suc put_get_pixel)
  qed simp
  have "get_pixel_hex vm x' y' (for_loop n (\<lambda>i. for_loop w (\<lambda>j. put_pixel vm c (wrap32 (x + j)) (wrap32 (y + i)))) v) =
      (if x \<le> x' \<and> x' < x + w \<and> y \<le> y' \<and> y' < y + n then c mod 2 ^ 24 else get_pixel_hex vm x' y' v)"
    if "y + n \<le> 768" for n
    using that
  proof (induction n)
    case (Suc n)
    then show ?case using assms(2) row [of w "y + n"] by (auto simp: for_loop_Suc)
  qed auto
  then show "get_pixel_hex vm x' y' (draw_rectangle vm c x y w h v) =
      (if x \<le> x' \<and> x' < x + w \<and> y \<le> y' \<and> y' < y + h then c mod 2 ^ 24 else get_pixel_hex vm x' y' v)"
    using assms(3) by (simp add: draw_rectangle_def)
  show "paints vm v (draw_rectangle vm c x y w h v)" by (rule draw_rectangle_paints [OF assms(1-3)])
qed

section \<open>Characters stay on the screen\<close>

text \<open>The cursor stands on the character grid of the font size, above the end of the screen.\<close>

definition on_text_grid :: "video \<Rightarrow> bool" where
  "on_text_grid v \<longleftrightarrow> 0 < font_size v \<and> 1024 mod (8 * font_size v) = 0 \<and> 768 mod (16 * font_size v) = 0 \<and>
     cursorX v mod (8 * font_size v) = 0 \<and> cursorX v < 2 ^ 32 \<and>
     cursorY v mod (16 * font_size v) = 0 \<and> cursorY v < 768"

lemma grid_step:
  assumes "(a::nat) mod n = 0" "b mod n = 0" "a < b"
  shows "a + n \<le> b"
proof -
  obtain i j where "a = n * i" "b = n * j" using assms(1,2) by (auto elim!: dvdE simp: mod_eq_0_iff_dvd)
  then show ?thesis using assms(3) by (metis Suc_leI add.commute mult_Suc_right mult_le_mono2 nat_mult_less_cancel_disj)
qed

lemma grid_sizes:
  assumes "on_text_grid v"
  shows "8 * font_size v \<le> 1024" "16 * font_size v \<le> 768" "cursorY v + 16 * font_size v \<le> 768"
    "2 ^ 32 mod (8 * font_size v) = 0"
proof -
  have d: "8 * font_size v dvd 1024" "16 * font_size v dvd 768" using assms by (auto simp: on_text_grid_def)
  show "8 * font_size v \<le> 1024" "16 * font_size v \<le> 768" using d by (auto intro: dvd_imp_le)
  show "cursorY v + 16 * font_size v \<le> 768" using assms by (intro grid_step) (auto simp: on_text_grid_def)
  have "(1024 :: nat) dvd 2 ^ 32" by simp
  then show "2 ^ 32 mod (8 * font_size v) = 0" using d(1) dvd_trans by (simp only: mod_eq_0_iff_dvd)
qed

lemma draw_byte_paints:
  assumes "screen_ok vm" "b = 0 \<or> a + 8 * font_size v \<le> 1024" "y + font_size v \<le> 768"
  shows "paints vm v (draw_byte vm b a y c v)"
proof (cases "b = 0")
  case True
  have "for_loop n (\<lambda>j v. v) v = v" for n by (induction n) (simp_all add: for_loop_Suc)
  then show ?thesis using True by (simp add: draw_byte_def)
next
  case False
  then have a: "a + 8 * font_size v \<le> 1024" using assms(2) by simp
  define v1 where "v1 = (if b AND 1 \<noteq> 0 then put_square vm a y (font_size v) c v else v)"
  have v1: "paints vm v v1" unfolding v1_def using put_square_paints [OF assms(1), of a "font_size v" y] a assms(3) by auto
  have "paints vm v1 (for_loop 8 (\<lambda>j v. if drop_bit j (b AND (2 * 2 ^ j) mod 256) \<noteq> 0
      then put_square vm (wrap32 (a + (j + 1) * font_size v)) y (font_size v) c v else v) v1)"
  proof (rule for_loop_paints)
    fix j :: nat and w assume j: "j < 8" "paints vm v1 w"
    have fs: "font_size w = font_size v" using paints_simps(3) [OF j(2)] paints_simps(3) [OF v1] by simp
    show "paints vm w (if drop_bit j (b AND (2 * 2 ^ j) mod 256) \<noteq> 0
      then put_square vm (wrap32 (a + (j + 1) * font_size w)) y (font_size w) c w else w)"
    proof (cases "j = 7")
      case False
      then have "(j + 2) * font_size v \<le> 8 * font_size v" using j(1) by (intro mult_le_mono1) simp
      then have "a + (j + 1) * font_size v + font_size v \<le> 1024"
        unfolding add_mult_distrib using a by linarith
      then show ?thesis using put_square_paints [OF assms(1), of "a + (j + 1) * font_size v" "font_size v" y] assms(3)
        by (simp add: fs)
    qed simp
  qed
  from paints_trans [OF v1 this] show ?thesis unfolding draw_byte_def Let_def v1_def .
qed

text \<open>The line in which byte \<open>i\<close> of a glyph is reached is the one of byte \<open>i - 1\<close>.\<close>

lemma glyph_loop_paints:
  assumes "screen_ok vm" "start \<le> 92" "x + 8 * font_size v \<le> 1024" "ytop + 16 * font_size v \<le> 768"
    "i + n = 32" "y = ytop + ((i - 1) div 2) * font_size v" "i = 0 \<longrightarrow> a = x"
  shows "\<exists>w. glyph_loop vm start c x i a y v n = Some w \<and> paints vm v w"
  using assms
proof (induction n arbitrary: i a y v)
  case (Suc n)
  define a' y' where "a' = (if i mod 2 = 0 \<and> i \<noteq> 0 then x else a)"
    and "y' = (if i mod 2 = 0 \<and> i \<noteq> 0 then wrap32 (y + font_size v) else y)"
  let ?b = "font ! (i + start * 32)"
  have idx: "i + start * 32 < length font" using Suc.prems(2,5) by (simp add: length_font)
  have row: "y' = ytop + (i div 2) * font_size v"
  proof -
    have "(i div 2) * font_size v \<le> 15 * font_size v" using Suc.prems(5) by (intro mult_le_mono1) linarith
    then have "ytop + (i div 2) * font_size v \<le> 768" using Suc.prems(4) by linarith
    then have w: "ytop + (i div 2) * font_size v < 2 ^ 32" by simp
    show ?thesis
    proof (cases "i mod 2 = 0 \<and> i \<noteq> 0")
      case True
      then have "(i - 1) div 2 + 1 = i div 2" by presburger
      then have "((i - 1) div 2) * font_size v + font_size v = (i div 2) * font_size v" by (metis add_mult_distrib nat_mult_1)
      then show ?thesis using True Suc.prems(6) w by (simp add: y'_def)
    next
      case False
      then have "(i - 1) div 2 = i div 2" by presburger
      then show ?thesis using False Suc.prems(6) by (auto simp: y'_def)
    qed
  qed
  have "i div 2 * font_size v + font_size v \<le> 16 * font_size v"
  proof -
    have "(i div 2 + 1) * font_size v \<le> 16 * font_size v" using Suc.prems(5) by (intro mult_le_mono1) linarith
    then show ?thesis by simp
  qed
  then have y: "y' + font_size v \<le> 768" using row Suc.prems(4) by linarith
  have b: "?b = 0 \<or> a' + 8 * font_size v \<le> 1024"
  proof (cases "odd i")
    case True
    then show ?thesis using font_odd [OF _ idx] by simp
  next
    case False
    then have "a' = x" using Suc.prems(7) by (auto simp: a'_def)
    then show ?thesis using Suc.prems(3) by simp
  qed
  define w where "w = draw_byte vm ?b a' y' c v"
  have w: "paints vm v w" unfolding w_def by (rule draw_byte_paints [OF Suc.prems(1) b y])
  have "\<exists>u. glyph_loop vm start c x (i + 1) (wrap32 (a' + 9 * font_size v)) y' w n = Some u \<and> paints vm w u"
    using Suc.prems row paints_simps(3) [OF w] by (intro Suc.IH) simp_all
  then show ?case using idx paints_trans [OF w] by (auto simp: Let_def a'_def y'_def w_def)
qed simp

text \<open>The bytes whose glyph is in the table: up to '}' as signed characters.\<close>

lemma glyph_in_table: "sint c \<le> 125 \<Longrightarrow> glyph c \<le> 92"
  by (auto simp: glyph_def is_minusc_def Let_def nat_le_iff)

lemma draw_char_paints:
  assumes "screen_ok vm" "sint c \<le> 125" "cursorX v + 8 * font_size v \<le> 1024" "cursorY v + 16 * font_size v \<le> 768"
  shows "\<exists>w. draw_char vm hex c v = Some w \<and> paints vm v w"
  using glyph_loop_paints [OF assms(1) glyph_in_table [OF assms(2)] assms(3,4), of 0 32 "cursorY v" "cursorX v" hex]
  by (simp add: draw_char_def)

lemma sub32_id: "b \<le> a \<Longrightarrow> a < 2 ^ 32 \<Longrightarrow> sub32 a b = a - b"
  by (simp add: sub32_def of_nat_diff nat_diff_distrib)

text \<open>Only the frame buffer and the cursor change.\<close>

definition stays :: "vbe_mode_info \<Rightarrow> video \<Rightarrow> video \<Rightarrow> bool" where
  "stays vm v w \<longleftrightarrow> on_text_grid w \<and> font_size w = font_size v \<and>
     (\<forall>a. a < framebuffer vm \<or> framebuffer vm + pitch vm * 768 \<le> a \<longrightarrow> fb w a = fb v a)"

lemma stays_trans: "stays vm u v \<Longrightarrow> stays vm v w \<Longrightarrow> stays vm u w"
  by (simp add: stays_def)

lemma move_one_line_up_eq:
  assumes ok: "screen_ok vm" and h: "h = font_size v * 16" "h \<le> 768" "h \<le> cursorY v" "cursorY v < 2 ^ 32"
    and u: "u = v\<lparr>fb := write_bytes (framebuffer vm) (bytes_at (fb v) (framebuffer vm + pitch vm * h)
      (pitch vm * (768 - h))) (fb v)\<rparr>"
    and w: "w = draw_rectangle vm (bg_color v) 0 (768 - h) 1024 h u"
  shows "move_one_line_up vm v = w\<lparr>cursorY := cursorY v - h\<rparr>"
proof -
  have p: "pitch vm * h \<le> pitch vm * 768" "pitch vm * (768 - h) \<le> pitch vm * 768"
    using h(2) by (auto intro: mult_le_mono2)
  have b: "pitch vm * h < 2 ^ 32" "pitch vm * (768 - h) < 2 ^ 32"
    using p ok unfolding screen_ok_def by linarith+
  have s: "wrap32 (pitch vm * font_size v * 16) = pitch vm * h" using b(1) by (simp add: h(1) mult.assoc)
  have n: "wrap32 (pitch vm * (768 - h)) = pitch vm * (768 - h)" "sub32 (vbe_height vm) h = 768 - h" "wrap32 h = h"
    using b(2) ok h(2) by (simp_all add: screen_ok_def sub32_id)
  have c: "snd (memcpy (framebuffer vm) (framebuffer vm + pitch vm * h) (pitch vm * (768 - h)) (fb v)) = fb u"
    by (simp add: memcpy_exact u)
  have pw: "paints vm u w" unfolding w using h(2) by (intro draw_rectangle_paints [OF ok]) auto
  have uv: "u = v\<lparr>fb := fb u\<rparr>" "bg_color u = bg_color v" "font_size u = font_size v" "cursorY u = cursorY v"
    by (simp_all add: u)
  have "move_one_line_up vm v = w\<lparr>cursorY := sub32 (cursorY w) (font_size w * 16)\<rparr>"
    unfolding move_one_line_up_def Let_def s h(1) [symmetric] n c
    by (simp only: uv(1) [symmetric] uv(2,3) h(1) [symmetric] n w)
  then show ?thesis using paints_simps(2,3) [OF pw] uv h sub32_id by simp
qed

lemma move_one_line_up_stays:
  assumes "screen_ok vm" "on_text_grid (v\<lparr>cursorY := cursorY v - 16 * font_size v\<rparr>)" "16 * font_size v \<le> cursorY v"
    "cursorY v < 2 ^ 32"
  shows "stays vm v (move_one_line_up vm v)"
proof -
  define h where "h = font_size v * 16"
  define u where "u = v\<lparr>fb := write_bytes (framebuffer vm) (bytes_at (fb v) (framebuffer vm + pitch vm * h)
    (pitch vm * (768 - h))) (fb v)\<rparr>"
  define w where "w = draw_rectangle vm (bg_color v) 0 (768 - h) 1024 h u"
  have h: "h \<le> 768" "h \<le> cursorY v" using grid_sizes(2) [OF assms(2)] assms(3) by (simp_all add: h_def mult.commute)
  have w: "paints vm u w" unfolding w_def using h by (intro draw_rectangle_paints [OF assms(1)]) auto
  have eq: "move_one_line_up vm v = w\<lparr>cursorY := cursorY v - h\<rparr>"
    by (rule move_one_line_up_eq [OF assms(1) h_def h assms(4) u_def w_def])
  have le: "pitch vm * (768 - h) \<le> pitch vm * 768" by (intro mult_le_mono2) simp
  have "fb u a = fb v a" if "a < framebuffer vm \<or> framebuffer vm + pitch vm * 768 \<le> a" for a
  proof -
    have "a < framebuffer vm \<or> framebuffer vm + pitch vm * (768 - h) \<le> a" using that le by linarith
    then show ?thesis by (simp add: u_def write_bytes_outside)
  qed
  then have "fb w a = fb v a" if "a < framebuffer vm \<or> framebuffer vm + pitch vm * 768 \<le> a" for a
    using that w unfolding paints_def by metis
  then show ?thesis using assms(2) paints_simps [OF w] by (simp add: stays_def eq on_text_grid_def u_def h_def mult.commute)
qed

lemma check_line_up_stays:
  assumes ok: "screen_ok vm" and grid: "on_text_grid (v\<lparr>cursorY := 0\<rparr>)" and y: "cursorY v mod (16 * font_size v) = 0"
    "cursorY v < 768 \<or> cursorY v = 768 \<and> cursorX v < 1024"
  shows "stays vm v (check_line_up vm v) \<and> cursorX (check_line_up vm v) < 1024"
proof -
  let ?h = "16 * font_size v"
  define u where "u = (if cursorX v \<ge> get_max_width
    then v\<lparr>cursorX := 0, cursorY := wrap32 (cursorY v + font_size v * 16)\<rparr> else v)"
  have h: "0 < ?h" "?h \<le> 768" "768 mod ?h = 0" using grid grid_sizes(2) [OF grid] by (auto simp: on_text_grid_def)
  have step: "cursorY v + ?h \<le> 768" if "cursorY v < 768" using grid_step [OF y(1) h(3) that] .
  have u: "font_size u = font_size v" "fb u = fb v" "cursorX u < 1024" "cursorY u \<le> 768" "cursorY u mod ?h = 0"
    "cursorX u mod (8 * font_size v) = 0"
    using grid y step by (auto simp: u_def on_text_grid_def get_max_width_def SCREEN_WIDTH_def mult.commute)
  have c: "check_line_up vm v = (if cursorY u \<ge> 768 then move_one_line_up vm (u\<lparr>cursorX := 0\<rparr>) else u)"
    by (simp add: check_line_up_def Let_def u_def get_max_height_def SCREEN_HEIGHT_def)
  show ?thesis
  proof (cases "cursorY u = 768")
    case False
    then show ?thesis using u grid c by (simp add: stays_def on_text_grid_def)
  next
    case True
    let ?u = "u\<lparr>cursorX := 0\<rparr>"
    have m: "(768 - ?h) mod ?h = 0" using h by (metis le_mod_geq)
    then have g: "on_text_grid (?u\<lparr>cursorY := cursorY ?u - 16 * font_size ?u\<rparr>)"
      using grid u True h by (simp add: on_text_grid_def)
    have st: "stays vm ?u (move_one_line_up vm ?u)"
      using g True u(1) h by (intro move_one_line_up_stays [OF ok]) auto
    moreover have "cursorX (move_one_line_up vm ?u) = 0"
    proof -
      define k where "k = font_size ?u * 16"
      define q where "q = ?u\<lparr>fb := write_bytes (framebuffer vm) (bytes_at (fb ?u) (framebuffer vm + pitch vm * k)
        (pitch vm * (768 - k))) (fb ?u)\<rparr>"
      define w where "w = draw_rectangle vm (bg_color ?u) 0 (768 - k) 1024 k q"
      have k: "k \<le> 768" "k \<le> cursorY ?u" using h True u(1) by (simp_all add: k_def mult.commute)
      have "paints vm q w" unfolding w_def using k by (intro draw_rectangle_paints [OF ok]) auto
      then have "cursorX w = 0" using paints_simps(1) by (simp add: q_def)
      then show ?thesis using move_one_line_up_eq [OF ok k_def k _ q_def w_def] True by simp
    qed
    ultimately show ?thesis using c True u by (simp add: stays_def)
  qed
qed

lemma advance_stays:
  assumes "on_text_grid v"
  shows "stays vm v (v\<lparr>cursorX := wrap32 (cursorX v + font_size v * 8)\<rparr>)"
proof -
  let ?k = "8 * font_size v"
  have "?k dvd cursorX v + font_size v * 8" using assms by (auto simp: on_text_grid_def mult.commute)
  moreover have "?k dvd 2 ^ 32" using grid_sizes(4) [OF assms] by (simp only: mod_eq_0_iff_dvd)
  ultimately have "?k dvd wrap32 (cursorX v + font_size v * 8)" unfolding wrap32_def by (intro dvd_mod)
  then show ?thesis using assms by (simp add: stays_def on_text_grid_def wrap32_def)
qed

lemma tab_loop_stays: "on_text_grid v \<Longrightarrow> \<exists>w. tab_loop vm n v = Some w \<and> stays vm v w"
proof (induction n arbitrary: v)
  case 0
  then show ?case by (simp add: stays_def)
next
  case (Suc n)
  let ?v = "v\<lparr>cursorX := wrap32 (cursorX v + font_size v * 8)\<rparr>"
  have s: "stays vm v ?v" by (rule advance_stays [OF Suc.prems])
  then obtain w where "tab_loop vm n ?v = Some w" "stays vm ?v w" using Suc.IH [of ?v] by (auto simp: stays_def)
  then show ?case using stays_trans [OF s] by (auto simp: draw_char_def)
qed

text \<open>Text without backspaces whose characters all have a glyph.\<close>

definition drawable :: "byte \<Rightarrow> bool" where
  "drawable c \<longleftrightarrow> c \<noteq> 8 \<and> sint c \<le> 125"

lemma character_stays:
  assumes ok: "screen_ok vm" and g: "on_text_grid v" and c: "drawable c"
  shows "\<exists>w. character vm hex c v = Some w \<and> stays vm v w"
proof -
  have nb: "c \<noteq> 8" using c by (simp add: drawable_def)
  consider "is_white_space c" | "\<not> is_white_space c" "c = 10" | "\<not> is_white_space c" "c = 9"
    | "\<not> is_white_space c" "c \<noteq> 10" "c \<noteq> 9" by blast
  then show ?thesis
  proof cases
    case 1
    then show ?thesis using nb advance_stays [OF g] by (simp add: character_def)
  next
    case 2
    let ?v = "v\<lparr>cursorX := 0, cursorY := wrap32 (cursorY v + font_size v * 16)\<rparr>"
    have y: "cursorY v + 16 * font_size v \<le> 768" by (rule grid_sizes(3) [OF g])
    have "stays vm ?v (check_line_up vm ?v)"
      using g y by (intro conjunct1 [OF check_line_up_stays [OF ok]]) (auto simp: on_text_grid_def mult.commute)
    then show ?thesis using 2 by (simp add: character_def newline_def stays_def)
  next
    case 3
    have "0 < font_size v" "font_size v * 8 \<le> 1024" using g grid_sizes(1) [OF g] by (simp_all add: on_text_grid_def mult.commute)
    then show ?thesis using 3 tab_loop_stays [OF g] by (simp add: character_def tab_def Let_def)
  next
    case 4
    let ?u = "check_line_up vm v"
    have u: "stays vm v ?u" "cursorX ?u < 1024"
      using check_line_up_stays [OF ok, of v] g by (auto simp: on_text_grid_def)
    then have gu: "on_text_grid ?u" by (simp add: stays_def)
    have "cursorX ?u + 8 * font_size ?u \<le> 1024" using gu u(2) by (intro grid_step) (auto simp: on_text_grid_def)
    then obtain w where w: "draw_char vm hex c ?u = Some w" "paints vm ?u w"
      using draw_char_paints [OF ok, of c ?u hex] c grid_sizes(3) [OF gu] by (auto simp: drawable_def)
    have sw: "stays vm ?u w" using w(2) gu paints_simps [OF w(2)] by (auto simp: stays_def on_text_grid_def paints_def)
    then have "on_text_grid w" by (simp add: stays_def)
    then show ?thesis using 4 nb w(1) stays_trans [OF u(1) stays_trans [OF sw advance_stays]]
      by (simp add: character_def)
  qed
qed


text \<open>The mode as the boot loader sets it up, and the driver's first state.\<close>

definition demo_vbe :: vbe_mode_info where
  "demo_vbe = \<lparr>framebuffer = 0xE0000000, pitch = 3072, vbe_width = 1024, vbe_height = 768\<rparr>"

lemma demo_screen: "screen_ok demo_vbe"
  by (simp add: screen_ok_def demo_vbe_def)


lemma draw_rectangle_exact_example:
  "get_pixel_hex demo_vbe 7 8 (draw_rectangle demo_vbe RED 5 5 10 10 (video_zero (\<lambda>_. 0))) = RED mod 2 ^ 24 \<and>
    paints demo_vbe (video_zero (\<lambda>_. 0)) (draw_rectangle demo_vbe RED 5 5 10 10 (video_zero (\<lambda>_. 0)))"
  using draw_rectangle_exact [OF demo_screen, of 5 10 5 10 7 8 RED "video_zero (\<lambda>_. 0)"] by simp

end
