(* ===== verification/Devices.thy ===== *)
theory Devices
  imports Pipe Video
begin

text \<open>
  The keyboard (keyboard_buffer.c, drivers/keyboard_driver.c, ScanCodes.h), the speaker
  (drivers/soundDriver.c), the register snapshot (registers.c with the macros of
  asm/interrupts.asm), the exception messages (exceptions.c) and the process table on the
  screen (basicScheduler.c), over the state of the whole machine. What the hardware supplies is
  an argument: the video mode, the real-time clock, the speaker port, the tick counts a busy
  wait reads, and the strings at the low addresses the pipes misuse.
\<close>

section \<open>The machine\<close>

record register_struct_t =
  rax :: nat
  rbx :: nat
  rcx :: nat
  rdx :: nat
  rsi :: nat
  rdi :: nat
  rbp :: nat
  rsp_reg :: nat
  r8 :: nat
  r9 :: nat
  r10 :: nat
  r11 :: nat
  r12 :: nat
  r13 :: nat
  r14 :: nat
  r15 :: nat
  ss :: nat
  cs :: nat
  rflags :: nat
  rip :: nat

record machine =
  pip :: pipes
  vid :: video
  buffer_pos :: int
  buff :: "nat list"
  shift_pressed :: nat
  ctrl_pressed :: nat
  flag_snapshot_taken :: nat
  registers :: register_struct_t
  port_writes :: "(nat \<times> nat) list"

record hardware =
  mode :: vbe_mode_info
  rtc :: "nat \<Rightarrow> nat"
  port61 :: nat
  clock :: "nat \<Rightarrow> nat"
  low_string :: "int \<Rightarrow> string option"

text \<open>Running an operation of one part of the machine.\<close>

definition on_kernel :: "(kernel \<Rightarrow> ('a \<times> kernel) option) \<Rightarrow> machine \<Rightarrow> ('a \<times> machine) option" where
  "on_kernel f m = do { (r, k) \<leftarrow> f (kern (pip m)); Some (r, m\<lparr>pip := (pip m)\<lparr>kern := k\<rparr>\<rparr>) }"

definition on_pipes :: "(pipes \<Rightarrow> ('a \<times> pipes) option) \<Rightarrow> machine \<Rightarrow> ('a \<times> machine) option" where
  "on_pipes f m = do { (r, p) \<leftarrow> f (pip m); Some (r, m\<lparr>pip := p\<rparr>) }"

definition on_video :: "(video \<Rightarrow> video option) \<Rightarrow> machine \<Rightarrow> machine option" where
  "on_video f m = do { v \<leftarrow> f (vid m); Some (m\<lparr>vid := v\<rparr>) }"

section \<open>The keyboard buffer\<close>

definition BUFF_SIZE :: nat where "BUFF_SIZE = 4096"

definition get_buffer_position :: "machine \<Rightarrow> int" where
  "get_buffer_position m = buffer_pos m"

definition set_pos :: "int \<Rightarrow> machine \<Rightarrow> machine" where
  "set_pos new_pos m = m\<lparr>buffer_pos := new_pos\<rparr>"

definition in_buffer :: "int \<Rightarrow> machine \<Rightarrow> bool" where
  "in_buffer i m \<longleftrightarrow> 0 \<le> i \<and> i < int (length (buff m))"

definition get_char_at :: "int \<Rightarrow> machine \<Rightarrow> nat option" where
  "get_char_at pos m = (if in_buffer pos m then Some (buff m ! nat pos) else None)"

text \<open>\<open>buff[pos] = x\<close>.\<close>

definition put_at :: "int \<Rightarrow> nat \<Rightarrow> machine \<Rightarrow> machine option" where
  "put_at pos x m = (if in_buffer pos m then Some (m\<lparr>buff := (buff m)[nat pos := x]\<rparr>) else None)"

definition consume_buff_at :: "int \<Rightarrow> machine \<Rightarrow> machine option" where
  "consume_buff_at pos m = put_at pos 0 m"

definition clear_buffer :: "machine \<Rightarrow> machine" where
  "clear_buffer m = m\<lparr>buff := replicate BUFF_SIZE 0\<rparr>"

section \<open>Scan codes\<close>

definition scan_code_table :: "nat list" where
  "scan_code_table = [0, 0, 49, 50, 51, 52, 53, 54, 55, 56, 57, 48, 45, 61, 8, 9, 81, 87, 69, 82, 84, 89, 85, 73, 
     79, 80, 91, 93, 10, 0, 65, 83, 68, 70, 71, 72, 74, 75, 76, 59, 39, 96, 0, 92, 90, 88, 67, 86, 
     66, 78, 77, 0, 0, 0, 0, 0, 0, 32, 0, 0, 0, 0, 0, 0, 0, 0, 0, 0, 0, 0, 0, 55, 94, 57, 45, 52, 
     53, 54, 43, 49, 118, 51, 48, 46, 38, 124]"

definition scan_codes :: "nat \<Rightarrow> byte" where
  "scan_codes k = (if k < length scan_code_table then of_nat (scan_code_table ! k) else 0)"

section \<open>Registers\<close>

text \<open>
  \<open>push_state\<close> leaves the fifteen registers on the stack, the last pushed first; beyond them
  are the return address and, in an interrupt, the frame of the processor. \<open>dState\<close> copies
  stack slots to \<open>registers\<close>; the assembly names its slots in the order \<open>..., drsi, drdi, drsp,
  drbp, ...\<close>, so its \<open>drbp\<close> is the member \<open>rsp\<close> of the C structure and its \<open>drsp\<close> the
  member \<open>rbp\<close>.
\<close>

definition push_state :: "register_struct_t \<Rightarrow> nat list" where
  "push_state c = [r15 c, r14 c, r13 c, r12 c, r11 c, r10 c, r9 c, r8 c, rsi c, rdi c, rbp c, rdx c, rcx c, rbx c, rax c]"

definition iret_frame :: "register_struct_t \<Rightarrow> nat list" where
  "iret_frame c = [rip c, cs c, rflags c, rsp_reg c, ss c]"

definition dState :: "nat list \<Rightarrow> nat \<Rightarrow> register_struct_t option" where
  "dState st cur_rbp =
     (if length st < 20 then None
      else Some \<lparr>rax = st ! 14, rbx = st ! 13, rcx = st ! 12, rdx = st ! 11, rsi = st ! 8, rdi = st ! 9,
        rbp = st ! 18, rsp_reg = cur_rbp, r8 = st ! 7, r9 = st ! 6, r10 = st ! 5, r11 = st ! 4,
        r12 = st ! 3, r13 = st ! 2, r14 = st ! 1, r15 = st ! 0, ss = st ! 19, cs = st ! 16,
        rflags = st ! 17, rip = st ! 15\<rparr>)"

text \<open>
  \<open>save_state\<close>, called with the registers \<open>c\<close> (its return address as \<open>rip\<close>) and the words
  \<open>caller_frame\<close> that its caller has on the stack.
\<close>

definition save_state :: "register_struct_t \<Rightarrow> nat list \<Rightarrow> machine \<Rightarrow> machine option" where
  "save_state c caller_frame m = do {
     r \<leftarrow> dState (push_state c @ rip c # caller_frame) (rbp c);
     Some (m\<lparr>registers := r\<rparr>)
   }"

text \<open>The labels of \<open>print_registers\<close> in order, with the members it draws.\<close>

definition register_rows :: "register_struct_t \<Rightarrow> (string \<times> nat) list" where
  "register_rows r = [(''RIP = 0x'', rip r), (''RAX = 0x'', rax r), (''RBX = 0x'', rbx r), (''RCX = 0x'', rcx r),
     (''RDX = 0x'', rdx r), (''RSP = 0x'', rsp_reg r), (''RBP = 0x'', rbp r), (''RSI = 0x'', rsi r),
     (''RDI = 0x'', rdi r), (''R8  = 0x'', r8 r), (''R9  = 0x'', r9 r), (''R10 = 0x'', r10 r),
     (''R11 = 0x'', r11 r), (''R12 = 0x'', r12 r), (''R13 = 0x'', r13 r), (''R14 = 0x'', r14 r), (''R15 = 0x'', r15 r)]"

text \<open>\<open>draw_registers\<close> takes an \<open>int\<close>: the upper half of a register is lost.\<close>

fun draw_rows :: "vbe_mode_info \<Rightarrow> (string \<times> nat) list \<Rightarrow> video \<Rightarrow> video option" where
  "draw_rows vm [] v = Some v"
| "draw_rows vm ((label, x) # rows) v = do {
     v \<leftarrow> draw_word vm (bytes label) v;
     v \<leftarrow> draw_registers vm (to_int32 (int x)) v;
     draw_rows vm rows v
   }"

definition no_snapshot :: string where
  "no_snapshot = ''Error - No hay snapshot de registros'' @ [CHR 0x0A] @
     ''Presione('' @ [CHR 0x27] @ '';'' @ [CHR 0x27] @ '') para crear uno'' @ [CHR 0x0A]"

definition print_registers :: "hardware \<Rightarrow> register_struct_t \<Rightarrow> machine \<Rightarrow> machine option" where
  "print_registers hw r m =
     (if flag_snapshot_taken m = 0 then on_video (draw_word_color (mode hw) RED (bytes no_snapshot)) m
      else on_video (draw_rows (mode hw) (register_rows r)) m)"

definition print_reg_asm :: "hardware \<Rightarrow> machine \<Rightarrow> machine option" where
  "print_reg_asm hw m = print_registers hw (registers m) m"

section \<open>The speaker\<close>

definition outb :: "nat \<Rightarrow> nat \<Rightarrow> machine \<Rightarrow> machine" where
  "outb port x m = m\<lparr>port_writes := port_writes m @ [(port, x mod 256)]\<rparr>"

text \<open>A frequency of 0 divides by zero.\<close>

definition play_sound :: "hardware \<Rightarrow> nat \<Rightarrow> machine \<Rightarrow> machine option" where
  "play_sound hw nFrequence m =
     (if nFrequence = 0 then None
      else let d = 1193180 div nFrequence; tmp = port61 hw;
               m = outb 0x42 (d div 256) (outb 0x42 d (outb 0x43 0xb6 m))
           in Some (if tmp \<noteq> (tmp OR 3) then outb 0x61 (tmp OR 3) m else m))"

definition nosound :: "hardware \<Rightarrow> machine \<Rightarrow> machine" where
  "nosound hw m = outb 0x61 (port61 hw AND 0xFC) m"

text \<open>
  The busy waits end at the k-th tick count of the clock; the interrupts served meanwhile are
  steps of their own and not part of the wait.
\<close>

definition wait_ms :: "hardware \<Rightarrow> int \<Rightarrow> machine \<Rightarrow> machine option" where
  "wait_ms hw ms m = do { k \<leftarrow> sleepms (clock hw) ms; map_option snd (on_kernel (\<lambda>s. Some ((), s\<lparr>timer_ticks := clock hw k\<rparr>)) m) }"

definition beep :: "hardware \<Rightarrow> int \<Rightarrow> int \<Rightarrow> machine \<Rightarrow> machine option" where
  "beep hw freq time m = do {
     m \<leftarrow> play_sound hw (nat (freq mod 2 ^ 32)) m;
     m \<leftarrow> wait_ms hw time m;
     Some (nosound hw m)
   }"

section \<open>The process table on the screen\<close>

fun status_arr :: "status_t \<Rightarrow> string" where
  "status_arr BLOCKED = ''BLOCKED''"
| "status_arr READY = ''READY''"
| "status_arr RUNNING = ''RUNNING''"
| "status_arr DEAD = ''DEAD''"
| "status_arr ZOMBIE = ''ZOMBIE''"

definition char_as_int :: "nat \<Rightarrow> int" where
  "char_as_int n = sint (of_nat n :: byte)"

definition print_row :: "vbe_mode_info \<Rightarrow> kernel \<Rightarrow> nat \<Rightarrow> nat \<Rightarrow> video \<Rightarrow> video option" where
  "print_row vm s i pcb v = do {
     v \<leftarrow> draw_word_padded vm WHITE (bytes (name_at s (name (process_of s pcb)))) 16 v;
     v \<leftarrow> draw_word_padded vm WHITE (bytes (status_arr (status_of s pcb))) 12 v;
     v \<leftarrow> draw_number_padded vm WHITE (pid_of s pcb) 8 v;
     v \<leftarrow> draw_number_padded vm WHITE (char_as_int (foreground (process_of s pcb))) 8 v;
     v \<leftarrow> draw_number_padded vm WHITE (int i) 10 v;
     v \<leftarrow> draw_number_padded vm WHITE (parent_pid (process_of s pcb)) 8 v;
     draw_word vm [10] v
   }"

fun print_ring :: "vbe_mode_info \<Rightarrow> kernel \<Rightarrow> nat \<Rightarrow> (nat \<times> nat) list \<Rightarrow> video \<Rightarrow> video option" where
  "print_ring vm s i [] v = Some v"
| "print_ring vm s i ((a, pcb) # q) v = do { v \<leftarrow> print_row vm s i pcb v; print_ring vm s i q v }"

fun print_rings :: "vbe_mode_info \<Rightarrow> kernel \<Rightarrow> nat list \<Rightarrow> video \<Rightarrow> video option" where
  "print_rings vm s [] v = Some v"
| "print_rings vm s (i # is) v = do {
     q \<leftarrow> sched_queue s i;
     v \<leftarrow> print_ring vm s i q v;
     print_rings vm s is v
   }"

definition print_process :: "vbe_mode_info \<Rightarrow> kernel \<Rightarrow> video \<Rightarrow> video option" where
  "print_process vm s v = do {
     v \<leftarrow> draw_word_padded vm WHITE (10 # bytes ''Name'') 16 v;
     v \<leftarrow> draw_word_padded vm WHITE (bytes ''Status'') 12 v;
     v \<leftarrow> draw_word_padded vm WHITE (bytes ''PID'') 8 v;
     v \<leftarrow> draw_word_padded vm WHITE (bytes ''Fg'') 8 v;
     v \<leftarrow> draw_word_padded vm WHITE (bytes ''Priority'') 10 v;
     v \<leftarrow> draw_word_padded vm WHITE (bytes ''Parent PID'') 8 v;
     v \<leftarrow> draw_word vm [10] v;
     v \<leftarrow> print_rings vm s [HIGH_PRIORITY, MEDIUM_PRIORITY, LOW_PRIORITY, IDLE_PRIORITY] v;
     v \<leftarrow> draw_word vm (bytes ''Current foreground pid: '') v;
     v \<leftarrow> draw_number vm (foreground_pid s) v;
     draw_word vm [10] v
   }"

section \<open>The keyboard interrupt\<close>

definition sem_id_keyboard :: string where "sem_id_keyboard = ''keyboard''"

definition post_keyboard :: "machine \<Rightarrow> machine option" where
  "post_keyboard m =
     (if process_started (kern (pip m)) \<noteq> 0
      then map_option snd (on_kernel (my_sem_post sem_id_keyboard) m) else Some m)"

text \<open>Control and C: a killed process that is the interrupted one takes the handler with it.\<close>

definition ctrl_c :: "machine \<Rightarrow> machine option" where
  "ctrl_c m = do {
     let p = foreground_pid (kern (pip m));
     (r, m') \<leftarrow> on_kernel kill_foreground_process m;
     if suicide p r (kern (pip m)) then Some m' else post_keyboard (clear_buffer m')
   }"

text \<open>The end of the handler: the key goes to the buffer and the position moves on.\<close>

definition store_key :: "register_struct_t \<Rightarrow> nat list \<Rightarrow> nat \<Rightarrow> machine \<Rightarrow> machine option" where
  "store_key c caller_frame key m = do {
     let p = get_buffer_position m;
     m \<leftarrow> (if p + 1 < int BUFF_SIZE then put_at (p + 1) 0 (set_pos (p + 1) m) else put_at 0 0 (set_pos 0 m));
     m \<leftarrow> put_at p key m;
     m \<leftarrow> (if scan_codes key = ch CHR '';''
           then do { m \<leftarrow> save_state c caller_frame m; Some (m\<lparr>flag_snapshot_taken := 1\<rparr>) } else Some m);
     post_keyboard m
   }"

definition shifted :: "nat \<Rightarrow> nat" where
  "shifted key =
     (if scan_codes key = ch CHR ''7'' then 0x54
      else if scan_codes key = ch (CHR 0x5C) then 0x55 else key)"

text \<open>
  \<open>keyboard_handler\<close> for the scan code \<open>key\<close> read from port 0x60; \<open>c\<close> and \<open>caller_frame\<close> are what
  a snapshot would see.
\<close>

definition keyboard_handler :: "hardware \<Rightarrow> register_struct_t \<Rightarrow> nat list \<Rightarrow> nat \<Rightarrow> machine \<Rightarrow> machine option" where
  "keyboard_handler hw c caller_frame key m =
     (if key = 0 then Some m
      else if key = 0x2A \<or> key = 0x36 then Some (m\<lparr>shift_pressed := 1\<rparr>)
      else if key = 0xAA \<or> key = 0xB6 then Some (m\<lparr>shift_pressed := 0\<rparr>)
      else if key = 0x1D then Some (m\<lparr>ctrl_pressed := 1\<rparr>)
      else if key = 0x9D then Some (m\<lparr>ctrl_pressed := 0\<rparr>)
      else if ctrl_pressed m \<noteq> 0 then
        (if scan_codes key = ch CHR ''C'' then ctrl_c m
         else if scan_codes key = ch CHR ''D'' then do {
           pcb \<leftarrow> get_pcb_entry (kern (pip m)) (foreground_pid (kern (pip m)));
           if pcb = 0 then None
           else if fr (process_of (kern (pip m)) pcb) = SHELL
           then store_key c caller_frame (unat EOF_BYTE) (m\<lparr>shift_pressed := 0\<rparr>)
           else do { p \<leftarrow> send_eof_to_foreground (pip m); Some (m\<lparr>pip := p\<rparr>) }
         }
         else if scan_codes key = ch CHR ''P'' then on_video (print_process (mode hw) (kern (pip m))) m
         else if scan_codes key = ch CHR ''L'' then on_video (\<lambda>v. Some (clear (mode hw) v)) m
         else Some m)
      else store_key c caller_frame (if shift_pressed m \<noteq> 0 then shifted key else key) m)"

section \<open>Exception messages\<close>

definition zero_division :: "hardware \<Rightarrow> machine \<Rightarrow> machine option" where
  "zero_division hw m = on_video (\<lambda>v. do {
     v \<leftarrow> draw_word_color (mode hw) RED (bytes ''FATAL ERROR: No se puede dividir por 0'') v;
     Some (newline (mode hw) v) }) (m\<lparr>flag_snapshot_taken := 1\<rparr>)"

definition invalid_opcode :: "hardware \<Rightarrow> machine \<Rightarrow> machine option" where
  "invalid_opcode hw m = on_video (\<lambda>v. do {
     v \<leftarrow> draw_word_color (mode hw) RED (bytes ''FATAL ERROR: Invalid opcode'') v;
     Some (newline (mode hw) v) }) (m\<lparr>flag_snapshot_taken := 1\<rparr>)"

text \<open>\<open>guru_meditation\<close> draws this screen and then loops for ever.\<close>

definition guru_screen :: "hardware \<Rightarrow> machine \<Rightarrow> machine option" where
  "guru_screen hw m = on_video (\<lambda>v. do {
     let v = clear_color (mode hw) BLUE v;
     v \<leftarrow> draw_word_colorLen (mode hw) RED (bytes ''GURU MEDITATION'' @ [10, 0]) 17 v;
     draw_word_colorLen (mode hw) RED (bytes ''FATAL ERROR IN KERNEL'' @ [10, 0]) 24 v }) m"

section \<open>What a snapshot shows\<close>


end
