(* ===== verification/Syscalls.thy ===== *)
theory Syscalls
  imports Devices
begin

text \<open>
  Kernel/syscalls.c, irqDispatcher.c and the exception dispatcher: reading and writing for the
  processes, the system call table and the interrupt dispatcher. A call that gives up the
  processor leaves the machine after the context switch, with a value that tells how the call
  goes on. User memory is \<open>bytes_of\<close>, shared with the pipes.
\<close>

definition STDIN :: int where "STDIN = 0"
definition STDOUT :: int where "STDOUT = 1"
definition STDERR :: int where "STDERR = 2"

section \<open>Memory of the caller\<close>

definition user_string :: "machine \<Rightarrow> nat \<Rightarrow> byte list option" where
  "user_string m p = do { n \<leftarrow> str_len (bytes_of (pip m)) p; Some (bytes_at (bytes_of (pip m)) p n) }"

definition text_of :: "byte list \<Rightarrow> string" where
  "text_of bs = map (\<lambda>b. char_of (unat b)) bs"

definition put_byte_at :: "nat \<Rightarrow> byte \<Rightarrow> machine \<Rightarrow> machine" where
  "put_byte_at a b m = m\<lparr>pip := (pip m)\<lparr>bytes_of := (bytes_of (pip m))(a := b)\<rparr>\<rparr>"

definition load64 :: "memory \<Rightarrow> nat \<Rightarrow> nat" where
  "load64 m a = unat (load32 m a) + 2 ^ 32 * unat (load32 m (a + 4))"

section \<open>Writing\<close>

definition sys_write :: "hardware \<Rightarrow> nat \<Rightarrow> int \<Rightarrow> int \<Rightarrow> machine \<Rightarrow> (transfer \<times> machine) option" where
  "sys_write hw buf len filedescriptor m =
     (let s = kern (pip m); cur = current_pcb s; bs = bytes_at (bytes_of (pip m)) buf (nat len)
      in if cur = 0 then None
         else if fw (process_of s cur) = SHELL \<and> pid_of s cur = foreground_pid s
         then do {
           m \<leftarrow> on_video (if filedescriptor = STDOUT then draw_word_len (mode hw) bs len
                          else if filedescriptor = STDERR then draw_word_colorLen (mode hw) RED bs len
                          else invalid_fd (mode hw)) m;
           Some (Finished 0, m)
         }
         else on_pipes (pipe_write (low_string hw) (fw (process_of s cur)) buf (nat (len mod 2 ^ 32))) m)"

section \<open>Reading\<close>

text \<open>
  The call is over, or waits for a key with \<open>i\<close> characters read and the position \<open>pos\<close> in a
  local variable, or it was refused because the caller is not in the foreground: then it
  returns without having read anything when the process is woken.
\<close>

datatype reading = Read_done | Key_wait nat int | Not_foreground | Pipe_transfer transfer

text \<open>The character a stored key is read as; the buffer's 16-bit value becomes a signed \<open>char\<close>.\<close>

definition key_char :: "nat \<Rightarrow> byte option" where
  "key_char x =
     (let aux = (of_nat x :: byte)
      in if sint aux > 0
         then Some (if aux = 0x39 then ch CHR '' '' else if aux = EOF_BYTE then EOF_BYTE else scan_codes (unat aux))
         else None)"

text \<open>The body of the loop after the wait.\<close>

definition read_key :: "nat \<Rightarrow> nat \<Rightarrow> int \<Rightarrow> machine \<Rightarrow> (nat \<times> int \<times> machine) option" where
  "read_key buf i pos m = do {
     x \<leftarrow> get_char_at pos m;
     case key_char x of
       Some b \<Rightarrow> Some (i + 1, pos + 1, set_pos (pos + 1) (put_byte_at (buf + i) b m))
     | None \<Rightarrow> Some (i, get_buffer_position m, m)
   }"

text \<open>\<open>None\<close> also stands for a loop that goes on until an interrupt brings a key.\<close>

partial_function (option) read_keys ::
  "nat \<Rightarrow> nat \<Rightarrow> bool \<Rightarrow> nat \<Rightarrow> int \<Rightarrow> machine \<Rightarrow> (reading \<times> machine) option" where
  "read_keys buf len started i pos m =
     (if len \<le> i then Some (Read_done, m)
      else do {
        (r, m) \<leftarrow> (if started then on_kernel (my_sem_wait sem_id_keyboard) m else Some (Returned 0, m));
        if r = Sleeping then Some (Key_wait i pos, m)
        else do { (i, pos, m) \<leftarrow> read_key buf i pos m; read_keys buf len started i pos m }
      })"

definition sys_read :: "hardware \<Rightarrow> nat \<Rightarrow> int \<Rightarrow> int \<Rightarrow> machine \<Rightarrow> (reading \<times> machine) option" where
  "sys_read hw buf len filedescriptor m =
     (let s = kern (pip m); cur = current_pcb s
      in if foreground_pid s \<noteq> current_process_id s then do {
           (r, m) \<leftarrow> on_kernel (add_to_queue 0 (current_process_id s)) m;
           (r, m) \<leftarrow> on_kernel (\<lambda>k. do { k \<leftarrow> finish_current_tick (snd (os_block_current_process k)); Some ((), k) }) m;
           Some (Not_foreground, m)
         }
         else if cur = 0 then None
         else if fr (process_of s cur) = SHELL then
           (if filedescriptor = STDIN
            then read_keys buf (nat len) (process_started s \<noteq> 0) 0 (get_buffer_position m) m
            else do { m \<leftarrow> on_video (invalid_fd (mode hw)) m; Some (Read_done, m) })
         else do {
           (r, m) \<leftarrow> on_pipes (pipe_read (low_string hw) (fr (process_of s cur)) buf (nat (len mod 2 ^ 32))) m;
           Some (Pipe_transfer r, m)
         })"

text \<open>A reader that was woken tries the semaphore again; \<open>j\<close> is its index.\<close>

definition sys_read_resume :: "nat \<Rightarrow> int \<Rightarrow> nat \<Rightarrow> int \<Rightarrow> nat \<Rightarrow> machine \<Rightarrow> (reading \<times> machine) option" where
  "sys_read_resume buf len i pos j m = do {
     (r, m) \<leftarrow> on_kernel (my_sem_wait_resume j) m;
     if r = Sleeping then Some (Key_wait i pos, m)
     else do { (i, pos, m) \<leftarrow> read_key buf i pos m; read_keys buf (nat len) True i pos m }
   }"

section \<open>The system call table\<close>

text \<open>
  \<open>Answer\<close> is the value in \<open>rax\<close>; when the call has switched to another process it is delivered
  once the caller runs again, and never after the caller has killed itself. The other
  constructors tell which operation continues a call that waits.
\<close>

datatype reply = Answer nat | In_read nat int reading | In_write nat int transfer | In_sem_wait | In_waitpid int

definition ret :: "int \<Rightarrow> nat" where
  "ret r = nat (r mod 2 ^ 64)"

definition int_of_reg :: "nat \<Rightarrow> int" where
  "int_of_reg x = to_int32 (int x)"

definition char_of_reg :: "nat \<Rightarrow> byte" where
  "char_of_reg x = of_nat x"

definition no_value :: "machine option \<Rightarrow> (reply \<times> machine) option" where
  "no_value x = do { m \<leftarrow> x; Some (Answer 0, m) }"

definition with_value :: "(int \<times> machine) option \<Rightarrow> (reply \<times> machine) option" where
  "with_value x = do { (r, m) \<leftarrow> x; Some (Answer (ret r), m) }"

text \<open>Kernel operations without a result, and drawing.\<close>

definition run_kernel :: "(kernel \<Rightarrow> kernel option) \<Rightarrow> machine \<Rightarrow> (reply \<times> machine) option" where
  "run_kernel f m = no_value (map_option snd (on_kernel (\<lambda>k. do { k \<leftarrow> f k; Some ((), k) }) m))"

definition draws :: "(video \<Rightarrow> video) \<Rightarrow> machine \<Rightarrow> (reply \<times> machine) option" where
  "draws f m = no_value (on_video (\<lambda>v. Some (f v)) m)"

text \<open>Calls 25 to 29 and 31, which read strings and arrays of the caller.\<close>

definition create_from_current :: "nat \<Rightarrow> nat \<Rightarrow> nat \<Rightarrow> nat \<Rightarrow> nat \<Rightarrow> machine \<Rightarrow> (int \<times> machine) option" where
  "create_from_current nm fg sizes entry_point fd m = do {
     nm \<leftarrow> (if nm = 0 then Some None else do { s \<leftarrow> user_string m nm; Some (Some (text_of s)) });
     let mem = bytes_of (pip m);
     on_kernel (create_and_insert_process_from_current nm (fg mod 256) (load64 mem sizes) (load64 mem (sizes + 8))
       entry_point (sint (load32 mem fd)) (sint (load32 mem (fd + 4)))) m
   }"

definition sem_call :: "(string \<Rightarrow> kernel \<Rightarrow> ('a \<times> kernel) option) \<Rightarrow> nat \<Rightarrow> machine \<Rightarrow> ('a \<times> machine) option" where
  "sem_call f p m = do { n \<leftarrow> user_string m p; on_kernel (f (text_of n)) m }"

definition sem_waiting :: "reply \<Rightarrow> (int outcome \<times> machine) option \<Rightarrow> (reply \<times> machine) option" where
  "sem_waiting w x = do {
     (r, m) \<leftarrow> x;
     Some (case r of Returned r \<Rightarrow> Answer (ret r) | Sleeping \<Rightarrow> w, m)
   }"

text \<open>
  The switch of \<open>int_80\<close> on \<open>rdi\<close>, with the arguments in \<open>rsi, rdx, rcx, r8, r9, r10\<close>, by the
  group of calls: input, output and screen first.
\<close>

definition screen_call :: "hardware \<Rightarrow> nat \<Rightarrow> nat \<Rightarrow> nat \<Rightarrow> nat \<Rightarrow> nat \<Rightarrow> nat \<Rightarrow> machine \<Rightarrow> (reply \<times> machine) option" where
  "screen_call hw n s d c e f m =
     (if n = 1 then do {
        (r, m) \<leftarrow> sys_write hw s (int_of_reg d) (int_of_reg c) m;
        Some (case r of Finished _ \<Rightarrow> Answer 0 | Waiting j \<Rightarrow> In_write s (int_of_reg d) r, m)
      }
      else if n = 2 then do {
        (r, m) \<leftarrow> sys_read hw s (int_of_reg d) (int_of_reg c) m;
        Some (case r of Read_done \<Rightarrow> Answer 0 | Pipe_transfer (Finished _) \<Rightarrow> Answer 0 | _ \<Rightarrow> In_read s (int_of_reg d) r, m)
      }
      else if n = 3 then do {
        t \<leftarrow> Time_clock (int (rtc hw 4)) (int (rtc hw 2)) (int (rtc hw 0)) (int (rtc hw 6)) (int (rtc hw 7))
               (int (rtc hw 8)) (int (rtc hw 9));
        Some (Answer 0, m\<lparr>pip := (pip m)\<lparr>bytes_of := write_bytes s (bytes t @ [0]) (bytes_of (pip m))\<rparr>\<rparr>)
      }
      else if n = 4 then no_value (print_reg_asm hw m)
      else if n = 5 then draws (paint_screen (mode hw) s) m
      else if n = 6 then draws (boke (mode hw)) m
      else if n = 7 then draws (draw_rectangle (mode hw) s (wrap32 d) (wrap32 c) (wrap32 e) (wrap32 f)) m
      else if n = 8 then draws (draw_ball (mode hw) s (int_of_reg d) (int_of_reg c) (int_of_reg e)) m
      else if n = 9 then draws (clear_color (mode hw) s) m
      else if n = 10 then draws (put_square (mode hw) (wrap32 s) (wrap32 d) (wrap32 c) e) m
      else if n = 11 then Some (Answer (ret (get_buffer_position m)), m)
      else if n = 12 then do { x \<leftarrow> get_char_at (int_of_reg s) m; Some (Answer x, m) }
      else if n = 13 then no_value (wait_ms hw (int_of_reg s) m)
      else if n = 14 then Some (Answer (ticks_elapsed (timer_ticks (kern (pip m)))), m)
      else if n = 15 then draws (set_font_size (wrap32 s)) m
      else if n = 16 then do {
        w \<leftarrow> user_string m d;
        no_value (on_video (draw_word_colorAt (mode hw) s w (wrap32 c) (wrap32 e)) m)
      }
      else if n = 17 then no_value (on_video (character_at (mode hw) s (char_of_reg d) (wrap32 c) (wrap32 e)) m)
      else if n = 18 then no_value (beep hw (int_of_reg s) (int_of_reg d) m)
      else if n = 39 then do {
        w \<leftarrow> user_string m d;
        no_value (on_video (draw_word_color (mode hw) s w) m)
      }
      else Some (Answer 0, m))"

text \<open>The calls on processes, semaphores, memory and pipes.\<close>

definition kernel_call :: "hardware \<Rightarrow> nat \<Rightarrow> nat \<Rightarrow> nat \<Rightarrow> nat \<Rightarrow> nat \<Rightarrow> nat \<Rightarrow> nat \<Rightarrow> machine \<Rightarrow> (reply \<times> machine) option" where
  "kernel_call hw n s d c e f g m =
     (if n = 19 then do {
        (r, m) \<leftarrow> on_kernel (add_process_to_creation_queue 1 1 ''ps'' 0x1000 0x1000 0 0) m;
        Some (Answer 0, m)
      }
      else if n = 20 then do {
        (r, m) \<leftarrow> on_kernel (add_process_to_creation_queue 1 1 ''print_mem'' 0x1000 0x1000 0 0) m;
        Some (Answer 0, m)
      }
      else if n = 21 \<or> n = 24 then with_value (on_kernel (force_kill (int_of_reg s)) m)
      else if n = 22 then run_kernel (change_process_priority (int_of_reg s) (wrap32 d)) m
      else if n = 23 then with_value (on_kernel (block_process (int_of_reg s)) m)
      else if n = 25 then with_value (create_from_current s d c e g m)
      else if n = 26 then sem_waiting In_sem_wait (sem_call my_sem_wait s m)
      else if n = 27 then with_value (sem_call my_sem_post s m)
      else if n = 28 then no_value (map_option snd (sem_call (\<lambda>x k. do { k \<leftarrow> my_sem_close x k; Some ((), k) }) s m))
      else if n = 29 then with_value (sem_call (my_sem_open s) d m)
      else if n = 30 \<or> n = 40 then run_kernel finish_current_tick m
      else if n = 31 then sem_waiting (In_waitpid (int_of_reg s)) (on_kernel (waitpid (int_of_reg s)) m)
      else if n = 32 then
        (if current_pcb (kern (pip m)) = 0 then None
         else Some (Answer (ret (pid_of (kern (pip m)) (current_pcb (kern (pip m))))), m))
      else if n = 33 then do { (p, m) \<leftarrow> on_kernel (\<lambda>k. kmalloc k s) m; Some (Answer p, m) }
      else if n = 34 then run_kernel (\<lambda>k. kfree k s) m
      else if n = 35 then Some (Answer (ret (get_pipe_id (int_of_reg s) (pip m))), m)
      else if n = 36 then do { p \<leftarrow> close_pipe (low_string hw) (int_of_reg s) (pip m); Some (Answer 0, m\<lparr>pip := p\<rparr>) }
      else if n = 37 then with_value (on_pipes (create_pipe (int_of_reg s)) m)
      else if n = 38 then with_value (on_pipes create_pipe_anonymous m)
      else Some (Answer 0, m))"

definition int_80 :: "hardware \<Rightarrow> nat \<Rightarrow> nat \<Rightarrow> nat \<Rightarrow> nat \<Rightarrow> nat \<Rightarrow> nat \<Rightarrow> nat \<Rightarrow> machine \<Rightarrow> (reply \<times> machine) option" where
  "int_80 hw n s d c e f g m =
     (if (1 \<le> n \<and> n \<le> 18) \<or> n = 39 then screen_call hw n s d c e f m else kernel_call hw n s d c e f g m)"

section \<open>Interrupts\<close>

text \<open>
  \<open>irq_dispatcher\<close>: 0 counts the tick, 1 is the keyboard, 96 the system call; anything else
  answers -1. The part of the timer interrupt before it is \<open>irq00\<close> of Scheduler.
\<close>

definition irq_dispatcher ::
  "hardware \<Rightarrow> register_struct_t \<Rightarrow> nat list \<Rightarrow> nat \<Rightarrow> nat \<Rightarrow> nat list \<Rightarrow> machine \<Rightarrow> (reply \<times> machine) option" where
  "irq_dispatcher hw cpu caller_frame key irq args m =
     (if irq = 0 then run_kernel (\<lambda>k. Some (count_tick k)) m
      else if irq = 1 then no_value (keyboard_handler hw cpu caller_frame key m)
      else if irq = 96 then
        int_80 hw (args ! 0) (args ! 1) (args ! 2) (args ! 3) (args ! 4) (args ! 5) (args ! 6) m
      else Some (Answer (2 ^ 64 - 1), m))"

text \<open>
  \<open>exception_dispatcher\<close>, which ends with a read of one key to a local variable at \<open>c\<close>. The
  assembly calls it with the vectors 0, 6 and 13, the code compares with 0, 1 and 2.
\<close>

definition exception_dispatcher ::
  "hardware \<Rightarrow> nat \<Rightarrow> int \<Rightarrow> register_struct_t \<Rightarrow> machine \<Rightarrow> (reading \<times> machine) option" where
  "exception_dispatcher hw c exception r m = do {
     m \<leftarrow> (if exception = 0 then zero_division hw m
            else if exception = 1 then invalid_opcode hw m
            else if exception = 2 then None
            else Some m);
     m \<leftarrow> print_registers hw r m;
     m \<leftarrow> on_video (draw_word_color (mode hw) RED (bytes ''Press any key to continue'')) m;
     sys_read hw c 1 0 m
   }"

end
