(* ===== verification/Sem_Wake.thy ===== *)
theory Sem_Wake
  imports Sched_Safety Blocking
begin

text \<open>
  What releasing a semaphore does to the processes that wait for it. \<open>wait_ok\<close> extends the
  scheduler's invariant by the nodes of one wait queue; the loop of \<open>wake_up_processes\<close>
  compares a rising counter with the shrinking length, so it stops half way.
\<close>

section \<open>The wait queue\<close>

definition wait_ok :: "nat \<Rightarrow> nat multiset \<Rightarrow> kernel \<Rightarrow> bool" where
  "wait_ok i Y s \<longleftrightarrow> i < MAX_SEMS \<and> i < length (sem_spaces s) \<and>
     queue_size (sem_at s i) = length (waiting (sem_at s i)) \<and> length (waiting (sem_at s i)) < 2 ^ 64 \<and>
     sched_inv_ext (mset (map fst (waiting (sem_at s i))) + Y) [] s"

text \<open>\<open>s'\<close> is \<open>s\<close> with the processes \<open>ps\<close> made ready, where they slept or ran.\<close>

definition woken :: "int list \<Rightarrow> kernel \<Rightarrow> kernel \<Rightarrow> bool" where
  "woken ps s s' \<longleftrightarrow> table s' = table s \<and> pid_of s' = pid_of s \<and> pcbs s' = pcbs s \<and>
     current_pcb s' = current_pcb s \<and> foreground_pid s' = foreground_pid s \<and> process_started s' = process_started s \<and>
     (\<forall>d\<in>set (table s). status_of s' d =
        (if pid_of s d \<in> set ps \<and> status_of s d \<in> {BLOCKED, RUNNING} then READY else status_of s d))"

lemma woken_Nil: "woken [] s s"
  by (simp add: woken_def)

lemma woken_Cons: "woken [p] s t \<Longrightarrow> woken ps t u \<Longrightarrow> woken (p # ps) s u"
  by (auto simp: woken_def)

lemma woken_same:
  "woken [] s t" if "table t = table s" "pid_of t = pid_of s" "pcbs t = pcbs s" "current_pcb t = current_pcb s"
    "foreground_pid t = foreground_pid s" "process_started t = process_started s" "status_of t = status_of s"
  using that by (simp add: woken_def)

lemma sem_at_set [simp]: "i < length (sem_spaces s) \<Longrightarrow> sem_at (set_sem i x s) i = x"
  by (simp add: sem_at_def set_sem_def)

lemma set_sem_simps [simp]:
  "mm (set_sem i x s) = mm s" "scheduler (set_sem i x s) = scheduler s" "pcbs (set_sem i x s) = pcbs s"
  "processes (set_sem i x s) = processes s" "current_pcb (set_sem i x s) = current_pcb s"
  "creation_queue (set_sem i x s) = creation_queue s" "waiting_for_remove (set_sem i x s) = waiting_for_remove s"
  "foreground_pid (set_sem i x s) = foreground_pid s" "process_started (set_sem i x s) = process_started s"
  "length (sem_spaces (set_sem i x s)) = length (sem_spaces s)"
  by (simp_all add: set_sem_def)

lemma set_sem_view: "same_view s (set_sem i x s)"
  by (simp add: same_view_def)

lemma same_view_status: "same_view s t \<Longrightarrow> table t = table s \<and> pid_of t = pid_of s \<and> status_of t = status_of s"
  by (simp add: same_view_def inv_defs pid_of_def status_of_def process_of_def fun_eq_iff)

lemma set_sem_woken: "woken [] s (set_sem i x s)"
  using same_view_status [OF set_sem_view] by (intro woken_same) auto

lemma remove_from_queue_ok:
  assumes "wait_ok i Y s" "waiting (sem_at s i) = (a, p) # w"
  shows "\<exists>s'. remove_from_queue i s = Some (p, s') \<and> wait_ok i Y s' \<and>
    sem_at s' i = (sem_at s i)\<lparr>waiting := w, queue_size := length w\<rparr> \<and> woken [] s s'"
proof -
  let ?X = "mset (map fst w) + Y"
  have inv: "sched_inv_ext (add_mset a ?X) [] s" and i: "i < MAX_SEMS" "i < length (sem_spaces s)"
    and n: "queue_size (sem_at s i) = Suc (length w)" "Suc (length w) < 2 ^ 64"
    using assms by (simp_all add: wait_ok_def)
  obtain h where h: "kfree s a = Some (s\<lparr>mm := h\<rparr>)" "sched_inv_ext ?X [] (s\<lparr>mm := h\<rparr>)"
    using inv_free [OF inv] by blast
  define x where "x = (sem_at s i)\<lparr>waiting := w, queue_size := length w\<rparr>"
  have sub: "sub64 (Suc (length w)) 1 = length w" using n(2) by (subst sub64_id) auto
  have at: "sem_at (s\<lparr>mm := h\<rparr>) i = sem_at s i" by (simp add: sem_at_def)
  let ?s = "set_sem i x (s\<lparr>mm := h\<rparr>)"
  have "remove_from_queue i s = Some (p, ?s)"
    using i(1) h(1) n sub by (auto simp: remove_from_queue_def assms(2) at x_def Let_def)
  moreover have "sched_inv_ext ?X [] ?s" using h(2) same_view_inv [OF set_sem_view] by blast
  then have "wait_ok i Y ?s" using i n by (simp add: wait_ok_def x_def)
  moreover have "woken [] s ?s"
    using set_sem_woken [of "s\<lparr>mm := h\<rparr>" i x]
    by (simp add: woken_def inv_defs pid_of_def status_of_def process_of_def fun_eq_iff)
  ultimately show ?thesis using i by (intro exI [of _ ?s]) (simp add: x_def)
qed

lemma inv_set_status:
  assumes "sched_inv_ext X P s" "d \<in> set (roster s)" "x \<noteq> RUNNING"
  shows "sched_inv_ext X P (set_status d x s)"
proof -
  have "sched_inv s" using inv_weaken [of "{#}" X "[]" P s] assms(1) by simp
  then have "process (pcbs s d) \<notin> set (new_procs s)"
    using core_procs_distinct [of s] assms(2) by (auto simp: inv_split)
  then show ?thesis using assms(1,3) by (auto simp: sched_inv_ext_def)
qed

lemma os_revive_process_ok:
  assumes "wait_ok i Y s"
  shows "\<exists>s'. os_revive_process p s = Some s' \<and> wait_ok i Y s' \<and> sem_spaces s' = sem_spaces s \<and> woken [p] s s'"
proof -
  let ?X = "mset (map fst (waiting (sem_at s i))) + Y"
  have inv: "sched_inv_ext ?X [] s" using assms by (simp add: wait_ok_def)
  then have inv0: "sched_inv s" using inv_weaken [of "{#}" ?X "[]" "[]" s] by simp
  have rings: "rings_ok s" and dist: "distinct (map (pid_of s) (table s))"
    using inv inv_table_pids [OF inv] by (auto simp: sched_inv_ext_def)
  show ?thesis
  proof (cases "\<exists>d\<in>set (table s). pid_of s d = p")
    case False
    then have "get_pcb_entry s p = Some 0" using get_pcb_none [OF rings] by blast
    then show ?thesis using False assms
      by (intro exI [of _ s]) (auto simp: os_revive_process_def woken_def)
  next
    case True
    then obtain d where d: "d \<in> set (table s)" "pid_of s d = p" by blast
    then have e: "get_pcb_entry s p = Some d" using get_pcb_mem [OF rings d(1) dist] by simp
    have nz: "d \<noteq> 0" using table_nonzero [OF inv0 d(1)] .
    have one: "pid_of s f = p \<longleftrightarrow> f = d" if "f \<in> set (table s)" for f
      using that d dist by (auto simp: distinct_map inj_on_def)
    show ?thesis
    proof (cases "status_of s d \<in> {BLOCKED, RUNNING}")
      case False
      then have "os_revive_process p s = Some s" using e nz by (simp add: os_revive_process_def)
      then show ?thesis using False assms one by (intro exI [of _ s]) (auto simp: woken_def)
    next
      case True
      let ?s = "set_status d READY s"
      have "os_revive_process p s = Some ?s" using e nz True by (auto simp: os_revive_process_def)
      moreover have sp: "sem_spaces ?s = sem_spaces s" by (simp add: set_status_def)
      moreover have "wait_ok i Y ?s"
        using assms inv_set_status [OF inv, of d READY] d(1) sp
        by (simp add: wait_ok_def sem_at_def roster_set)
      moreover have "(process (pcbs s f) = process (pcbs s d)) = (f = d)" if "f \<in> set (table s)" for f
        using core_procs_distinct [of s] inv0 d(1) that
        by (auto simp: inv_split distinct_map inj_on_def roster_set)
      then have "woken [p] s ?s" using True one d(2)
        by (auto simp: woken_def) (simp_all add: set_status_def)
      ultimately show ?thesis by blast
    qed
  qed
qed

section \<open>Release\<close>

lemma wake_loop_ok:
  assumes "wait_ok i Y s" "waiting (sem_at s i) = ws"
  shows "\<exists>s'. wake_loop i j s = Some s' \<and> wait_ok i Y s' \<and> woken (map snd (take ((length ws + 1 - j) div 2) ws)) s s' \<and>
    sem_at s' i = (sem_at s i)\<lparr>waiting := drop ((length ws + 1 - j) div 2) ws, queue_size := length ws - (length ws + 1 - j) div 2\<rparr>"
  using assms
proof (induction ws arbitrary: j s)
  case Nil
  then have "queue_size (sem_at s i) = 0" by (simp add: wait_ok_def)
  with Nil show ?case by (intro exI [of _ s]) (auto simp: wake_loop.simps woken_Nil)
next
  case (Cons e w)
  obtain a p where e: "e = (a, p)" by (cases e)
  have n: "queue_size (sem_at s i) = Suc (length w)" using Cons.prems by (simp add: wait_ok_def)
  show ?case
  proof (cases "j < Suc (length w)")
    case False
    then have "(length (e # w) + 1 - j) div 2 = 0" by simp
    moreover have "wake_loop i j s = Some s" using False n by (simp add: wake_loop.simps)
    moreover have "sem_at s i = (sem_at s i)\<lparr>waiting := e # w, queue_size := Suc (length w)\<rparr>"
      using n Cons.prems(2) by simp
    ultimately show ?thesis using Cons.prems(1) by (intro exI [of _ s]) (simp add: woken_Nil)
  next
    case True
    obtain s1 where s1: "remove_from_queue i s = Some (p, s1)" "wait_ok i Y s1" "woken [] s s1"
      "sem_at s1 i = (sem_at s i)\<lparr>waiting := w, queue_size := length w\<rparr>"
      using remove_from_queue_ok [OF Cons.prems(1)] Cons.prems(2) e by blast
    obtain s2 where s2: "os_revive_process p s1 = Some s2" "wait_ok i Y s2" "sem_spaces s2 = sem_spaces s1" "woken [p] s1 s2"
      using os_revive_process_ok [OF s1(2)] by blast
    have at2: "sem_at s2 i = (sem_at s i)\<lparr>waiting := w, queue_size := length w\<rparr>"
      using s2(3) s1(4) by (simp add: sem_at_def)
    then have "waiting (sem_at s2 i) = w" by simp
    from Cons.IH [OF s2(2) this, of "j + 1"] obtain s3 where s3: "wake_loop i (j + 1) s2 = Some s3" "wait_ok i Y s3"
      "woken (map snd (take ((length w + 1 - (j + 1)) div 2) w)) s2 s3"
      "sem_at s3 i = (sem_at s2 i)\<lparr>waiting := drop ((length w + 1 - (j + 1)) div 2) w,
         queue_size := length w - (length w + 1 - (j + 1)) div 2\<rparr>"
      by blast
    have k: "(length (e # w) + 1 - j) div 2 = Suc ((length w + 1 - (j + 1)) div 2)" using True by simp
    have "woken [p] s s2" using s1(3) s2(4) by (auto simp: woken_def)
    then have w3: "woken (p # map snd (take ((length w + 1 - (j + 1)) div 2) w)) s s3"
      using s3(3) by (rule woken_Cons)
    have "wake_loop i j s = Some s3" using True n s1(1) s2(1) s3(1) by (simp add: wake_loop.simps)
    then show ?thesis using s3(2,4) w3 at2 e unfolding k by (intro exI [of _ s3]) simp
  qed
qed

text \<open>C10: releasing a semaphore. \<open>my_sem_post\<close> returns from every state in which the scheduler's
  invariant holds and the queue owns its nodes. It frees the lock and wakes the first half of
  the waiting processes, rounded up: those leave the queue in order, their nodes are released,
  and each of them that was BLOCKED or RUNNING is READY; the others stay in the queue, asleep.\<close>

theorem my_sem_post_wakes_half:
  assumes "locate_sem n s = Some i" "wait_ok i Y s"
  shows "\<exists>s'. my_sem_post n s = Some (0, s') \<and> wait_ok i Y s' \<and> is_locked (sem_at s' i) = 0 \<and>
    (let ws = waiting (sem_at s i); k = (length ws + 1) div 2
     in waiting (sem_at s' i) = drop k ws \<and> woken (map snd (take k ws)) s s')"
proof -
  define t where "t = set_sem i ((sem_at s i)\<lparr>is_locked := 0\<rparr>) s"
  have i: "i < length (sem_spaces s)" using assms(2) by (simp add: wait_ok_def)
  have "wait_ok i Y t" using assms(2) same_view_inv [OF set_sem_view] by (simp add: wait_ok_def t_def)
  moreover have at: "sem_at t i = (sem_at s i)\<lparr>is_locked := 0\<rparr>" using i by (simp add: t_def)
  then have "waiting (sem_at t i) = waiting (sem_at s i)" by simp
  ultimately obtain u where u: "wake_loop i 0 t = Some u" "wait_ok i Y u"
    "woken (map snd (take ((length (waiting (sem_at s i)) + 1) div 2) (waiting (sem_at s i)))) t u"
    "sem_at u i = (sem_at t i)\<lparr>waiting := drop ((length (waiting (sem_at s i)) + 1) div 2) (waiting (sem_at s i)),
       queue_size := length (waiting (sem_at s i)) - (length (waiting (sem_at s i)) + 1) div 2\<rparr>"
    using wake_loop_ok [of i Y t _ 0] by (metis diff_zero)
  have "woken [] s t" unfolding t_def by (rule set_sem_woken)
  then have "woken (map snd (take ((length (waiting (sem_at s i)) + 1) div 2) (waiting (sem_at s i)))) s u"
    using u(3) by (auto simp: woken_def)
  moreover have "my_sem_post n s = Some (0, u)"
    using u(1) assms(1) by (simp add: my_sem_post_def leave_region_def wake_up_processes_def t_def)
  ultimately show ?thesis using u(2,4) at by (intro exI [of _ u]) (simp add: Let_def)
qed

text \<open>The demo kernel with process 3 asleep in the queue of the keyboard semaphore.\<close>

definition demo_waiting :: kernel where
  "demo_waiting = demo_kernel\<lparr>processes := (processes demo_kernel)
       (8736 := demo_process\<lparr>pid := 3, parent_pid := 2, status := BLOCKED, stack := 8800, sem_name := ''3''\<rparr>),
     sem_spaces := (sem_spaces demo_kernel)[0 := \<lparr>sem = (sem demo_sem)\<lparr>sem_id := ''keyboard'', is_locked := 1,
       counter := 1, waiting := [(9152, 3)], queue_size := 1\<rparr>, sem_status = UNAVAILABLE\<rparr>], process_started := 1\<rparr>"

lemmas demo_waiting_simps = demo_waiting_def demo_defs ring_pcbs_def table_def roster_def pcb_own_def process_of_def
  pid_of_def status_of_def

lemma demo_waiting_sem: "sem_spaces demo_waiting = \<lparr>sem = (sem demo_sem)\<lparr>sem_id := ''keyboard'', is_locked := 1,
    counter := 1, waiting := [(9152, 3)], queue_size := 1\<rparr>, sem_status = UNAVAILABLE\<rparr> # replicate 127 demo_sem"
proof -
  have "replicate MAX_SEMS demo_sem = demo_sem # replicate 127 demo_sem"
    unfolding MAX_SEMS_def by (subst replicate_Suc [symmetric]) simp
  then have "sem_spaces demo_kernel = demo_sem # replicate 127 demo_sem" by (simp add: demo_kernel_def)
  then show ?thesis by (simp add: demo_waiting_def)
qed

lemma demo_waiting_at: "sem_at demo_waiting 0 = (sem demo_sem)\<lparr>sem_id := ''keyboard'', is_locked := 1,
    counter := 1, waiting := [(9152, 3)], queue_size := 1\<rparr>"
  by (simp add: sem_at_def demo_waiting_sem)

lemma demo_waiting_locate: "locate_sem ''keyboard'' demo_waiting = Some 0"
  by (simp add: locate_sem_def demo_waiting_sem)

lemma demo_waiting_ok: "wait_ok 0 {#} demo_waiting"
proof -
  have "heap_blocks demo_waiting = heap_blocks demo_dying"
    by (simp add: heap_blocks_def demo_waiting_def demo_dying_def)
  then have blocks: "heap_blocks demo_waiting = mset [8192, 8224, 8416, 8480, 8512, 8544, 8736, 8800, 8832, 8864,
    9056, 9120, 9152]" by (simp add: demo_heap_blocks)
  have "sched_inv_ext {#9152#} [] demo_waiting" unfolding sched_inv_ext_def
  proof (intro conjI)
    show "rings_ok demo_waiting" by (simp add: rings_ok_def demo_waiting_simps QUEUE_QTY_def all_less_four)
    show "heap_inv (mm demo_waiting)" using demo_heap_inv by (simp add: demo_waiting_def demo_kernel_def)
    show "owned demo_waiting + {#9152#} \<subseteq># heap_blocks demo_waiting"
      unfolding blocks by (simp add: owned_def nodes_def new_procs_def demo_waiting_simps add_mset_commute)
    show "distinct (pids demo_waiting @ [])" by (simp add: pids_def new_procs_def demo_waiting_simps)
    show "\<forall>i<QUEUE_QTY. \<forall>d\<in>set (ring_pcbs demo_waiting i). priority (pcbs demo_waiting d) = i"
      by (simp add: demo_waiting_simps QUEUE_QTY_def all_less_four)
  qed (simp_all add: demo_waiting_simps new_procs_def QUEUE_QTY_def)
  then show ?thesis by (simp add: wait_ok_def demo_waiting_at demo_sem_def) (simp add: MAX_SEMS_def demo_waiting_sem)
qed

theorem my_sem_post_wakes_half_witness:
  "\<exists>s'. my_sem_post ''keyboard'' demo_waiting = Some (0, s') \<and> waiting (sem_at s' 0) = [] \<and>
     status_of demo_waiting 8544 = BLOCKED \<and> status_of s' 8544 = READY"
proof -
  obtain s' where s': "my_sem_post ''keyboard'' demo_waiting = Some (0, s')"
    "waiting (sem_at s' 0) = drop 1 [(9152, 3)]" "woken (map snd (take 1 [(9152, 3)])) demo_waiting s'"
    using my_sem_post_wakes_half [OF demo_waiting_locate demo_waiting_ok]
    by (auto simp: Let_def demo_waiting_at)
  have "8544 \<in> set (table demo_waiting)" "pid_of demo_waiting 8544 = 3" "status_of demo_waiting 8544 = BLOCKED"
    by (simp_all add: demo_waiting_simps)
  then show ?thesis using s' by (intro exI [of _ s']) (simp add: woken_def)
qed

end
