(* ===== verification/Console_Input.thy ===== *)
theory Console_Input
  imports Syscalls Sem_Wake
begin

text \<open>
  Typing and reading: the keyboard interrupt and the loop of \<open>sys_read\<close> share the buffer, its
  position and the keyboard semaphore. The lemmas say what a handler call and a turn of the
  reader do; \<open>console_run\<close> interleaves them with everything else that leaves the buffer alone.
\<close>

section \<open>The state of the keyboard\<close>

definition kb_ok :: "machine \<Rightarrow> bool" where
  "kb_ok m \<longleftrightarrow> length (buff m) = BUFF_SIZE \<and> 0 \<le> buffer_pos m \<and> buffer_pos m \<le> int BUFF_SIZE \<and>
     (\<forall>x\<in>set (buff m). x < 256) \<and> shift_pressed m \<le> 1 \<and> ctrl_pressed m \<le> 1"

text \<open>A key that is stored when Control is up.\<close>

definition plain_key :: "nat \<Rightarrow> bool" where
  "plain_key k \<longleftrightarrow> 0 < k \<and> k < 0x80 \<and> k \<noteq> 0x2A \<and> k \<noteq> 0x36 \<and> k \<noteq> 0x1D"

text \<open>What a reader makes of it; Escape, scan code 1, is the end of file.\<close>

definition key_byte :: "nat \<Rightarrow> byte" where
  "key_byte k = (if k = 1 then EOF_BYTE else scan_codes k)"

lemma key_char_eq: "0 < k \<Longrightarrow> k < 0x80 \<Longrightarrow> key_char k = Some (key_byte k)"
proof -
  assume k: "0 < k" "k < 0x80"
  have u: "unat (of_nat k :: byte) = k" using k by (simp add: unat_of_nat)
  have s: "sint (of_nat k :: byte) = int k"
    using k by (simp add: signed_of_nat signed_take_bit_int_eq_self)
  have "(of_nat k :: byte) = 0x39 \<longleftrightarrow> k = 0x39" "(of_nat k :: byte) = 1 \<longleftrightarrow> k = 1"
    using u by (auto simp: word_eq_iff_unsigned)
  then show ?thesis using k s u
    by (auto simp: key_char_def key_byte_def Let_def EOF_BYTE_def scan_codes_def scan_code_table_def)
qed

lemma key_char_0 [simp]: "key_char 0 = None"
  by (simp add: key_char_def)

text \<open>Posting changes the kernel only.\<close>

lemma post_keyboard_kernel:
  "post_keyboard m = Some m' \<Longrightarrow> \<exists>k. m' = m\<lparr>pip := (pip m)\<lparr>kern := k\<rparr>\<rparr>"
proof (cases "process_started (kern (pip m)) = 0")
  case True
  then show "post_keyboard m = Some m' \<Longrightarrow> ?thesis"
    by (intro exI [of _ "kern (pip m)"]) (simp add: post_keyboard_def)
qed (auto simp: post_keyboard_def on_kernel_def bind_eq_Some_conv)

lemma put_at_eq: "put_at p x m = Some m' \<longleftrightarrow> in_buffer p m \<and> m' = m\<lparr>buff := (buff m)[nat p := x]\<rparr>"
  by (auto simp: put_at_def)

definition next_pos :: "int \<Rightarrow> int" where
  "next_pos p = (if p + 1 < int BUFF_SIZE then p + 1 else 0)"

lemma store_key_effect:
  assumes "store_key c fs key m = Some m'" "length (buff m) = BUFF_SIZE"
  shows "0 \<le> buffer_pos m" "buffer_pos m < int BUFF_SIZE" "buffer_pos m' = next_pos (buffer_pos m)"
    "buff m' = (buff m)[nat (next_pos (buffer_pos m)) := 0, nat (buffer_pos m) := key]"
    "bytes_of (pip m') = bytes_of (pip m)" "shift_pressed m' = shift_pressed m" "ctrl_pressed m' = ctrl_pressed m"
proof -
  let ?p = "buffer_pos m"
  obtain m1 where m1: "in_buffer ?p m" "m1 = m\<lparr>buffer_pos := next_pos ?p,
      buff := (buff m)[nat (next_pos ?p) := 0, nat ?p := key]\<rparr>"
    and rest: "(if scan_codes key = ch CHR '';''
           then do { m \<leftarrow> save_state c fs m1; Some (m\<lparr>flag_snapshot_taken := 1\<rparr>) } else Some m1) \<bind> post_keyboard = Some m'"
    using assms(1) unfolding store_key_def next_pos_def
    by (auto simp: Let_def put_at_def in_buffer_def set_pos_def get_buffer_position_def bind_eq_Some_conv split: if_splits)
  obtain m2 where m2: "post_keyboard m2 = Some m'" "buff m2 = buff m1" "buffer_pos m2 = buffer_pos m1" "pip m2 = pip m1"
    "shift_pressed m2 = shift_pressed m1" "ctrl_pressed m2 = ctrl_pressed m1"
    using rest by (auto simp: save_state_def bind_eq_Some_conv split: if_splits)
  obtain k where "m' = m2\<lparr>pip := (pip m2)\<lparr>kern := k\<rparr>\<rparr>" using post_keyboard_kernel [OF m2(1)] by blast
  then show "0 \<le> ?p" "?p < int BUFF_SIZE" "buffer_pos m' = next_pos ?p"
    "buff m' = (buff m)[nat (next_pos ?p) := 0, nat ?p := key]"
    "bytes_of (pip m') = bytes_of (pip m)" "shift_pressed m' = shift_pressed m" "ctrl_pressed m' = ctrl_pressed m"
    using m1 m2(2-) assms(2) by (auto simp: in_buffer_def)
qed

lemma plain_handler:
  "plain_key k \<Longrightarrow> ctrl_pressed m = 0 \<Longrightarrow>
   keyboard_handler hw c fs k m = store_key c fs (if shift_pressed m \<noteq> 0 then shifted k else k) m"
  by (simp add: keyboard_handler_def plain_key_def)

lemma plain_shifted: "plain_key k \<Longrightarrow> plain_key (shifted k)"
  by (simp add: plain_key_def shifted_def)

text \<open>The keyboard semaphore can be posted: it is not in use yet, or its queue is sound.\<close>

definition post_ready :: "kernel \<Rightarrow> bool" where
  "post_ready s \<longleftrightarrow> process_started s = 0 \<or>
     (case locate_sem sem_id_keyboard s of None \<Rightarrow> True | Some i \<Rightarrow> \<exists>Y. wait_ok i Y s)"

lemma my_sem_post_returns: "locate_sem n s = Some i \<Longrightarrow> wait_ok i Y s \<Longrightarrow> \<exists>s'. my_sem_post n s = Some (0, s')"
proof -
  assume l: "locate_sem n s = Some i" and w: "wait_ok i Y s"
  define t where "t = set_sem i ((sem_at s i)\<lparr>is_locked := 0\<rparr>) s"
  have "i < length (sem_spaces s)" using w by (simp add: wait_ok_def)
  then have "wait_ok i Y t" using w same_view_inv [OF set_sem_view] by (simp add: wait_ok_def t_def)
  from wake_loop_ok [OF this refl, of 0] show ?thesis
    using l by (auto simp: my_sem_post_def leave_region_def wake_up_processes_def t_def)
qed

lemma post_keyboard_returns: "post_ready (kern (pip m)) \<Longrightarrow> \<exists>m'. post_keyboard m = Some m'"
  apply (cases "process_started (kern (pip m)) = 0")
   apply (simp add: post_keyboard_def)
  apply (cases "locate_sem sem_id_keyboard (kern (pip m))")
   apply (simp add: post_keyboard_def on_kernel_def my_sem_post_def)
  using my_sem_post_returns [of sem_id_keyboard "kern (pip m)"]
  by (fastforce simp: post_ready_def post_keyboard_def on_kernel_def)

lemma store_key_returns:
  assumes "length (buff m) = BUFF_SIZE" "0 \<le> buffer_pos m" "buffer_pos m < int BUFF_SIZE" "4 \<le> length fs"
    "post_ready (kern (pip m))"
  shows "\<exists>m'. store_key c fs key m = Some m'"
proof -
  let ?p = "buffer_pos m"
  define m1 where "m1 = m\<lparr>buffer_pos := next_pos ?p, buff := (buff m)[nat (next_pos ?p) := 0, nat ?p := key]\<rparr>"
  have "store_key c fs key m =
      (if scan_codes key = ch CHR '';''
       then do { m \<leftarrow> save_state c fs m1; Some (m\<lparr>flag_snapshot_taken := 1\<rparr>) } else Some m1) \<bind> post_keyboard"
    using assms(1-3) unfolding store_key_def m1_def
    by (simp add: Let_def put_at_def in_buffer_def set_pos_def get_buffer_position_def next_pos_def BUFF_SIZE_def)
  moreover have "\<exists>r. save_state c fs m1 = Some (m1\<lparr>registers := r\<rparr>)"
    using assms(4) by (simp add: save_state_def dState_def push_state_def) blast
  moreover have "kern (pip m1) = kern (pip m)" by (simp add: m1_def)
  ultimately show ?thesis
    using post_keyboard_returns [of m1] post_keyboard_returns assms(5) by auto
qed

lemma on_kernel_effect: "on_kernel f m = Some (r, m') \<Longrightarrow> \<exists>k. m' = m\<lparr>pip := (pip m)\<lparr>kern := k\<rparr>\<rparr>"
  by (auto simp: on_kernel_def bind_eq_Some_conv)

lemma kb_ok_effects:
  assumes "kb_ok m"
  shows "on_kernel f m = Some (r, m') \<Longrightarrow> kb_ok m'" "on_video g m = Some m' \<Longrightarrow> kb_ok m'"
    "post_keyboard m = Some m' \<Longrightarrow> kb_ok m'" "kb_ok (m\<lparr>pip := p\<rparr>)" "kb_ok (clear_buffer m)"
  using assms on_kernel_effect [of f m r m'] post_keyboard_kernel [of m m']
  by (auto simp: on_video_def bind_eq_Some_conv kb_ok_def clear_buffer_def BUFF_SIZE_def)

text \<open>An operation that leaves the keyboard well typed when it returns.\<close>

definition keeps :: "machine option \<Rightarrow> bool" where
  "keeps x \<longleftrightarrow> (\<forall>m'. x = Some m' \<longrightarrow> kb_ok m')"

lemma keeps_intros:
  "kb_ok m \<Longrightarrow> keeps (Some m)" "keeps None"
  "(b \<Longrightarrow> keeps x) \<Longrightarrow> (\<not> b \<Longrightarrow> keeps y) \<Longrightarrow> keeps (if b then x else y)"
  "(\<And>a. z = Some a \<Longrightarrow> keeps (f a)) \<Longrightarrow> keeps (z \<bind> f)"
  by (auto simp: keeps_def bind_eq_Some_conv)

lemma store_key_type:
  assumes "kb_ok m" "key < 256"
  shows "keeps (store_key c fs key m)"
proof (unfold keeps_def, intro allI impI)
  fix m' assume s: "store_key c fs key m = Some m'"
  have l: "length (buff m) = BUFF_SIZE" using assms(1) by (simp add: kb_ok_def)
  note e = store_key_effect [OF s l]
  have "set (buff m') \<subseteq> insert key (insert 0 (set (buff m)))"
    unfolding e(4) by (meson insert_mono order_trans set_update_subset_insert)
  then have "\<forall>x\<in>set (buff m'). x < 256" using assms by (auto simp: kb_ok_def)
  moreover have "length (buff m') = BUFF_SIZE" using l e(4) by simp
  moreover have "0 \<le> buffer_pos m'" "buffer_pos m' \<le> int BUFF_SIZE"
    using e(1-3) by (auto simp: next_pos_def)
  ultimately show "kb_ok m'" using assms(1) e(6,7) by (simp add: kb_ok_def)
qed

lemma ctrl_c_type: "kb_ok m \<Longrightarrow> keeps (ctrl_c m)"
proof -
  assume m: "kb_ok m"
  have p: "keeps (post_keyboard (clear_buffer m'))" if "kb_ok m'" for m'
    unfolding keeps_def using kb_ok_effects(3) [OF kb_ok_effects(5) [OF that]] by blast
  show ?thesis unfolding ctrl_c_def Let_def
    by (rule keeps_intros(4)) (auto intro!: keeps_intros p dest: kb_ok_effects(1) [OF m] split: prod.split)
qed

lemma handler_type:
  assumes m: "kb_ok m" and "key < 256"
  shows "keeps (keyboard_handler hw c fs key m)"
proof -
  have flags: "kb_ok (m\<lparr>shift_pressed := b\<rparr>)" "kb_ok (m\<lparr>ctrl_pressed := b\<rparr>)" if "b \<le> 1" for b
    using m that by (auto simp: kb_ok_def)
  have small: "(if shift_pressed m \<noteq> 0 then shifted key else key) < 256" "unat EOF_BYTE < 256"
    using assms(2) by (auto simp: shifted_def EOF_BYTE_def)
  have video: "keeps (on_video g m)" for g using kb_ok_effects(2) [OF m] by (simp add: keeps_def)
  show ?thesis unfolding keyboard_handler_def
    by (intro keeps_intros(1-3) flags video m ctrl_c_type store_key_type small keeps_intros(4) kb_ok_effects(4)) simp_all
qed

text \<open>C23: the type of the keyboard state. Every key, whatever its scan code and whatever Control
  and Shift are, leaves a buffer of 4096 bytes, a position from 0 to 4096 and flags that are 0
  or 1; so does every turn of a reader, whatever position it has in its local variable. A plain
  key returns when the position is inside the buffer and the keyboard semaphore can be posted.\<close>

theorem keyboard_type_safe:
  assumes "kb_ok m"
  shows "(\<forall>key m'. key < 256 \<longrightarrow> keyboard_handler hw c fs key m = Some m' \<longrightarrow> kb_ok m') \<and>
    (\<forall>buf i pos i' pos' m'. read_key buf i pos m = Some (i', pos', m') \<longrightarrow> kb_ok m') \<and>
    (\<forall>k. plain_key k \<and> ctrl_pressed m = 0 \<and> buffer_pos m < int BUFF_SIZE \<and> 4 \<le> length fs \<and> post_ready (kern (pip m)) \<longrightarrow>
      (\<exists>m'. keyboard_handler hw c fs k m = Some m'))"
proof (intro conjI allI impI)
  show "kb_ok m'" if "keyboard_handler hw c fs key m = Some m'" "key < 256" for key m'
    using handler_type [OF assms that(2), of hw c fs] that(1) by (simp add: keeps_def)
  show "kb_ok m'" if "read_key buf i pos m = Some (i', pos', m')" for buf i pos i' pos' m'
    using assms that by (auto simp: read_key_def bind_eq_Some_conv get_char_at_def in_buffer_def kb_ok_def set_pos_def
        put_byte_at_def split: if_splits option.splits)
  show "\<exists>m'. keyboard_handler hw c fs k m = Some m'"
    if "plain_key k \<and> ctrl_pressed m = 0 \<and> buffer_pos m < int BUFF_SIZE \<and> 4 \<le> length fs \<and> post_ready (kern (pip m))" for k
    using that assms plain_handler [of k m] store_key_returns [of m fs] by (simp add: kb_ok_def)
qed

section \<open>A reader and a keyboard\<close>

text \<open>
  \<open>console_run hw buf m0 ks n pos m\<close>: from \<open>m0\<close>, where a process has entered the loop of
  \<open>sys_read\<close> for the buffer \<open>buf\<close>, the keys \<open>ks\<close> have been typed, \<open>n\<close> characters are read, and
  the reader has \<open>pos\<close> in its local variable. A key is typed when the reader has taken the one
  before; the reader takes the semaphore and runs the body of its loop; every other step leaves
  the keyboard and the characters read so far as they are.
\<close>

definition same_console :: "nat \<Rightarrow> nat \<Rightarrow> machine \<Rightarrow> machine \<Rightarrow> bool" where
  "same_console buf n m m' \<longleftrightarrow> buff m' = buff m \<and> buffer_pos m' = buffer_pos m \<and>
     shift_pressed m' = shift_pressed m \<and> ctrl_pressed m' = ctrl_pressed m \<and>
     bytes_at (bytes_of (pip m')) buf n = bytes_at (bytes_of (pip m)) buf n"

inductive console_run :: "hardware \<Rightarrow> nat \<Rightarrow> machine \<Rightarrow> nat list \<Rightarrow> nat \<Rightarrow> int \<Rightarrow> machine \<Rightarrow> bool"
  for hw :: hardware and buf :: nat and m0 :: machine where
  start: "console_run hw buf m0 [] 0 (get_buffer_position m0) m0"
| typed: "console_run hw buf m0 ks (length ks) pos m \<Longrightarrow> plain_key k \<Longrightarrow>
    keyboard_handler hw c fs k m = Some m' \<Longrightarrow> console_run hw buf m0 (ks @ [k]) (length ks) pos m'"
| reads: "console_run hw buf m0 ks n pos m \<Longrightarrow> on_kernel (my_sem_wait_resume j) m = Some (Returned r, m1) \<Longrightarrow>
    read_key buf n pos m1 = Some (n', pos', m') \<Longrightarrow> console_run hw buf m0 ks n' pos' m'"
| other: "console_run hw buf m0 ks n pos m \<Longrightarrow> same_console buf n m m' \<Longrightarrow> console_run hw buf m0 ks n pos m'"

inductive_cases console_run_key: "console_run hw buf m0 (ks @ [k]) n pos m"

text \<open>A fresh line: Control and Shift up, and nothing at the position.\<close>

definition fresh_line :: "machine \<Rightarrow> bool" where
  "fresh_line m \<longleftrightarrow> kb_ok m \<and> buffer_pos m < int BUFF_SIZE \<and> ctrl_pressed m = 0 \<and> shift_pressed m = 0 \<and>
     get_char_at (buffer_pos m) m = Some 0"

definition delivers :: "nat \<Rightarrow> machine \<Rightarrow> nat list \<Rightarrow> nat \<Rightarrow> int \<Rightarrow> machine \<Rightarrow> bool" where
  "delivers buf m0 ks n pos m \<longleftrightarrow> length (buff m) = BUFF_SIZE \<and> ctrl_pressed m = 0 \<and> shift_pressed m = 0 \<and>
     (\<forall>k\<in>set ks. plain_key k) \<and> pos = buffer_pos m0 + int n \<and> pos \<le> int BUFF_SIZE \<and>
     bytes_at (bytes_of (pip m)) buf n = map key_byte (take n ks) \<and>
     (if n = length ks then buffer_pos m = pos \<and> (pos < int BUFF_SIZE \<longrightarrow> buff m ! nat pos = 0)
      else length ks = n + 1 \<and> pos < int BUFF_SIZE \<and> buff m ! nat pos = ks ! n \<and>
        (pos + 1 < int BUFF_SIZE \<longrightarrow> buff m ! nat (pos + 1) = 0))"

lemma delivers_cong: "delivers buf m0 ks n pos m \<Longrightarrow> same_console buf n m m' \<Longrightarrow> delivers buf m0 ks n pos m'"
proof -
  assume d: "delivers buf m0 ks n pos m" and "same_console buf n m m'"
  then have e: "buff m' = buff m" "buffer_pos m' = buffer_pos m" "shift_pressed m' = shift_pressed m"
    "ctrl_pressed m' = ctrl_pressed m" "bytes_at (bytes_of (pip m')) buf n = bytes_at (bytes_of (pip m)) buf n"
    by (simp_all add: same_console_def)
  show ?thesis using d unfolding delivers_def e .
qed

lemma delivers_typed:
  assumes "delivers buf m0 ks (length ks) pos m" "plain_key k" "keyboard_handler hw c fs k m = Some m'" "0 \<le> buffer_pos m0"
  shows "delivers buf m0 (ks @ [k]) (length ks) pos m'"
proof -
  have d: "length (buff m) = BUFF_SIZE" "ctrl_pressed m = 0" "shift_pressed m = 0" "buffer_pos m = pos" "0 \<le> pos"
    using assms(1,4) by (simp_all add: delivers_def)
  have "store_key c fs k m = Some m'" using assms(3) plain_handler [OF assms(2) d(2)] d(3) by simp
  note e = store_key_effect [OF this d(1)]
  have b: "buff m' = (buff m)[nat (next_pos pos) := 0, nat pos := k]" "nat pos < length (buff m)"
    using e(1,2,4) d by simp_all
  then have "buff m' ! nat pos = k" by simp
  moreover have "buff m' ! nat (pos + 1) = 0" if "pos + 1 < int BUFF_SIZE"
    using that d(1,5) b by (simp add: next_pos_def nat_eq_iff)
  ultimately show ?thesis using assms(1,2) e d by (auto simp: delivers_def nth_append)
qed

lemma read_key_eq:
  assumes "length (buff m) = BUFF_SIZE" "0 \<le> pos"
  shows "read_key buf n pos m =
    (if pos < int BUFF_SIZE then
       Some (case key_char (buff m ! nat pos) of
               Some b \<Rightarrow> (n + 1, pos + 1, set_pos (pos + 1) (put_byte_at (buf + n) b m))
             | None \<Rightarrow> (n, get_buffer_position m, m))
     else None)"
  using assms by (auto simp: read_key_def get_char_at_def in_buffer_def split: option.splits)

lemma delivers_reads:
  assumes d: "delivers buf m0 ks n pos m" and "read_key buf n pos m = Some (n', pos', m')" "0 \<le> buffer_pos m0"
  shows "delivers buf m0 ks n' pos' m'"
proof -
  have l: "length (buff m) = BUFF_SIZE" "0 \<le> pos" using assms by (auto simp: delivers_def)
  have p: "pos < int BUFF_SIZE" using assms(2) read_key_eq [OF l] by (simp split: if_splits)
  show ?thesis
  proof (cases "n = length ks")
    case True
    then have "buff m ! nat pos = 0" using d p unfolding delivers_def by meson
    moreover have "buffer_pos m = pos" using True d by (simp add: delivers_def)
    ultimately have "n' = n" "pos' = pos" "m' = m"
      using assms(2) p by (simp_all add: read_key_eq [OF l] get_buffer_position_def)
    then show ?thesis using d by simp
  next
    case False
    then have k: "buff m ! nat pos = ks ! n" "length ks = n + 1" "plain_key (ks ! n)"
      using d by (auto simp: delivers_def)
    then have "key_char (buff m ! nat pos) = Some (key_byte (ks ! n))"
      using key_char_eq by (simp add: plain_key_def)
    then have m': "n' = n + 1" "pos' = pos + 1" "m' = set_pos (pos + 1) (put_byte_at (buf + n) (key_byte (ks ! n)) m)"
      using assms(2) p by (auto simp: read_key_eq [OF l])
    have "bytes_at (bytes_of (pip m')) buf (n + 1) = bytes_at (bytes_of (pip m)) buf n @ [key_byte (ks ! n)]"
      unfolding m' bytes_at_append by (auto simp: put_byte_at_def set_pos_def bytes_at_eq bytes_at_Suc)
    moreover have "ks = take n ks @ [ks ! n]" using k(2) by (metis lessI take_Suc_conv_app_nth Suc_eq_plus1 take_all order_refl)
    then have "map key_byte ks = map key_byte (take n ks) @ [key_byte (ks ! n)]" by (metis list.simps(8,9) map_append)
    moreover have "bytes_at (bytes_of (pip m)) buf n = map key_byte (take n ks)" "\<forall>k\<in>set ks. plain_key k"
      "ctrl_pressed m = 0" "shift_pressed m = 0" "buffer_pos m0 + int n = pos"
      using d False by (simp_all add: delivers_def)
    moreover have "pos + 1 < int BUFF_SIZE \<longrightarrow> buff m ! nat (pos + 1) = 0"
      using d False unfolding delivers_def by metis
    ultimately show ?thesis using l p k(2) unfolding delivers_def m'(1,2)
      by (simp add: m' set_pos_def put_byte_at_def flip: add.assoc)
  qed
qed

lemma console_run_delivers:
  assumes "console_run hw buf m0 ks n pos m" "fresh_line m0"
  shows "delivers buf m0 ks n pos m"
  using assms
proof (induction rule: console_run.induct)
  case start
  then show ?case by (auto simp: delivers_def fresh_line_def kb_ok_def get_char_at_def get_buffer_position_def split: if_splits)
next
  case (typed ks pos m k c fs m')
  then show ?case using delivers_typed by (auto simp: fresh_line_def kb_ok_def)
next
  case (reads ks n pos m j r m1 n' pos' m')
  obtain k where "m1 = m\<lparr>pip := (pip m)\<lparr>kern := k\<rparr>\<rparr>" using on_kernel_effect [OF reads.hyps(2)] by blast
  then have "same_console buf n m m1" by (simp add: same_console_def)
  then have "delivers buf m0 ks n pos m1" using reads.IH [OF reads.prems] delivers_cong by blast
  then show ?case using delivers_reads reads.hyps(3) reads.prems by (auto simp: fresh_line_def kb_ok_def)
next
  case (other ks n pos m m')
  then show ?case using delivers_cong by blast
qed


text \<open>C36: the end of the buffer. The position of the buffer wraps around only in the handler, which
  the reader overwrites with its own: after the character at position 4095 has been read, the
  next key is stored behind the buffer, which is undefined, and so is the next read.\<close>

theorem keyboard_overflow:
  assumes "console_run hw buf m0 ks (length ks) pos m" "fresh_line m0" "buffer_pos m0 + int (length ks) = int BUFF_SIZE"
    "plain_key k"
  shows "keyboard_handler hw c fs k m = None \<and> read_key buf' i pos m = None"
proof -
  have d: "length (buff m) = BUFF_SIZE" "ctrl_pressed m = 0" "buffer_pos m = int BUFF_SIZE" "pos = int BUFF_SIZE"
    using console_run_delivers [OF assms(1,2)] assms(3) by (auto simp: delivers_def)
  have "keyboard_handler hw c fs k m = None"
    using plain_handler [OF assms(4) d(2)] store_key_effect(2) [OF _ d(1)] d(3)
    by (metis less_irrefl not_Some_eq)
  then show ?thesis using d by (simp add: read_key_eq)
qed

section \<open>A small machine for the witnesses\<close>

definition demo_registers :: register_struct_t where
  "demo_registers = \<lparr>rax = 1, rbx = 2, rcx = 3, rdx = 4, rsi = 5, rdi = 6, rbp = 7, rsp_reg = 8, r8 = 9, r9 = 10,
     r10 = 11, r11 = 12, r12 = 13, r13 = 14, r14 = 15, r15 = 16, ss = 17, cs = 18, rflags = 19, rip = 20\<rparr>"

definition demo_hw :: hardware where
  "demo_hw = \<lparr>mode = demo_vbe, rtc = (\<lambda>_. 1), port61 = 0, clock = (\<lambda>k. k), low_string = (\<lambda>_. Some [])\<rparr>"

text \<open>The demo kernel before the semaphores are in use, the position at the last place of the buffer.\<close>

definition demo_machine :: machine where
  "demo_machine = \<lparr>pip = \<lparr>kern = demo_kernel, bytes_of = (\<lambda>_. 0), pipe_array = [], max_pipe = 1, first_eof = 1\<rparr>,
     vid = video_zero (\<lambda>_. 0), buffer_pos = 4095, buff = replicate BUFF_SIZE 0, shift_pressed = 0, ctrl_pressed = 0,
     flag_snapshot_taken = 0, registers = demo_registers, port_writes = []\<rparr>"

lemma demo_fresh: "fresh_line demo_machine"
  by (simp add: fresh_line_def kb_ok_def demo_machine_def get_char_at_def in_buffer_def BUFF_SIZE_def)

lemma demo_kb_ok: "kb_ok demo_machine"
  using demo_fresh by (simp add: fresh_line_def)

lemma demo_plain: "plain_key 0x1E"
  by (simp add: plain_key_def)

lemma demo_types: "\<exists>m'. keyboard_handler demo_hw demo_registers [] 0x1E demo_machine = Some m' \<and> pip m' = pip demo_machine"
  by (simp add: keyboard_handler_def demo_machine_def store_key_def put_at_def in_buffer_def set_pos_def
      get_buffer_position_def scan_codes_def scan_code_table_def post_keyboard_def demo_kernel_def Let_def BUFF_SIZE_def)

text \<open>One key typed and read: the run that reaches the end of the buffer.\<close>

lemma demo_run: "\<exists>m. console_run demo_hw 100 demo_machine [0x1E] 1 4096 m"
proof -
  obtain m1 where m1: "keyboard_handler demo_hw demo_registers [] 0x1E demo_machine = Some m1" "pip m1 = pip demo_machine"
    using demo_types by blast
  have "console_run demo_hw 100 demo_machine [] (length ([] :: nat list)) 4095 demo_machine"
    using console_run.start [of demo_hw 100 demo_machine] by (simp add: get_buffer_position_def demo_machine_def)
  from console_run.typed [OF this demo_plain m1(1)]
  have run: "console_run demo_hw 100 demo_machine [0x1E] 0 4095 m1" by simp
  have sem: "sem_spaces demo_kernel = demo_sem # replicate 127 demo_sem"
    by (simp add: demo_kernel_def MAX_SEMS_def flip: replicate_Suc)
  have "\<exists>k. on_kernel (my_sem_wait_resume 0) m1 = Some (Returned 0, m1\<lparr>pip := (pip m1)\<lparr>kern := k\<rparr>\<rparr>)"
    by (simp add: on_kernel_def m1(2) demo_machine_def my_sem_wait_resume_def enter_region_def sem_at_def sem demo_sem_def Let_def)
      blast
  then obtain k where w: "on_kernel (my_sem_wait_resume 0) m1 = Some (Returned 0, m1\<lparr>pip := (pip m1)\<lparr>kern := k\<rparr>\<rparr>)" by blast
  let ?m = "m1\<lparr>pip := (pip m1)\<lparr>kern := k\<rparr>\<rparr>"
  have d: "delivers 100 demo_machine [0x1E] 0 4095 m1" using console_run_delivers [OF run demo_fresh] .
  then have "length (buff ?m) = BUFF_SIZE" "buff ?m ! 4095 = 0x1E" by (auto simp: delivers_def)
  then obtain m2 where "read_key 100 0 4095 ?m = Some (1, 4096, m2)"
    using read_key_eq [of ?m 4095 100 0] key_char_eq [of "0x1E"] by (auto simp: BUFF_SIZE_def)
  from console_run.reads [OF run w this] show ?thesis by blast
qed

theorem keyboard_type_safe_witness:
  "\<exists>m'. keyboard_handler demo_hw demo_registers [] 0x1E demo_machine = Some m' \<and> kb_ok m'"
proof -
  obtain m' where m': "keyboard_handler demo_hw demo_registers [] 0x1E demo_machine = Some m'" using demo_types by blast
  have "(0x1E :: nat) < 256" by simp
  then show ?thesis
    using keyboard_type_safe [OF demo_kb_ok, of demo_hw demo_registers "[]", THEN conjunct1] m' by blast
qed


theorem keyboard_overflow_witness:
  "\<exists>m. console_run demo_hw 100 demo_machine [0x1E] 1 4096 m \<and>
    keyboard_handler demo_hw demo_registers [] 0x1E m = None \<and> read_key 101 0 4096 m = None"
proof -
  obtain m where m: "console_run demo_hw 100 demo_machine [0x1E] 1 4096 m" using demo_run by blast
  then have "console_run demo_hw 100 demo_machine [0x1E] (length [0x1E :: nat]) 4096 m" by simp
  moreover have "buffer_pos demo_machine + int (length [0x1E :: nat]) = int BUFF_SIZE"
    by (simp add: demo_machine_def BUFF_SIZE_def)
  ultimately show ?thesis using m keyboard_overflow [OF _ demo_fresh _ demo_plain] by blast
qed

end
