(* ===== verification/User_Lib.thy ===== *)
theory User_Lib
  imports Lib Console
begin

text \<open>
  Userland/SampleCodeModule/utils.c: the formatted input and output of the user programs, their
  string routines and the conversions between numbers and text. Standard input and output are
  byte lists; a program that reads beyond the input waits, which is \<open>None\<close> like undefined
  behaviour. Signed arithmetic that leaves its type is undefined, and a variadic argument has the
  type it is read with.
\<close>

section \<open>Input and output\<close>

record user =
  stdin :: "byte list"
  stdout :: "byte list"
  ram :: memory

definition get_c :: "user \<Rightarrow> (byte \<times> user) option" where
  "get_c s = (case stdin s of [] \<Rightarrow> None | c # cs \<Rightarrow> Some (c, s\<lparr>stdin := cs\<rparr>))"

definition EOF_CHAR :: byte where "EOF_CHAR = 1"

definition put_c :: "byte \<Rightarrow> user \<Rightarrow> user" where
  "put_c c s = s\<lparr>stdout := stdout s @ [c]\<rparr>"

text \<open>The value of an \<open>int\<close> and of an \<open>int64_t\<close> expression.\<close>

definition int32 :: "int \<Rightarrow> int option" where
  "int32 x = (if - (2 ^ 31) \<le> x \<and> x < 2 ^ 31 then Some x else None)"

definition int64 :: "int \<Rightarrow> int option" where
  "int64 x = (if - (2 ^ 63) \<le> x \<and> x < 2 ^ 63 then Some x else None)"

definition store_int :: "nat \<Rightarrow> int \<Rightarrow> memory \<Rightarrow> memory" where
  "store_int p x m = store32 p (word_of_int x) m"

definition null_or_space :: "byte \<Rightarrow> bool" where
  "null_or_space c \<longleftrightarrow> c = 0 \<or> c = ch CHR '' ''"

definition null_or_newline :: "byte \<Rightarrow> bool" where
  "null_or_newline c \<longleftrightarrow> c = 0 \<or> c = 10"

definition isspace :: "byte \<Rightarrow> bool" where
  "isspace c \<longleftrightarrow> c = ch CHR '' '' \<or> c = 10 \<or> c = 0"

definition is_digit :: "byte \<Rightarrow> bool" where
  "is_digit c \<longleftrightarrow> 48 \<le> sint c \<and> sint c \<le> 57"

definition is_upper_hex :: "byte \<Rightarrow> bool" where
  "is_upper_hex c \<longleftrightarrow> 65 \<le> sint c \<and> sint c \<le> 70"

text \<open>The optional sign in front of a number: its value and the character after it.\<close>

definition read_sign :: "user \<Rightarrow> (int \<times> byte \<times> user) option" where
  "read_sign s = do {
     (c, s) \<leftarrow> get_c s;
     if c = ch CHR ''-'' then do { (c, s) \<leftarrow> get_c s; Some (- 1, c, s) } else Some (1, c, s)
   }"

partial_function (option) read_int_loop :: "byte \<Rightarrow> int \<Rightarrow> user \<Rightarrow> (int \<times> user) option" where
  "read_int_loop c value s =
     (if c \<noteq> 0 \<and> is_digit c then do {
        x \<leftarrow> int32 (value * 10);
        value \<leftarrow> int32 ((sint c - 48) + x);
        (c, s) \<leftarrow> get_c s;
        read_int_loop c value s
      } else Some (value, s))"

definition read_int :: "nat \<Rightarrow> user \<Rightarrow> (int \<times> user) option" where
  "read_int d s = do {
     (sign, c, s) \<leftarrow> read_sign s;
     (value, s) \<leftarrow> read_int_loop c 0 s;
     Some (1, s\<lparr>ram := store_int d (value * sign) (ram s)\<rparr>)
   }"

partial_function (option) read_string_loop :: "nat \<Rightarrow> nat \<Rightarrow> byte \<Rightarrow> user \<Rightarrow> (nat \<times> user) option" where
  "read_string_loop p i c s =
     (if c \<noteq> 0 \<and> c \<noteq> 10 then do {
        (c', s) \<leftarrow> get_c (s\<lparr>ram := (ram s)(p + i := c)\<rparr>);
        read_string_loop p (i + 1) c' s
      } else Some (i, s\<lparr>ram := (ram s)(p + i := 0)\<rparr>))"

definition read_string :: "nat \<Rightarrow> user \<Rightarrow> (int \<times> user) option" where
  "read_string p s = do {
     (c, s) \<leftarrow> get_c s;
     (i, s) \<leftarrow> read_string_loop p 0 c s;
     Some (int i, s)
   }"

partial_function (option) read_hex_loop :: "byte \<Rightarrow> int \<Rightarrow> user \<Rightarrow> (int \<times> user) option" where
  "read_hex_loop c value s =
     (if c \<noteq> 0 \<and> (is_digit c \<or> is_upper_hex c) then do {
        let d = (if is_upper_hex c then sint c - 65 + 10 else sint c - 48);
        x \<leftarrow> int32 (value * 16);
        value \<leftarrow> int32 (x + d);
        (c, s) \<leftarrow> get_c s;
        read_hex_loop c value s
      } else Some (value, s))"

definition read_hex_int :: "nat \<Rightarrow> user \<Rightarrow> (int \<times> user) option" where
  "read_hex_int d s = do {
     (sign, c, s) \<leftarrow> read_sign s;
     (value, s) \<leftarrow> read_hex_loop c 0 s;
     Some (1, s\<lparr>ram := store_int d (value * sign) (ram s)\<rparr>)
   }"

partial_function (option) put_string :: "nat \<Rightarrow> user \<Rightarrow> user option" where
  "put_string p s = (if ram s p \<noteq> 0 then put_string (p + 1) (put_c (ram s p) s) else Some s)"

text \<open>The power of ten of the first digit; it stays below \<open>num\<close>, so it is an \<open>int\<close>.\<close>

function divisor_loop :: "int \<Rightarrow> int \<Rightarrow> int" where
  "divisor_loop num divisor =
     (if 0 < divisor \<and> 10 \<le> num div divisor then divisor_loop num (divisor * 10) else divisor)"
  by pat_completeness auto
termination
proof (relation "measure (\<lambda>(num, divisor). nat (num - divisor))")
  fix num divisor :: int
  assume a: "0 < divisor \<and> 10 \<le> num div divisor"
  then have "divisor * 10 \<le> divisor * (num div divisor)" "0 \<le> num mod divisor" by (auto intro: mult_left_mono)
  then have "10 * divisor \<le> num" using mult_div_mod_eq [of divisor num] by linarith
  then show "((num, divisor * 10), (num, divisor)) \<in> measure (\<lambda>(num, divisor). nat (num - divisor))"
    using a by auto
qed simp

declare divisor_loop.simps [simp del]

function put_digits :: "int \<Rightarrow> int \<Rightarrow> user \<Rightarrow> user" where
  "put_digits num divisor s =
     (if 0 < divisor
      then put_digits (num mod divisor) (divisor div 10) (put_c (word_of_int (48 + num div divisor)) s)
      else s)"
  by pat_completeness auto
termination
  by (relation "measure (\<lambda>(num, divisor, s). nat divisor)") auto

declare put_digits.simps [simp del]

definition put_int :: "int \<Rightarrow> user \<Rightarrow> user option" where
  "put_int num s = do {
     (num, s) \<leftarrow> (if num < 0 then do { n \<leftarrow> int32 (- num); Some (n, put_c (ch CHR ''-'') s) } else Some (num, s));
     Some (put_digits num (divisor_loop num 1) s)
   }"

definition hex_digits :: "byte list" where
  "hex_digits = bytes ''0123456789ABCDEF''"

fun hex_loop :: "nat \<Rightarrow> nat \<Rightarrow> byte list \<Rightarrow> nat \<times> byte list" where
  "hex_loop 0 num b = (0, b)"
| "hex_loop (Suc i) num b =
     (if 0 < num \<and> 1 < Suc i then hex_loop i (num div 16) (b[Suc i := hex_digits ! (num mod 16)]) else (Suc i, b))"

fun hex_zeros :: "nat \<Rightarrow> byte list \<Rightarrow> byte list" where
  "hex_zeros 0 b = b"
| "hex_zeros (Suc i) b = (if 1 < Suc i then hex_zeros i (b[Suc i := ch CHR ''0'']) else b)"

text \<open>\<open>to_print\<close> is a local array of 19 bytes that ends with a NUL.\<close>

definition put_hex_dir :: "nat \<Rightarrow> user \<Rightarrow> user" where
  "put_hex_dir num s =
     (let to_print = (replicate 19 0)[0 := ch CHR ''0'', 1 := ch CHR ''x'', 18 := 0];
          (i, to_print) = hex_loop 17 num to_print;
          to_print = hex_zeros i to_print
      in s\<lparr>stdout := stdout s @ takeWhile (\<lambda>c. c \<noteq> 0) to_print\<rparr>)"

section \<open>Formats\<close>

datatype arg = Int_arg int | Ptr_arg nat | U64_arg nat

definition print_conversion :: "byte \<Rightarrow> arg list \<Rightarrow> user \<Rightarrow> (arg list \<times> user) option" where
  "print_conversion k ap s =
     (if k = ch CHR ''c'' then (case ap of Int_arg c # ap \<Rightarrow> Some (ap, put_c (word_of_int c) s) | _ \<Rightarrow> None)
      else if k = ch CHR ''d'' then (case ap of Int_arg d # ap \<Rightarrow> do { s \<leftarrow> put_int d s; Some (ap, s) } | _ \<Rightarrow> None)
      else if k = ch CHR ''s'' then (case ap of Ptr_arg p # ap \<Rightarrow> do { s \<leftarrow> put_string p s; Some (ap, s) } | _ \<Rightarrow> None)
      else if k = ch CHR ''x'' then (case ap of U64_arg x # ap \<Rightarrow> Some (ap, put_hex_dir x s) | _ \<Rightarrow> None)
      else Some (ap, s))"

partial_function (option) vprint :: "nat \<Rightarrow> arg list \<Rightarrow> user \<Rightarrow> user option" where
  "vprint format ap s =
     (if ram s format = 0 then Some s
      else if ram s format = ch CHR ''%'' then do {
        (ap, s) \<leftarrow> print_conversion (ram s (format + 1)) ap s;
        vprint (format + 2) ap s
      }
      else vprint (format + 1) ap (put_c (ram s format) s))"

definition print :: "nat \<Rightarrow> arg list \<Rightarrow> user \<Rightarrow> user option" where
  "print format args s = vprint format args s"

definition scan_conversion :: "byte \<Rightarrow> arg list \<Rightarrow> user \<Rightarrow> (int \<times> arg list \<times> user) option" where
  "scan_conversion k ap s =
     (if k \<in> {ch CHR ''c'', ch CHR ''d'', ch CHR ''s'', ch CHR ''x''} then
        (case ap of Ptr_arg p # ap \<Rightarrow> do {
           (r, s) \<leftarrow> (if k = ch CHR ''c'' then do { (c, s) \<leftarrow> get_c s; Some (1, s\<lparr>ram := (ram s)(p := c)\<rparr>) }
                     else if k = ch CHR ''d'' then read_int p s
                     else if k = ch CHR ''s'' then read_string p s
                     else read_hex_int p s);
           Some (r, ap, s)
         } | _ \<Rightarrow> None)
      else Some (0, ap, s))"

partial_function (option) scanf_loop :: "nat \<Rightarrow> arg list \<Rightarrow> int \<Rightarrow> user \<Rightarrow> (int \<times> user) option" where
  "scanf_loop format ap to_ret s =
     (if ram s format = 0 then Some (to_ret, s)
      else if ram s format = ch CHR ''%'' then do {
        (r, ap, s) \<leftarrow> scan_conversion (ram s (format + 1)) ap s;
        scanf_loop (format + 2) ap (to_ret + r) s
      }
      else scanf_loop (format + 1) ap to_ret s)"

definition own_scanf :: "nat \<Rightarrow> arg list \<Rightarrow> user \<Rightarrow> (int \<times> user) option" where
  "own_scanf format args s = scanf_loop format args 0 s"

section \<open>Strings\<close>

partial_function (option) strcmp_loop :: "memory \<Rightarrow> nat \<Rightarrow> nat \<Rightarrow> nat \<Rightarrow> int option" where
  "strcmp_loop m str1 str2 i =
     (if m (str1 + i) \<noteq> 0 \<and> m (str2 + i) \<noteq> 0 then
        (if sint (m (str1 + i)) > sint (m (str2 + i)) then Some 1
         else if sint (m (str1 + i)) < sint (m (str2 + i)) then Some (- 1)
         else strcmp_loop m str1 str2 (i + 1))
      else if m (str1 + i) = 0 \<and> m (str2 + i) = 0 then Some 0
      else if m (str1 + i) = 0 then Some (- 1) else Some 1)"

definition strcmp :: "memory \<Rightarrow> nat \<Rightarrow> nat \<Rightarrow> int option" where
  "strcmp m str1 str2 = strcmp_loop m str1 str2 0"

partial_function (option) strncmp_loop :: "memory \<Rightarrow> nat \<Rightarrow> nat \<Rightarrow> int \<Rightarrow> nat \<Rightarrow> int option" where
  "strncmp_loop m str1 str2 n i =
     (if m (str1 + i) \<noteq> 0 \<and> m (str2 + i) \<noteq> 0 \<and> int i < n then
        (if sint (m (str1 + i)) > sint (m (str2 + i)) then Some 1
         else if sint (m (str1 + i)) < sint (m (str2 + i)) then Some (- 1)
         else strncmp_loop m str1 str2 n (i + 1))
      else if int i = n then Some 0
      else if m (str1 + i) = 0 then Some (- 1) else Some 1)"

definition strncmp :: "memory \<Rightarrow> nat \<Rightarrow> nat \<Rightarrow> int \<Rightarrow> int option" where
  "strncmp m str1 str2 n = strncmp_loop m str1 str2 n 0"

definition BUFFER_SIZE :: nat where "BUFFER_SIZE = 128"

text \<open>The local copy of the first word; an index of 128 is outside the array.\<close>

partial_function (option) partition_loop :: "memory \<Rightarrow> nat \<Rightarrow> byte list \<Rightarrow> byte list option" where
  "partition_loop m str2 word =
     (let c = m (str2 + length word)
      in if length word \<ge> BUFFER_SIZE then None
         else if c \<noteq> 0 \<and> c \<noteq> ch CHR '' '' then partition_loop m str2 (word @ [c])
         else Some (word @ [0]))"

partial_function (option) strcmpspace_loop :: "memory \<Rightarrow> nat \<Rightarrow> byte list \<Rightarrow> nat \<Rightarrow> int option" where
  "strcmpspace_loop m str1 word i =
     (let a = m (str1 + i); b = word ! i
      in if a \<noteq> 0 \<and> \<not> null_or_space b then
           (if sint a > sint b then Some 1 else if sint a < sint b then Some (- 1)
            else strcmpspace_loop m str1 word (i + 1))
         else if a = 0 \<and> null_or_space b then Some 0
         else if null_or_space b then Some (- 1) else Some 1)"

definition strcmpspace :: "memory \<Rightarrow> nat \<Rightarrow> nat \<Rightarrow> int option" where
  "strcmpspace m str1 str2 = do { p \<leftarrow> partition_loop m str2 []; strcmpspace_loop m str1 p 0 }"

text \<open>\<open>strtok\<close> with its static pointer before and after; a NULL \<open>str\<close> goes on where it stopped.\<close>

partial_function (option) strtok_loop :: "memory \<Rightarrow> byte \<Rightarrow> nat \<Rightarrow> nat option" where
  "strtok_loop m delim p = (if m p \<noteq> delim \<and> m p \<noteq> 0 then strtok_loop m delim (p + 1) else Some p)"

definition strtok :: "nat \<Rightarrow> byte \<Rightarrow> nat \<Rightarrow> memory \<Rightarrow> (nat \<times> nat \<times> memory) option" where
  "strtok str delim static_str m =
     (let static_str = (if str \<noteq> 0 then str else static_str)
      in if static_str = 0 then None
         else if m static_str = 0 then Some (0, static_str, m)
         else do {
           p \<leftarrow> strtok_loop m delim static_str;
           Some (static_str, if m p = delim then p + 1 else p, if m p = delim then m(p := 0) else m)
         })"

fun strncpy_loop :: "nat \<Rightarrow> nat \<Rightarrow> nat \<Rightarrow> nat \<Rightarrow> bool \<Rightarrow> memory \<Rightarrow> memory" where
  "strncpy_loop dest src i 0 ended m = m"
| "strncpy_loop dest src i (Suc k) ended m =
     (let ended = (ended \<or> m (src + i) = 0)
      in strncpy_loop dest src (i + 1) k ended (m(dest + i := if ended then 0 else m (src + i))))"

text \<open>Both loops of \<open>strncpy\<close>: \<open>ended\<close> tells that the second one runs.\<close>

definition strncpy :: "nat \<Rightarrow> nat \<Rightarrow> int \<Rightarrow> memory \<Rightarrow> nat \<times> memory" where
  "strncpy dest src n m = (dest, strncpy_loop dest src 0 (nat n) False m)"

partial_function (option) str_len_loop :: "memory \<Rightarrow> nat \<Rightarrow> nat \<Rightarrow> nat option" where
  "str_len_loop m str i = (if m (str + i) \<noteq> 0 then str_len_loop m str (i + 1) else Some i)"

definition str_len :: "memory \<Rightarrow> nat \<Rightarrow> nat option" where
  "str_len m str = str_len_loop m str 0"

text \<open>\<open>concat\<close> writes no NUL behind the copy.\<close>

definition concat_str :: "nat \<Rightarrow> nat \<Rightarrow> memory \<Rightarrow> (nat \<times> memory) option" where
  "concat_str str1 str2 m = do {
     len1 \<leftarrow> str_len m str1;
     len2 \<leftarrow> str_len m str2;
     Some (str1, fold (\<lambda>i m. m(str1 + len1 + i := m (str2 + i))) [0..<len2] m)
   }"

section \<open>Numbers\<close>

partial_function (option) atoi_loop :: "memory \<Rightarrow> nat \<Rightarrow> nat \<Rightarrow> int \<Rightarrow> int option" where
  "atoi_loop m str i value =
     (if m (str + i) \<noteq> 0 then do {
        x \<leftarrow> int32 (value * 10);
        value \<leftarrow> int32 ((sint (m (str + i)) - 48) + x);
        atoi_loop m str (i + 1) value
      } else Some value)"

definition atoi :: "memory \<Rightarrow> nat \<Rightarrow> int option" where
  "atoi m str = do {
     let (sign, i) = (if m str = ch CHR ''-'' then (- 1, 1) else (1, 0));
     value \<leftarrow> atoi_loop m str i 0;
     int32 (value * sign)
   }"

text \<open>The exits of \<open>satoi\<close>: a character that is no digit anywhere gives 0 at once.\<close>

partial_function (option) satoi_loop :: "memory \<Rightarrow> nat \<Rightarrow> nat \<Rightarrow> int \<Rightarrow> int \<Rightarrow> int option" where
  "satoi_loop m str i res sign =
     (if m (str + i) \<noteq> 0 then
        (if \<not> is_digit (m (str + i)) then Some 0
         else do {
           x \<leftarrow> int64 (res * 10);
           y \<leftarrow> int64 (x + sint (m (str + i)));
           satoi_loop m str (i + 1) (y - 48) sign
         })
      else int64 (res * sign))"

definition satoi :: "memory \<Rightarrow> nat \<Rightarrow> int option" where
  "satoi m str =
     (if str = 0 then Some 0
      else if m str = ch CHR ''-'' then satoi_loop m str 1 0 (- 1) else satoi_loop m str 0 0 1)"

function reverse_loop :: "nat \<Rightarrow> int \<Rightarrow> int \<Rightarrow> memory \<Rightarrow> memory" where
  "reverse_loop str start end m =
     (if start < end
      then reverse_loop str (start + 1) (end - 1) (m(str + nat start := m (str + nat end), str + nat end := m (str + nat start)))
      else m)"
  by pat_completeness auto
termination
  by (relation "measure (\<lambda>(str, start, end, m). nat (end - start))") auto

declare reverse_loop.simps [simp del]

definition reverse :: "nat \<Rightarrow> int \<Rightarrow> memory \<Rightarrow> memory" where
  "reverse str len m = reverse_loop str 0 (len - 1) m"

definition c_div :: "int \<Rightarrow> int \<Rightarrow> int" where
  "c_div a b = (if 0 \<le> a then a div b else - ((- a) div b))"

text \<open>The digits of \<open>num\<close>, last first, to \<open>str\<close> from index \<open>i\<close> on. Only positive bases are
  modelled; the program has no other.\<close>

partial_function (option) itoa_loop :: "int \<Rightarrow> nat \<Rightarrow> int \<Rightarrow> nat \<Rightarrow> memory \<Rightarrow> (nat \<times> memory) option" where
  "itoa_loop num str base i m =
     (if num \<noteq> 0 then
        let rem = c_rem num base
        in itoa_loop (c_div num base) str base (i + 1)
             (m(str + i := word_of_int (if rem > 9 then rem - 10 + 97 else rem + 48)))
      else Some (i, m))"

definition itoa :: "int \<Rightarrow> nat \<Rightarrow> int \<Rightarrow> memory \<Rightarrow> (nat \<times> memory) option" where
  "itoa num str base m =
     (if num = 0 then Some (str, m(str := ch CHR ''0'', str + 1 := 0))
      else if base \<le> 0 then None
      else do {
        let is_negative = (num < 0 \<and> base = 10);
        num \<leftarrow> (if is_negative then int32 (- num) else Some num);
        (i, m) \<leftarrow> itoa_loop num str base 0 m;
        let (i, m) = (if is_negative then (i + 1, m(str + i := ch CHR ''-'')) else (i, m));
        Some (str, reverse str (int i) (m(str + i := 0)))
      })"

end
