(* ===== verification/User_Numbers.thy ===== *)
theory User_Numbers
  imports User_Lib
begin

text \<open>
  Numbers and text in the user library: \<open>put_int\<close> and \<open>itoa\<close> write the decimal numeral of an
  \<open>int\<close>, \<open>read_int\<close> and \<open>atoi\<close> read it back. The digits are those of Console, and the reversal
  in memory is its loop on lists.
\<close>

section \<open>Decimal numerals\<close>

definition digit_byte :: "nat \<Rightarrow> byte" where
  "digit_byte d = word_of_int (int d + 48)"

definition decimal :: "int \<Rightarrow> byte list" where
  "decimal n = (if n < 0 then [ch CHR ''-''] else []) @ map digit_byte (rev (digits_of 10 (nat \<bar>n\<bar>)))"

lemma less_ten: "(d::nat) < 10 \<Longrightarrow> d = 0 \<or> d = 1 \<or> d = 2 \<or> d = 3 \<or> d = 4 \<or> d = 5 \<or> d = 6 \<or> d = 7 \<or> d = 8 \<or> d = 9"
  by arith

lemma digit_byte_facts:
  assumes "d < 10"
  shows "sint (digit_byte d) = int d + 48" "digit_byte d \<noteq> 0" "is_digit (digit_byte d)" "digit_byte d \<noteq> ch CHR ''-''"
proof -
  have "sint (of_nat (d + 48) :: byte) = int (d + 48)"
    using assms by (simp add: signed_of_nat signed_take_bit_int_eq_self del: of_nat_add)
  then show s: "sint (digit_byte d) = int d + 48" by (simp add: digit_byte_def)
  then show "digit_byte d \<noteq> 0" "is_digit (digit_byte d)" using assms by (auto simp: is_digit_def)
  have "sint (ch CHR ''-'') = 45" by simp
  then show "digit_byte d \<noteq> ch CHR ''-''" using s by auto
qed

lemma digits_of_ten: "d \<in> set (digits_of 10 v) \<Longrightarrow> d < 10"
  using digits_of_less [of 10 d v] by simp

lemma hd_map_append: "xs \<noteq> [] \<Longrightarrow> map f xs @ ys = b # bs \<Longrightarrow> b = f (hd xs)"
  by (cases xs) auto

text \<open>Reading digits from the left, starting with \<open>a\<close>.\<close>

abbreviation reading_value :: "nat \<Rightarrow> nat list \<Rightarrow> nat" where
  "reading_value a ds \<equiv> foldl (\<lambda>a d. a * 10 + d) a ds"

lemma reading_value_ge: "a \<le> reading_value a ds"
proof (induction ds arbitrary: a)
  case (Cons d ds)
  have "a * 10 + d \<le> reading_value (a * 10 + d) ds" by (rule Cons)
  then show ?case by simp
qed simp

lemma reading_value_digits: "reading_value 0 (rev (digits_of 10 v)) = v"
  using digits_of_value [of 10 v] by (simp add: foldl_conv_foldr)

lemma int32_Some [simp]: "- (2 ^ 31) \<le> x \<Longrightarrow> x < 2 ^ 31 \<Longrightarrow> int32 x = Some x"
  by (simp add: int32_def)

text \<open>One digit more, as \<open>read_int\<close> and \<open>atoi\<close> compute it.\<close>

lemma digit_step:
  assumes "reading_value (a * 10 + d) ds < 2 ^ 31" "d < 10"
  shows "int32 (int a * 10) = Some (int a * 10)"
    "int32 (sint (digit_byte d) - 48 + int a * 10) = Some (int (a * 10 + d))"
proof -
  have "a * 10 + d < 2 ^ 31" using reading_value_ge [of "a * 10 + d" ds] assms(1) by linarith
  then show "int32 (int a * 10) = Some (int a * 10)"
    "int32 (sint (digit_byte d) - 48 + int a * 10) = Some (int (a * 10 + d))"
    using digit_byte_facts(1) [OF assms(2)] by (simp_all add: int32_def)
qed

section \<open>Reading\<close>

lemma get_c_Cons: "stdin s = c # cs \<Longrightarrow> get_c s = Some (c, s\<lparr>stdin := cs\<rparr>)"
  by (simp add: get_c_def)

lemma read_int_loop_eq:
  "\<forall>d\<in>set ds. d < 10 \<Longrightarrow> reading_value a ds < 2 ^ 31 \<Longrightarrow> c = 0 \<or> \<not> is_digit c \<Longrightarrow>
   b # stdin s = map digit_byte ds @ c # rest \<Longrightarrow>
   read_int_loop b (int a) s = Some (int (reading_value a ds), s\<lparr>stdin := rest\<rparr>)"
proof (induction ds arbitrary: a b s)
  case Nil
  then show ?case by (subst read_int_loop.simps) auto
next
  case (Cons d ds)
  have d: "d < 10" "b = digit_byte d" "reading_value (a * 10 + d) ds < 2 ^ 31" using Cons.prems by auto
  obtain b' cs where cs: "stdin s = b' # cs" "b' # cs = map digit_byte ds @ c # rest"
    using Cons.prems(4) by (cases ds) auto
  have "read_int_loop b (int a) s = read_int_loop b' (int (a * 10 + d)) (s\<lparr>stdin := cs\<rparr>)"
    using digit_byte_facts(2,3) [OF d(1)] digit_step [OF d(3,1)] get_c_Cons [OF cs(1)] d(2)
    by (subst read_int_loop.simps) simp
  also have "\<dots> = Some (int (reading_value (a * 10 + d) ds), s\<lparr>stdin := rest\<rparr>)"
    using Cons.IH [of "a * 10 + d" b' "s\<lparr>stdin := cs\<rparr>"] Cons.prems(1,3) d(3) cs(2) by simp
  finally show ?case by simp
qed

lemma atoi_loop_eq:
  "cstr m (p + i) (map digit_byte ds) \<Longrightarrow> \<forall>d\<in>set ds. d < 10 \<Longrightarrow> reading_value a ds < 2 ^ 31 \<Longrightarrow>
   atoi_loop m p i (int a) = Some (int (reading_value a ds))"
proof (induction ds arbitrary: i a)
  case Nil
  then show ?case by (simp add: atoi_loop.simps)
next
  case (Cons d ds)
  have d: "d < 10" "m (p + i) = digit_byte d" "reading_value (a * 10 + d) ds < 2 ^ 31" "cstr m (p + (i + 1)) (map digit_byte ds)"
    using Cons.prems by simp_all
  have "atoi_loop m p i (int a) = atoi_loop m p (i + 1) (int (a * 10 + d))"
    using digit_byte_facts(2) [OF d(1)] digit_step [OF d(3,1)] d(2) by (subst atoi_loop.simps) simp
  then show ?case using Cons.IH [OF d(4) _ d(3)] Cons.prems(2) by simp
qed

section \<open>Printing\<close>

fun fixed_digits :: "nat \<Rightarrow> nat \<Rightarrow> nat list" where
  "fixed_digits 0 v = [v]"
| "fixed_digits (Suc k) v = v div 10 ^ Suc k # fixed_digits k (v mod 10 ^ Suc k)"

lemma fixed_digits_snoc: "fixed_digits (Suc k) v = fixed_digits k (v div 10) @ [v mod 10]"
proof (induction k arbitrary: v)
  case (Suc k)
  have "fixed_digits (Suc (Suc k)) v = v div 10 ^ Suc (Suc k) # fixed_digits (Suc k) (v mod 10 ^ Suc (Suc k))" by simp
  also have "fixed_digits (Suc k) (v mod 10 ^ Suc (Suc k)) =
      fixed_digits k (v mod 10 ^ Suc (Suc k) div 10) @ [v mod 10 ^ Suc (Suc k) mod 10]" by (rule Suc)
  also have "v mod 10 ^ Suc (Suc k) div 10 = v div 10 mod 10 ^ Suc k"
    using mod_mult2_eq [of v 10 "10 ^ Suc k"] by (simp only: power_Suc [of 10 "Suc k"])
  also have "v mod 10 ^ Suc (Suc k) mod 10 = v mod 10" by (simp add: mod_mod_cancel)
  also have "v div 10 ^ Suc (Suc k) = v div 10 div 10 ^ Suc k"
    by (simp only: power_Suc [of 10 "Suc k"] div_mult2_eq)
  finally show ?case by simp
qed simp

lemma digits_of_fixed: "v < 10 ^ Suc k \<Longrightarrow> 10 ^ k \<le> v \<or> k = 0 \<Longrightarrow> rev (digits_of 10 v) = fixed_digits k v"
proof (induction k arbitrary: v)
  case 0
  then show ?case by (simp add: digits_of.simps)
next
  case (Suc k)
  have "10 ^ Suc k \<le> v" using Suc.prems(2) by simp
  moreover have "(1::nat) \<le> 10 ^ k" by simp
  ultimately have v: "10 \<le> v" unfolding power_Suc by linarith
  have "10 ^ k \<le> v div 10" using \<open>10 ^ Suc k \<le> v\<close> by (simp add: less_eq_div_iff_mult_less_eq mult.commute)
  note v = v this
  have "v div 10 < 10 ^ Suc k" using Suc.prems(1) by (simp add: less_mult_imp_div_less mult.commute)
  then have "rev (digits_of 10 (v div 10)) = fixed_digits k (v div 10)" using Suc.IH v(2) by blast
  then show ?case using v(1) by (simp add: digits_of.simps [of 10 v] fixed_digits_snoc del: fixed_digits.simps)
qed

lemma put_digits_eq:
  "put_digits (int v) (10 ^ k) s = s\<lparr>stdout := stdout s @ map digit_byte (fixed_digits k v)\<rparr>"
proof (induction k arbitrary: v s)
  case 0
  have "put_digits 0 0 t = t" for t by (simp add: put_digits.simps)
  then show ?case by (subst put_digits.simps) (simp add: put_c_def digit_byte_def add.commute)
next
  case (Suc k)
  have "put_digits (int v) (10 ^ Suc k) s =
      put_digits (int (v mod 10 ^ Suc k)) (10 ^ k) (put_c (digit_byte (v div 10 ^ Suc k)) s)"
    by (subst put_digits.simps) (simp add: digit_byte_def zdiv_int zmod_int add.commute)
  then show ?case by (simp add: Suc put_c_def)
qed

lemma divisor_loop_eq:
  "10 ^ j \<le> v \<Longrightarrow> \<exists>k. divisor_loop (int v) (10 ^ j) = 10 ^ k \<and> 10 ^ k \<le> v \<and> v < 10 ^ Suc k"
proof (induction "v - 10 ^ j" arbitrary: j rule: less_induct)
  case less
  have pos: "(0::nat) < 10 ^ j" by simp
  show ?case
  proof (cases "10 ^ Suc j \<le> v")
    case True
    then have "10 \<le> v div 10 ^ j" by (simp add: less_eq_div_iff_mult_less_eq)
    then have "10 \<le> int v div 10 ^ j" by (metis of_nat_le_iff of_nat_numeral of_nat_power zdiv_int)
    then have "divisor_loop (int v) (10 ^ j) = divisor_loop (int v) (10 ^ Suc j)"
      by (subst divisor_loop.simps) (simp add: mult.commute)
    moreover have "v - 10 ^ Suc j < v - 10 ^ j" using True pos unfolding power_Suc by linarith
    ultimately show ?thesis using less.hyps True by metis
  next
    case False
    then have "v div 10 ^ j < 10" by (simp add: less_mult_imp_div_less)
    then have "\<not> 10 \<le> int v div 10 ^ j" by (metis not_le of_nat_less_iff of_nat_numeral of_nat_power zdiv_int)
    then have "divisor_loop (int v) (10 ^ j) = 10 ^ j" by (subst divisor_loop.simps) simp
    then show ?thesis using False less.prems by (intro exI [of _ j]) simp
  qed
qed

lemma put_nat_eq: "put_digits (int v) (divisor_loop (int v) 1) s = s\<lparr>stdout := stdout s @ map digit_byte (rev (digits_of 10 v))\<rparr>"
proof (cases "v = 0")
  case True
  have "divisor_loop 0 1 = 10 ^ 0" by (simp add: divisor_loop.simps)
  then show ?thesis using put_digits_eq [of 0 0 s] True by (simp add: digits_of.simps)
next
  case False
  then obtain k where "divisor_loop (int v) 1 = 10 ^ k" "10 ^ k \<le> v" "v < 10 ^ Suc k"
    using divisor_loop_eq [of 0 v] by auto
  then show ?thesis using put_digits_eq [of v k s] digits_of_fixed [of v k] by simp
qed

lemma put_int_eq:
  assumes "- (2 ^ 31) < n" "n < 2 ^ 31"
  shows "put_int n s = Some (s\<lparr>stdout := stdout s @ decimal n\<rparr>)"
proof (cases "n < 0")
  case True
  then have "- n = int (nat \<bar>n\<bar>)" "int32 (- n) = Some (int (nat \<bar>n\<bar>))" using assms(1) by (simp_all add: int32_def)
  then show ?thesis using True put_nat_eq [of "nat \<bar>n\<bar>" "put_c (ch CHR ''-'') s"]
    by (simp add: put_int_def decimal_def put_c_def)
next
  case False
  then have "n = int (nat \<bar>n\<bar>)" by simp
  then show ?thesis using False put_nat_eq [of "nat \<bar>n\<bar>" s] by (simp add: put_int_def decimal_def)
qed

text \<open>C39: printing and scanning agree. \<open>put_int\<close> prints the decimal numeral of every \<open>int\<close> but the
  least, whose negation overflows; and \<open>read_int\<close>, given that numeral and any character that is
  not a digit, stores the number, consumes exactly both, and reports one conversion.\<close>

theorem put_int_read_int:
  assumes "- (2 ^ 31) < n" "n < 2 ^ 31" "c = 0 \<or> \<not> is_digit c" "stdin t = decimal n @ c # rest"
  shows "put_int n s = Some (s\<lparr>stdout := stdout s @ decimal n\<rparr>) \<and>
    read_int p t = Some (1, t\<lparr>stdin := rest, ram := store_int p n (ram t)\<rparr>) \<and> put_int (- (2 ^ 31)) s = None"
proof (intro conjI)
  let ?v = "nat \<bar>n\<bar>" let ?ds = "rev (digits_of 10 ?v)"
  have v: "int ?v = \<bar>n\<bar>" "?v < 2 ^ 31" using assms(1,2) by simp_all
  show "put_int (- (2 ^ 31)) s = None" by (simp add: put_int_def int32_def)
  show "put_int n s = Some (s\<lparr>stdout := stdout s @ decimal n\<rparr>)" using assms(1,2) by (rule put_int_eq)
  obtain b bs where b: "map digit_byte ?ds @ c # rest = b # bs" by (cases ?ds) auto
  have "?ds \<noteq> []" by (subst digits_of.simps) simp
  then have "hd ?ds \<in> set ?ds" by (rule hd_in_set)
  moreover have "b = digit_byte (hd ?ds)" using b \<open>?ds \<noteq> []\<close> hd_map_append by metis
  ultimately have nb: "b \<noteq> ch CHR ''-''" using digit_byte_facts(4) digits_of_ten by (metis set_rev)
  have sign: "read_sign t = Some (if n < 0 then - 1 else 1, b, t\<lparr>stdin := bs\<rparr>)"
    using assms(4) b nb by (auto simp: read_sign_def decimal_def get_c_Cons)
  have "read_int_loop b (int 0) (t\<lparr>stdin := bs\<rparr>) = Some (int (reading_value 0 ?ds), t\<lparr>stdin := rest\<rparr>)"
    using read_int_loop_eq [of ?ds 0 c b "t\<lparr>stdin := bs\<rparr>" rest] b assms(3) v(2) digits_of_ten reading_value_digits [of ?v]
    by simp
  then have loop: "read_int_loop b 0 (t\<lparr>stdin := bs\<rparr>) = Some (\<bar>n\<bar>, t\<lparr>stdin := rest\<rparr>)"
    by (simp add: reading_value_digits)
  show "read_int p t = Some (1, t\<lparr>stdin := rest, ram := store_int p n (ram t)\<rparr>)"
    by (simp add: read_int_def sign loop)
qed

section \<open>Conversion in memory\<close>

lemma swap_loop_length: "length (swap_loop s i j) = length s"
  by (induction s i j rule: swap_loop.induct) (subst swap_loop.simps, simp)

lemma reverse_loop_eq:
  "bytes_at m p (length s) = s \<Longrightarrow> j < length s \<Longrightarrow>
   reverse_loop p (int i) (int j) m = write_bytes p (swap_loop s i j) m"
proof (induction s i j arbitrary: m rule: swap_loop.induct)
  case (1 s i j)
  show ?case
  proof (cases "i < j")
    case False
    then have "reverse_loop p (int i) (int j) m = m" "swap_loop s i j = s"
      by (simp_all add: reverse_loop.simps swap_loop.simps)
    moreover have "write_bytes p s m = m"
      using 1(2) by (auto simp: write_bytes_def bytes_at_eq fun_eq_iff) (metis add_diff_inverse_nat less_diff_conv2 not_less add.commute)
    ultimately show ?thesis by simp
  next
    case True
    let ?m = "m(p + i := m (p + j), p + j := m (p + i))" and ?s = "s[i := s ! j, j := s ! i]"
    have s: "\<And>k. k < length s \<Longrightarrow> m (p + k) = s ! k" using 1(2) by (simp add: bytes_at_eq)
    have "bytes_at ?m p (length ?s) = ?s"
      using s True 1(3) by (auto simp: bytes_at_eq nth_list_update)
    then have "reverse_loop p (int (i + 1)) (int (j - 1)) ?m = write_bytes p (swap_loop ?s (i + 1) (j - 1)) ?m"
      using 1(1) [OF True] 1(3) by (metis length_list_update less_imp_diff_less)
    moreover have "length (swap_loop ?s (i + 1) (j - 1)) = length s" by (simp add: swap_loop_length)
    then have "write_bytes p (swap_loop ?s (i + 1) (j - 1)) ?m = write_bytes p (swap_loop ?s (i + 1) (j - 1)) m"
      using True 1(3) by (auto simp: write_bytes_def fun_eq_iff)
    moreover have "reverse_loop p (int i) (int j) m = reverse_loop p (int (i + 1)) (int (j - 1)) ?m"
      using True by (subst reverse_loop.simps) (simp add: of_nat_diff add.commute)
    ultimately show ?thesis using True by (simp add: swap_loop.simps [of s])
  qed
qed

lemma reverse_eq:
  assumes "bytes_at m p (length s) = s" "s \<noteq> []"
  shows "reverse p (int (length s)) m = write_bytes p (rev s) m"
proof -
  have e: "int (length s) - 1 = int (length s - 1)" using assms(2) by (cases s) auto
  have "reverse p (int (length s)) m = reverse_loop p (int 0) (int (length s - 1)) m"
    unfolding reverse_def e by simp
  also have "\<dots> = write_bytes p (swap_loop s 0 (length s - 1)) m"
    using reverse_loop_eq [OF assms(1), of "length s - 1" 0] assms(2) by (cases s) auto
  finally show ?thesis unfolding swap_loop_rev .
qed

lemma itoa_loop_eq:
  "0 < v \<Longrightarrow> itoa_loop (int v) p 10 i m =
     Some (i + length (digits_of 10 v), write_bytes (p + i) (map digit_byte (digits_of 10 v)) m)"
proof (induction v arbitrary: i m rule: less_induct)
  case (less v)
  have q: "c_div (int v) 10 = int (v div 10)" "c_rem (int v) 10 = int (v mod 10)"
    by (simp_all add: c_div_def c_rem_def zdiv_int zmod_int)
  have nine: "\<not> 9 < int v mod 10" by presburger
  have step: "itoa_loop (int v) p 10 i m = itoa_loop (int (v div 10)) p 10 (i + 1) (m(p + i := digit_byte (v mod 10)))"
    using less.prems nine by (subst itoa_loop.simps) (simp add: q digit_byte_def Let_def zmod_int)
  show ?case
  proof (cases "v < 10")
    case True
    then have "digits_of 10 v = [v]" "v div 10 = 0" by (simp_all add: digits_of.simps)
    then show ?thesis using step by (simp add: itoa_loop.simps [of 0] write_bytes_Cons fun_eq_iff)
  next
    case False
    then have "digits_of 10 v = v mod 10 # digits_of 10 (v div 10)" by (simp add: digits_of.simps [of 10 v])
    then show ?thesis using step less.IH [of "v div 10" "i + 1"] False by (simp add: write_bytes_Cons)
  qed
qed

lemma itoa_eq:
  assumes "- (2 ^ 31) < n" "n < 2 ^ 31"
  shows "itoa n p 10 m = Some (p, write_bytes p (decimal n @ [0]) m)"
proof (cases "n = 0")
  case True
  then show ?thesis by (simp add: itoa_def decimal_def digits_of.simps write_bytes_Cons digit_byte_def)
next
  case False
  let ?v = "nat \<bar>n\<bar>" let ?ds = "map digit_byte (digits_of 10 ?v)" let ?sg = "if n < 0 then [ch CHR ''-''] else []"
  have v: "0 < ?v" "int ?v = \<bar>n\<bar>" "int32 \<bar>n\<bar> = Some \<bar>n\<bar>" using False assms by (auto simp: int32_def abs_if)
  have ne: "?ds \<noteq> []" by (subst digits_of.simps) simp
  let ?w = "write_bytes p (?ds @ ?sg @ [0]) m"
  have loop: "itoa_loop \<bar>n\<bar> p 10 0 m = Some (length ?ds, write_bytes p ?ds m)"
    using itoa_loop_eq [OF v(1), of p 0 m] v(2) by simp
  have "itoa n p 10 m = Some (p, reverse p (int (length (?ds @ ?sg))) ?w)"
    using False loop v(3) by (auto simp: itoa_def write_bytes_append write_bytes_Cons abs_if add.commute)
  also have "reverse p (int (length (?ds @ ?sg))) ?w = write_bytes p (rev (?ds @ ?sg)) ?w"
    using ne by (intro reverse_eq) (simp_all add: bytes_at_eq write_bytes_def nth_append)
  also have "\<dots> = write_bytes p (rev (?ds @ ?sg) @ [0]) m"
    by (rule ext) (auto simp: write_bytes_def nth_append)
  also have "rev (?ds @ ?sg) = decimal n" by (simp add: decimal_def rev_map)
  finally show ?thesis .
qed

lemma decimal_length: "- (2 ^ 31) < n \<Longrightarrow> n < 2 ^ 31 \<Longrightarrow> length (decimal n) \<le> 11"
proof -
  assume "- (2 ^ 31) < n" "n < 2 ^ 31"
  then have "nat \<bar>n\<bar> < 10 ^ 10" by simp
  from digits_of_length [OF _ _ this] show ?thesis by (cases "n < 0") (simp_all add: decimal_def)
qed

lemma decimal_no_nul: "0 \<notin> set (decimal n)"
  using digit_byte_facts(2) digits_of_ten by (force simp: decimal_def)

text \<open>C40: \<open>itoa\<close> and \<open>atoi\<close> are inverse. For every \<open>int\<close> but the least, \<open>itoa\<close> in base 10 writes
  the decimal numeral with its NUL, at most 12 bytes and nothing else, and \<open>atoi\<close> of that text
  is the number. For the least \<open>int\<close> the negation in \<open>itoa\<close> overflows.\<close>

theorem itoa_atoi_roundtrip:
  assumes "- (2 ^ 31) < n" "n < 2 ^ 31"
  shows "\<exists>m'. itoa n p 10 m = Some (p, m') \<and> cstr m' p (decimal n) \<and> (\<forall>a. a < p \<or> p + 12 \<le> a \<longrightarrow> m' a = m a) \<and>
    atoi m' p = Some n \<and> itoa (- (2 ^ 31)) p 10 m = None"
proof -
  let ?m = "write_bytes p (decimal n @ [0]) m" and ?ds = "rev (digits_of 10 (nat \<bar>n\<bar>))"
  have str: "cstr ?m p (decimal n)" using decimal_no_nul by (rule cstr_write)
  have val: "reading_value 0 ?ds = nat \<bar>n\<bar>" "nat \<bar>n\<bar> < 2 ^ 31"
    using assms by (simp_all add: reading_value_digits)
  have atoi: "atoi ?m p = Some n"
  proof (cases "n < 0")
    case True
    then have c: "cstr ?m (p + 1) (map digit_byte ?ds)" "?m p = ch CHR ''-''"
      using str by (simp_all add: decimal_def)
    have "atoi_loop ?m p 1 (int 0) = Some (int (nat \<bar>n\<bar>))"
      using atoi_loop_eq [OF c(1), of 0] val digits_of_ten by auto
    then show ?thesis using True c(2) assms by (simp add: atoi_def int32_def)
  next
    case False
    then have c: "cstr ?m (p + 0) (map digit_byte ?ds)" using str by (simp add: decimal_def)
    have "?ds \<noteq> []" by (subst digits_of.simps) simp
    then have "hd ?ds \<in> set ?ds" by (rule hd_in_set)
    moreover have "?m p = digit_byte (hd ?ds)"
      using cstr_nth [OF c, of 0] \<open>?ds \<noteq> []\<close> by (simp add: nth_map hd_conv_nth)
    ultimately have "?m p \<noteq> ch CHR ''-''" using digit_byte_facts(4) digits_of_ten by (metis set_rev)
    moreover have "atoi_loop ?m p 0 (int 0) = Some (int (nat \<bar>n\<bar>))"
      using atoi_loop_eq [OF c, of 0] val digits_of_ten by auto
    ultimately show ?thesis using False assms by (simp add: atoi_def int32_def)
  qed
  have frame: "?m a = m a" if "a < p \<or> p + 12 \<le> a" for a
    using that decimal_length [OF assms] by (intro write_bytes_outside) auto
  have "itoa (- (2 ^ 31)) p 10 m = None" by (simp add: itoa_def int32_def)
  then show ?thesis using itoa_eq [OF assms] str frame atoi by (intro exI [of _ ?m]) simp
qed

section \<open>Witnesses\<close>

definition demo_user :: user where
  "demo_user = \<lparr>stdin = decimal (- 27) @ [10], stdout = [], ram = (\<lambda>_. 0)\<rparr>"

theorem put_int_read_int_witness:
  "put_int (- 27) demo_user = Some (demo_user\<lparr>stdout := [ch CHR ''-'', ch CHR ''2'', ch CHR ''7'']\<rparr>) \<and>
   read_int 4 demo_user = Some (1, demo_user\<lparr>stdin := [], ram := store_int 4 (- 27) (\<lambda>_. 0)\<rparr>)"
proof -
  have "stdin demo_user = decimal (- 27) @ 10 # []" "(10 :: byte) = 0 \<or> \<not> is_digit 10"
    by (simp_all add: demo_user_def is_digit_def)
  moreover have "decimal (- 27) = [ch CHR ''-'', ch CHR ''2'', ch CHR ''7'']"
    by (simp add: decimal_def digits_of.simps digit_byte_def)
  ultimately show ?thesis using put_int_read_int [of "- 27" 10 demo_user "[]" demo_user 4]
    by (simp add: demo_user_def)
qed

theorem itoa_atoi_roundtrip_witness:
  "\<exists>m'. itoa (- 2147483647) 100 10 (\<lambda>_. 0) = Some (100, m') \<and> atoi m' 100 = Some (- 2147483647)"
  using itoa_atoi_roundtrip [of "- 2147483647" 100 "\<lambda>_. 0"] by auto

end
