(* ===== verification/Phylo.thy ===== *)
theory Phylo
  imports Prelude
begin

text \<open>
  Userland/SampleCodeModule/phylo.c: the dining philosophers. The global variables are a record;
  the semaphore system calls a function makes are appended to \<open>calls\<close>, the pid a creation
  returns is an argument, and an index outside an array or a division by zero is \<open>None\<close>. Each
  function is one step, as the mutex intends; the program passes the index that \<open>call_sem_open\<close>
  returns on as the address of a name, so whether its mutex excludes anything depends on the
  string at that address.
\<close>

section \<open>The table\<close>

definition MAX_PHILOSOPHERS :: nat where "MAX_PHILOSOPHERS = 20"
definition MIN_PHILOSOPHERS :: nat where "MIN_PHILOSOPHERS = 1"
definition START_PHILOSOPHERS :: nat where "START_PHILOSOPHERS = 5"

text \<open>The macros THINKING, HUNGRY and EATING, an \<open>int\<close> of \<open>fork_states\<close>.\<close>

datatype fork_state = THINKING | HUNGRY | EATING

datatype sem_call = Sem_wait int | Sem_post int | Sem_close int | Force_kill int | Sleepms nat | Print string | Print_int nat

record table =
  num_philosophers :: nat
  last :: nat
  mutex_id :: int
  r_w_sem_index :: int
  add_remove_mutex_index :: int
  fork_states :: "fork_state list"
  fork_sem_ids :: "int list"
  philosopher_pids :: "int list"
  eating :: nat
  phil_qty :: int
  calls :: "sem_call list"

definition call :: "sem_call \<Rightarrow> table \<Rightarrow> table" where
  "call c t = t\<lparr>calls := calls t @ [c]\<rparr>"

definition state_at :: "nat \<Rightarrow> table \<Rightarrow> fork_state option" where
  "state_at i t = (if i < length (fork_states t) then Some (fork_states t ! i) else None)"

definition set_state :: "nat \<Rightarrow> fork_state \<Rightarrow> table \<Rightarrow> table option" where
  "set_state i x t = (if i < length (fork_states t) then Some (t\<lparr>fork_states := (fork_states t)[i := x]\<rparr>) else None)"

definition fork_sem :: "nat \<Rightarrow> table \<Rightarrow> int option" where
  "fork_sem i t = (if i < length (fork_sem_ids t) then Some (fork_sem_ids t ! i) else None)"

definition pid_at :: "nat \<Rightarrow> table \<Rightarrow> int option" where
  "pid_at i t = (if i < length (philosopher_pids t) then Some (philosopher_pids t ! i) else None)"

definition left :: "nat \<Rightarrow> table \<Rightarrow> nat option" where
  "left i t = (if num_philosophers t = 0 then None
     else Some ((i + num_philosophers t - 1) mod num_philosophers t))"

definition right :: "nat \<Rightarrow> table \<Rightarrow> nat option" where
  "right i t = (if num_philosophers t = 0 then None else Some ((i + 1) mod num_philosophers t))"

section \<open>The operations\<close>

definition initialize :: "table \<Rightarrow> table" where
  "initialize t = t\<lparr>num_philosophers := 0, last := 0\<rparr>"

text \<open>The conditions of \<open>test\<close> are evaluated from left to right.\<close>

definition test :: "nat \<Rightarrow> table \<Rightarrow> table option" where
  "test i t = do {
     x \<leftarrow> state_at i t;
     if x \<noteq> HUNGRY then Some t else do {
     l \<leftarrow> left i t;
     x \<leftarrow> state_at l t;
     if x = EATING then Some t else do {
     r \<leftarrow> right i t;
     x \<leftarrow> state_at r t;
     if x = EATING then Some t else do {
     t \<leftarrow> set_state i EATING t;
     q \<leftarrow> fork_sem i t;
     Some (call (Sem_post q) t)
     } } } }"

definition take_forks :: "nat \<Rightarrow> table \<Rightarrow> table option" where
  "take_forks i t = do {
     t \<leftarrow> set_state i HUNGRY (call (Sem_wait (mutex_id t)) t);
     t \<leftarrow> test i (call (Sem_post (r_w_sem_index t)) t);
     x \<leftarrow> state_at i t;
     let t = call (Sem_post (mutex_id t)) t;
     if x \<noteq> EATING then do { q \<leftarrow> fork_sem i t; Some (call (Sem_wait q) t) } else Some t
   }"

definition put_forks :: "nat \<Rightarrow> table \<Rightarrow> table option" where
  "put_forks i t = do {
     t \<leftarrow> set_state i THINKING (call (Sem_wait (mutex_id t)) t);
     let t = call (Sem_post (r_w_sem_index t)) t;
     l \<leftarrow> left i t;
     t \<leftarrow> test l t;
     r \<leftarrow> right i t;
     t \<leftarrow> test r t;
     Some (call (Sem_post (mutex_id t)) t)
   }"

definition think :: "table \<Rightarrow> table" where
  "think t = call (Sleepms 100) t"

definition eat :: "nat \<Rightarrow> table \<Rightarrow> table option" where
  "eat i t = do {
     x \<leftarrow> state_at i t;
     Some (if x = EATING then call (Sleepms 100) (t\<lparr>eating := eating t + 1\<rparr>) else t)
   }"

text \<open>One round of \<open>philosopher\<close>.\<close>

definition philosopher_round :: "nat \<Rightarrow> table \<Rightarrow> table option" where
  "philosopher_round i t = do {
     t \<leftarrow> take_forks i (think t);
     t \<leftarrow> eat i t;
     put_forks i t
   }"

text \<open>\<open>p\<close> is the result of \<open>call_create_process\<close>.\<close>

definition add_philosopher :: "int \<Rightarrow> table \<Rightarrow> table option" where
  "add_philosopher p t = do {
     let t = call (Sem_wait (mutex_id t)) t;
     let k = num_philosophers t;
     t \<leftarrow> set_state k THINKING t;
     if k \<ge> length (philosopher_pids t) then None else do {
     let t = t\<lparr>philosopher_pids := (philosopher_pids t)[k := p]\<rparr>;
     if p = - 1 then Some (call (Sem_post (mutex_id t)) t)
     else do {
       t \<leftarrow> test k (t\<lparr>num_philosophers := k + 1\<rparr>);
       Some (call (Sem_post (mutex_id t)) t)
     } } }"

text \<open>The pause in \<open>remove_philosopher\<close> for a philosopher that eats; other steps can run in it.\<close>

definition remove_pause :: "nat \<Rightarrow> table \<Rightarrow> table option" where
  "remove_pause k t = do {
     x \<leftarrow> state_at k t;
     Some (if x = EATING
           then call (Sem_wait (add_remove_mutex_index t)) (call (Sleepms 100) (call (Sem_post (add_remove_mutex_index t)) t))
           else t)
   }"

definition remove_rest :: "nat \<Rightarrow> table \<Rightarrow> table option" where
  "remove_rest k t = do {
     l \<leftarrow> left k t;
     r \<leftarrow> right k t;
     t \<leftarrow> test l t;
     t \<leftarrow> test r t;
     p \<leftarrow> pid_at k t;
     t \<leftarrow> set_state k THINKING (call (Force_kill p) t);
     q \<leftarrow> fork_sem k t;
     let t = call (Sem_close q) t;
     Some (t\<lparr>num_philosophers := num_philosophers t - 1\<rparr>)
   }"

definition remove_philosopher :: "table \<Rightarrow> table option" where
  "remove_philosopher t = do {
     let t = call (Sem_wait (add_remove_mutex_index t)) t;
     t \<leftarrow> (if num_philosophers t > MIN_PHILOSOPHERS
           then do { t \<leftarrow> remove_pause (num_philosophers t - 1) t; remove_rest (num_philosophers t - 1) t }
           else Some t);
     Some (call (Sem_post (add_remove_mutex_index t)) t)
   }"

text \<open>
  The start of \<open>phylo\<close>: \<open>opened\<close> are the results of the calls of \<open>call_sem_open\<close> for the three
  mutexes and the forks, \<open>ps\<close> those of the creations.
\<close>

fun add_all :: "int list \<Rightarrow> table \<Rightarrow> table option" where
  "add_all [] t = Some t"
| "add_all (p # ps) t = do { t \<leftarrow> add_philosopher p t; add_all ps (t\<lparr>phil_qty := phil_qty t + 1\<rparr>) }"

definition phylo_start :: "int \<Rightarrow> int \<Rightarrow> int \<Rightarrow> int list \<Rightarrow> int list \<Rightarrow> table \<Rightarrow> table option" where
  "phylo_start mu rw ar forks ps t =
     add_all (take START_PHILOSOPHERS ps)
       ((initialize t)\<lparr>mutex_id := mu, r_w_sem_index := rw, add_remove_mutex_index := ar,
          fork_sem_ids := take MAX_PHILOSOPHERS forks, fork_states := replicate MAX_PHILOSOPHERS THINKING\<rparr>)"

text \<open>The end of \<open>phylo\<close>, for the philosophers from \<open>i\<close> on.\<close>

fun kill_all :: "nat list \<Rightarrow> table \<Rightarrow> table option" where
  "kill_all [] t = Some t"
| "kill_all (i # is) t = do {
     p \<leftarrow> pid_at i t;
     q \<leftarrow> fork_sem i t;
     kill_all is (call (Sem_close q) (call (Force_kill p) (t\<lparr>phil_qty := phil_qty t - 1\<rparr>)))
   }"

definition phylo_end :: "table \<Rightarrow> table option" where
  "phylo_end t = do {
     t \<leftarrow> kill_all [0..<num_philosophers t] t;
     Some (call (Sem_close (add_remove_mutex_index t)) (call (Sem_close (r_w_sem_index t)) (call (Sem_close (mutex_id t)) t)))
   }"

text \<open>
  One turn of the loop of \<open>handle\<close> after the output: \<open>bp\<close> and \<open>char_at\<close> are the buffer position
  and the characters the system calls return, \<open>c\<close> and \<open>pos\<close> the local variables. The character of
  the last key is acted on again in every turn until another key comes.
\<close>

definition handle_turn ::
  "int \<Rightarrow> (int \<Rightarrow> int option) \<Rightarrow> int \<Rightarrow> int \<times> int \<times> table \<Rightarrow> (int \<times> int \<times> table) option" where
  "handle_turn bp char_at p = (\<lambda>(c, pos, t). do {
     (c, pos) \<leftarrow> (if pos \<le> bp then do { c \<leftarrow> char_at (pos - 1); Some (c, pos + 1) } else Some (c, pos));
     t \<leftarrow> (if c = 65 \<or> c = 0x1E then
             (if num_philosophers t < MAX_PHILOSOPHERS
              then do { t \<leftarrow> add_philosopher p t; Some (t\<lparr>phil_qty := phil_qty t + 1\<rparr>) } else Some t)
           else if c = 82 \<or> c = 0x13 then
             (if num_philosophers t > MIN_PHILOSOPHERS
              then do { t \<leftarrow> remove_philosopher t; Some (t\<lparr>phil_qty := phil_qty t - 1\<rparr>) } else Some t)
           else if c = 81 \<or> c = 0x10 then Some (t\<lparr>last := 1\<rparr>)
           else Some t);
     Some (c, pos, t)
   })"

text \<open>What the function \<open>print_state\<close> shows between its two lines; the function is \<open>show_state\<close>.\<close>

definition state_line :: "table \<Rightarrow> string" where
  "state_line t = concat (map (\<lambda>x. if x = EATING then ''E '' else ''. '') (take (num_philosophers t) (fork_states t)))"

definition show_state :: "table \<Rightarrow> table option" where
  "show_state t =
     (if num_philosophers t > length (fork_states t) then None
      else
        let t = call (Sem_wait (mutex_id t)) t;
            t = call (Print '' philosophers: '') (call (Print_int (num_philosophers t)) (call (Print ''State of the table with '') t));
            t = call (Print (state_line t)) t
        in Some (call (Sem_post (mutex_id t)) (call (Print [CHR 0x0A]) t)))"

text \<open>
  \<open>handle\<close>, one element of the list for each turn of its loop: what the system calls return in
  it. A list that ends before \<open>last\<close> is set is \<open>None\<close>: the handler still runs.
\<close>

fun handle_loop ::
  "(int \<times> (int \<Rightarrow> int option) \<times> int) list \<Rightarrow> nat \<Rightarrow> int \<times> int \<times> table \<Rightarrow> table option" where
  "handle_loop ins times_eaten (c, pos, t) =
     (if last t \<noteq> 0 then Some (call (Print (''Thank you for using the dining philosophers problem.'' @ [CHR 0x0A])) t)
      else case ins of
        [] \<Rightarrow> None
      | (bp, char_at, p) # ins \<Rightarrow> do {
          t \<leftarrow> (if times_eaten < eating t then show_state t else Some t);
          s \<leftarrow> handle_turn bp char_at p (c, pos, t);
          handle_loop ins (if times_eaten < eating t then eating t else times_eaten) s
        })"

definition handle :: "int \<Rightarrow> int \<Rightarrow> (int \<times> (int \<Rightarrow> int option) \<times> int) list \<Rightarrow> table \<Rightarrow> table option" where
  "handle bp c ins t = handle_loop ins 0 (c, bp, t)"

section \<open>Neighbours\<close>

definition table_ok :: "table \<Rightarrow> bool" where
  "table_ok t \<longleftrightarrow> length (fork_states t) = MAX_PHILOSOPHERS \<and> length (fork_sem_ids t) = MAX_PHILOSOPHERS \<and>
     length (philosopher_pids t) = MAX_PHILOSOPHERS \<and> num_philosophers t \<le> MAX_PHILOSOPHERS"

text \<open>No two neighbours eat.\<close>

definition apart :: "table \<Rightarrow> bool" where
  "apart t \<longleftrightarrow> (\<forall>i<num_philosophers t. \<forall>j<num_philosophers t. i \<noteq> j \<and> j = (i + 1) mod num_philosophers t \<longrightarrow>
     \<not> (fork_states t ! i = EATING \<and> fork_states t ! j = EATING))"

abbreviation fine :: "table \<Rightarrow> table \<Rightarrow> bool" where
  "fine t t' \<equiv> table_ok t' \<and> apart t' \<and> num_philosophers t' = num_philosophers t"

lemma left_of_right: "(j::nat) < n \<Longrightarrow> i < n \<Longrightarrow> i = (j + 1) mod n \<Longrightarrow> (i + n - 1) mod n = j"
proof -
  assume a: "j < n" "i < n" "i = (j + 1) mod n"
  show "(i + n - 1) mod n = j"
  proof (cases "j + 1 < n")
    case True
    then have "i + n - 1 = j + n" using a by simp
    then show ?thesis using a by simp
  next
    case False
    then have "j + 1 = n" using a by simp
    then have "i + n - 1 = j" using a by simp
    then show ?thesis using a by simp
  qed
qed

lemma call_simps [simp]:
  "table_ok (call c t) = table_ok t" "apart (call c t) = apart t" "num_philosophers (call c t) = num_philosophers t"
  "fork_states (call c t) = fork_states t" "mutex_id (call c t) = mutex_id t" "r_w_sem_index (call c t) = r_w_sem_index t"
  "state_at i (call c t) = state_at i t" "fork_sem i (call c t) = fork_sem i t" "left i (call c t) = left i t"
  "right i (call c t) = right i t" "length (philosopher_pids (call c t)) = length (philosopher_pids t)"
  by (simp_all add: call_def table_ok_def apart_def state_at_def fork_sem_def left_def right_def)

lemma fine_ranges:
  assumes "table_ok t" "i < num_philosophers t"
  obtains l r where "left i t = Some l" "right i t = Some r" "l = (i + num_philosophers t - 1) mod num_philosophers t"
    "r = (i + 1) mod num_philosophers t" "l < num_philosophers t" "r < num_philosophers t"
    "\<forall>j<num_philosophers t. j < length (fork_states t) \<and> j < length (fork_sem_ids t)"
  by (rule that [OF _ _ refl refl]) (use assms in \<open>auto simp: left_def right_def table_ok_def\<close>)

lemma set_state_fine:
  assumes "table_ok t" "apart t" "i < MAX_PHILOSOPHERS" "x \<noteq> EATING"
  shows "\<exists>t'. set_state i x t = Some t' \<and> fine t t' \<and> fork_states t' ! i = x"
  using assms by (auto simp: set_state_def table_ok_def apart_def nth_list_update)

lemma test_fine:
  assumes ok: "table_ok t" "apart t" and i: "i < num_philosophers t"
  shows "\<exists>t'. test i t = Some t' \<and> fine t t'"
proof -
  let ?n = "num_philosophers t"
  obtain l r where lr: "left i t = Some l" "right i t = Some r" "l = (i + ?n - 1) mod ?n" "r = (i + 1) mod ?n"
    "l < ?n" "r < ?n" and len: "\<forall>j<?n. j < length (fork_states t) \<and> j < length (fork_sem_ids t)"
    by (rule fine_ranges [OF ok(1) i])
  show ?thesis
  proof (cases "fork_states t ! i = HUNGRY \<and> fork_states t ! l \<noteq> EATING \<and> fork_states t ! r \<noteq> EATING")
    case False
    then have "test i t = Some t" using len i lr by (auto simp: test_def state_at_def)
    then show ?thesis using ok by simp
  next
    case True
    let ?t = "t\<lparr>fork_states := (fork_states t)[i := EATING]\<rparr>"
    have "test i t = Some (call (Sem_post (fork_sem_ids t ! i)) ?t)"
      using True len i lr by (simp add: test_def state_at_def set_state_def fork_sem_def)
    moreover have "table_ok ?t" using ok(1) by (simp add: table_ok_def)
    moreover have "apart ?t"
      unfolding apart_def
    proof (intro allI impI)
      fix a b
      assume a: "a < num_philosophers ?t" "b < num_philosophers ?t" "a \<noteq> b \<and> b = (a + 1) mod num_philosophers ?t"
      then have a': "a < ?n" "a \<noteq> b" "b = (a + 1) mod ?n" by simp_all
      have "b = i \<Longrightarrow> a = l" using left_of_right [OF a'(1) i] a'(3) unfolding lr(3) by metis
      moreover have "a = i \<Longrightarrow> b = r" using a'(3) lr(4) by blast
      moreover have "\<not> (fork_states t ! a = EATING \<and> fork_states t ! b = EATING)"
        using a ok(2) unfolding apart_def by simp
      moreover have "fork_states ?t ! c = (if c = i then EATING else fork_states t ! c)" for c
        using len i by (simp add: nth_list_update)
      ultimately show "\<not> (fork_states ?t ! a = EATING \<and> fork_states ?t ! b = EATING)"
        using a'(2) True by metis
    qed
    ultimately show ?thesis by simp
  qed
qed

lemma take_forks_fine:
  assumes "table_ok t" "apart t" "i < num_philosophers t"
  shows "\<exists>t'. take_forks i t = Some t' \<and> fine t t'"
proof -
  have m: "i < MAX_PHILOSOPHERS" using assms by (simp add: table_ok_def)
  obtain t1 where t1: "set_state i HUNGRY (call (Sem_wait (mutex_id t)) t) = Some t1" "fine t t1"
    using set_state_fine [of "call (Sem_wait (mutex_id t)) t" i HUNGRY] assms m by auto
  obtain t2 where t2: "test i (call (Sem_post (r_w_sem_index t1)) t1) = Some t2" "fine t t2"
    using test_fine [of "call (Sem_post (r_w_sem_index t1)) t1" i] t1(2) assms(3) by auto
  have "i < length (fork_states t2)" "i < length (fork_sem_ids t2)" using t2(2) m by (simp_all add: table_ok_def)
  then have "state_at i t2 = Some (fork_states t2 ! i)" "fork_sem i t2 = Some (fork_sem_ids t2 ! i)"
    by (simp_all add: state_at_def fork_sem_def)
  then show ?thesis using t1 t2 by (simp add: take_forks_def Let_def)
qed

lemma put_forks_fine:
  assumes "table_ok t" "apart t" "i < num_philosophers t"
  shows "\<exists>t'. put_forks i t = Some t' \<and> fine t t'"
proof -
  have m: "i < MAX_PHILOSOPHERS" using assms by (simp add: table_ok_def)
  obtain t1 where t1: "set_state i THINKING (call (Sem_wait (mutex_id t)) t) = Some t1" "fine t t1"
    using set_state_fine [of "call (Sem_wait (mutex_id t)) t" i THINKING] assms m by auto
  let ?t1 = "call (Sem_post (r_w_sem_index t1)) t1"
  have f1: "table_ok ?t1" "apart ?t1" "i < num_philosophers ?t1" using t1(2) assms(3) by simp_all
  obtain l r where l: "left i ?t1 = Some l" "l < num_philosophers ?t1"
    using fine_ranges [OF f1(1,3)] by metis
  obtain t2 where t2: "test l ?t1 = Some t2" "fine t t2"
    using test_fine [OF f1(1,2) l(2)] t1(2) by auto
  have f2: "table_ok t2" "apart t2" "i < num_philosophers t2" using t2(2) assms(3) by simp_all
  obtain r where r: "right i t2 = Some r" "r < num_philosophers t2" using fine_ranges [OF f2(1,3)] by metis
  obtain t3 where "test r t2 = Some t3" "fine t t3" using test_fine [OF f2(1,2) r(2)] t2(2) by auto
  then show ?thesis using t1(1) t2(1) l(1) r(1) by (simp add: put_forks_def Let_def)
qed

lemma eat_fine: "table_ok t \<Longrightarrow> apart t \<Longrightarrow> i < num_philosophers t \<Longrightarrow> \<exists>t'. eat i t = Some t' \<and> fine t t'"
  by (auto simp: eat_def state_at_def table_ok_def apart_def call_def)

lemma add_philosopher_fine:
  assumes "table_ok t" "apart t" "num_philosophers t < MAX_PHILOSOPHERS"
  shows "\<exists>t'. add_philosopher p t = Some t' \<and> table_ok t' \<and> apart t' \<and>
    num_philosophers t' = (if p = - 1 then num_philosophers t else num_philosophers t + 1)"
proof -
  let ?k = "num_philosophers t"
  obtain t1 where t1: "set_state ?k THINKING (call (Sem_wait (mutex_id t)) t) = Some t1" "fine t t1"
    "fork_states t1 ! ?k = THINKING"
    using set_state_fine [of "call (Sem_wait (mutex_id t)) t" ?k THINKING] assms by auto
  let ?t2 = "t1\<lparr>philosopher_pids := (philosopher_pids t1)[?k := p]\<rparr>"
  have p: "?k < length (philosopher_pids t1)" using t1(2) assms(3) by (simp add: table_ok_def)
  have f2: "table_ok ?t2" "apart ?t2" "num_philosophers ?t2 = ?k" using t1(2) by (auto simp: table_ok_def apart_def)
  show ?thesis
  proof (cases "p = - 1")
    case True
    then show ?thesis using t1(1) p f2 by (simp add: add_philosopher_def Let_def)
  next
    case False
    let ?t3 = "?t2\<lparr>num_philosophers := ?k + 1\<rparr>"
    have "table_ok ?t3" using f2(1) assms(3) by (simp add: table_ok_def)
    moreover have "apart ?t3" unfolding apart_def
    proof (intro allI impI)
      fix a b
      assume a: "a < num_philosophers ?t3" "b < num_philosophers ?t3" "a \<noteq> b \<and> b = (a + 1) mod num_philosophers ?t3"
      show "\<not> (fork_states ?t3 ! a = EATING \<and> fork_states ?t3 ! b = EATING)"
      proof (cases "a = ?k \<or> b = ?k")
        case True
        then show ?thesis using t1(3) by auto
      next
        case False
        then have b: "a < ?k" "b < ?k" "b = a + 1" using a by auto
        then have "b = (a + 1) mod ?k" by simp
        then have "\<not> (fork_states t1 ! a = EATING \<and> fork_states t1 ! b = EATING)"
          using b(1,2) a t1(2) unfolding apart_def by metis
        then show ?thesis by simp
      qed
    qed
    ultimately obtain t4 where "test ?k ?t3 = Some t4" "table_ok t4" "apart t4" "num_philosophers t4 = ?k + 1"
      using test_fine [of ?t3 ?k] by auto
    then show ?thesis using t1(1) p False by (simp add: add_philosopher_def Let_def)
  qed
qed

section \<open>Reachable tables\<close>

text \<open>What the philosophers and \<open>add_philosopher\<close> can do, one atomic operation after the other.\<close>

inductive dining :: "table \<Rightarrow> bool" where
  start: "table_ok t \<Longrightarrow> num_philosophers t = 0 \<Longrightarrow> dining t"
| adds: "dining t \<Longrightarrow> num_philosophers t < MAX_PHILOSOPHERS \<Longrightarrow> add_philosopher p t = Some t' \<Longrightarrow> dining t'"
| takes: "dining t \<Longrightarrow> i < num_philosophers t \<Longrightarrow> take_forks i t = Some t' \<Longrightarrow> dining t'"
| eats: "dining t \<Longrightarrow> i < num_philosophers t \<Longrightarrow> eat i t = Some t' \<Longrightarrow> dining t'"
| puts: "dining t \<Longrightarrow> i < num_philosophers t \<Longrightarrow> put_forks i t = Some t' \<Longrightarrow> dining t'"

inductive_cases dining_empty: "dining t"

lemma dining_apart: "dining t \<Longrightarrow> table_ok t \<and> apart t"
proof (induction rule: dining.induct)
  case (start t)
  then show ?case by (simp add: apart_def)
next
  case (adds t p t')
  then show ?case using add_philosopher_fine [of t p] by auto
next
  case (takes t i t')
  then show ?case using take_forks_fine [of t i] by auto
next
  case (eats t i t')
  then show ?case using eat_fine [of t i] by auto
next
  case (puts t i t')
  then show ?case using put_forks_fine [of t i] by auto
qed

text \<open>Four philosophers of whom the first and the third eat.\<close>

definition demo_table :: table where
  "demo_table = \<lparr>num_philosophers = 0, last = 0, mutex_id = 1, r_w_sem_index = 2, add_remove_mutex_index = 3,
     fork_states = replicate MAX_PHILOSOPHERS THINKING, fork_sem_ids = map int [4..<24],
     philosopher_pids = replicate MAX_PHILOSOPHERS 0, eating = 0, phil_qty = 0, calls = []\<rparr>"

lemma demo_dining: "dining demo_table"
  by (rule dining.start) (simp_all add: table_ok_def demo_table_def MAX_PHILOSOPHERS_def)

definition demo_dinner :: "(table \<times> table) option" where
  "demo_dinner = do {
     t1 \<leftarrow> add_philosopher 5 demo_table;
     t2 \<leftarrow> add_philosopher 6 t1;
     t3 \<leftarrow> add_philosopher 7 t2;
     t4 \<leftarrow> add_philosopher 8 t3;
     t5 \<leftarrow> take_forks 0 t4;
     t6 \<leftarrow> take_forks 2 t5;
     t7 \<leftarrow> remove_philosopher t6;
     if num_philosophers t1 = 1 \<and> num_philosophers t2 = 2 \<and> num_philosophers t3 = 3 \<and> num_philosophers t4 = 4 \<and>
       num_philosophers t5 = 4 then Some (t6, t7) else None
   }"

lemma demo_dinner: "map_option (\<lambda>(t, t'). (num_philosophers t', fork_states t' ! 2, fork_states t' ! 0)) demo_dinner =
    Some (3, EATING, EATING)"
  by code_simp

lemma removal_breaks:
  "\<exists>t t'. dining t \<and> remove_philosopher t = Some t' \<and> num_philosophers t' = 3 \<and>
     fork_states t' ! 2 = EATING \<and> fork_states t' ! 0 = EATING"
proof -
  obtain t t' where r: "demo_dinner = Some (t, t')" "num_philosophers t' = 3" "fork_states t' ! 2 = EATING" "fork_states t' ! 0 = EATING"
    using demo_dinner by auto
  then obtain t1 t2 t3 t4 t5 where s: "add_philosopher 5 demo_table = Some t1" "add_philosopher 6 t1 = Some t2"
    "add_philosopher 7 t2 = Some t3" "add_philosopher 8 t3 = Some t4" "take_forks 0 t4 = Some t5" "take_forks 2 t5 = Some t"
    "remove_philosopher t = Some t'" "num_philosophers t1 = 1" "num_philosophers t2 = 2" "num_philosophers t3 = 3"
    "num_philosophers t4 = 4" "num_philosophers t5 = 4"
    unfolding demo_dinner_def by (auto simp: bind_eq_Some_conv split: if_splits)
  have "dining t1" using dining.adds [OF demo_dining _ s(1)] by (simp add: demo_table_def MAX_PHILOSOPHERS_def)
  then have "dining t2" using s(2,8) by (auto intro: dining.adds simp: MAX_PHILOSOPHERS_def)
  then have "dining t3" using s(3,9) by (auto intro: dining.adds simp: MAX_PHILOSOPHERS_def)
  then have "dining t4" using s(4,10) by (auto intro: dining.adds simp: MAX_PHILOSOPHERS_def)
  then have "dining t5" using dining.takes [of t4 0 t5] s(5,11) by simp
  then have "dining t" using dining.takes [of t5 2 t] s(6,12) by simp
  then show ?thesis using s(7) r by blast
qed



end
