(* ===== verification/Shell.thy ===== *)
theory Shell
  imports User_Numbers
begin

text \<open>
  Userland/SampleCodeModule/shell.c and commands.c: the line editor, the splitting of a line into
  words, the choice of the command, and the commands that are filters. What a command asks of
  the kernel is appended to \<open>actions\<close>. The addresses that \<open>user_malloc\<close> returns, the place of the
  static tables and the id of the new pipe are arguments; the tables stand in \<open>ram\<close>.
\<close>

section \<open>Constants and state\<close>

definition COMMAND_LEN :: nat where "COMMAND_LEN = 20"
definition COLOR_LEN :: nat where "COLOR_LEN = 5"
definition START_SIZE :: nat where "START_SIZE = 80"
definition COMMAND_SIZE :: nat where "COMMAND_SIZE = 10"
definition MAX_COMMAND_LENGTH :: nat where "MAX_COMMAND_LENGTH = 256"

definition command_list :: "string list" where
  "command_list = [''HELP'', ''TIME'', ''REGSTATE'', ''PONG'', ''SETCOLOR'', ''DIV0'', ''INVALOP'', ''BOKE'', ''PS'', ''MEM'',
     ''KILL'', ''NICE'', ''BLOCK'', ''CAT'', ''WC'', ''PHYLO'', ''FILTER'', ''LOOP'', ''TESTS'', ''CLEAR'']"

definition command_args :: "nat list" where
  "command_args = [0, 0, 0, 0, 1, 0, 0, 0, 0, 0, 1, 2, 1, 0, 0, 0, 0, 0, 0, 0]"

definition hex_arr :: "string list" where
  "hex_arr = [''GREEN'', ''BLUE'', ''BLACK'', ''YELLOW'', ''ORANGE'']"

definition color_values :: "nat list" where
  "color_values = [0x00FF00, 0x0000FF, 0x000000, 0xFFFF00, 0xFFA500]"

text \<open>\<open>Create_process\<close> has the command, the foreground flag, the argument pointers and both ends.\<close>

datatype action = Create_process nat nat "nat list" int int | Reg_state | Boke | Ps | Mem | Kill int | Block int
  | Paint_screen nat | Clear_color nat | Divide_by_zero | Invalid_opcode | User_malloc nat | User_free nat
  | Pipe_create_anonymous | Print_word_color nat string

record shell =
  usr :: user
  actions :: "action list"
  color :: nat

definition act :: "action \<Rightarrow> shell \<Rightarrow> shell" where
  "act a s = s\<lparr>actions := actions s @ [a]\<rparr>"

definition shell_put :: "byte list \<Rightarrow> shell \<Rightarrow> shell" where
  "shell_put bs s = s\<lparr>usr := (usr s)\<lparr>stdout := stdout (usr s) @ bs\<rparr>\<rparr>"

definition shell_ram :: "memory \<Rightarrow> shell \<Rightarrow> shell" where
  "shell_ram m s = s\<lparr>usr := (usr s)\<lparr>ram := m\<rparr>\<rparr>"

section \<open>Splitting a line\<close>

text \<open>
  The loop of \<open>__seek_command__\<close> over the characters of \<open>command\<close>: \<open>w\<close> and \<open>j\<close> are the word and the
  place in it, \<open>e\<close> is \<open>end_first_com\<close>. It stops after 20 characters; there are ten words.
\<close>

function parse_loop ::
  "(nat \<Rightarrow> nat) \<Rightarrow> nat \<Rightarrow> nat \<Rightarrow> nat \<Rightarrow> nat \<Rightarrow> nat \<Rightarrow> nat \<Rightarrow> memory \<Rightarrow> (nat \<times> nat \<times> memory) option" where
  "parse_loop args command i w j e is_fg1 m =
     (if i \<ge> COMMAND_LEN then Some (e, is_fg1, m)
      else if w \<ge> START_SIZE div 8 then None
      else
        let m = m(args w + j := m (command + i)); j = j + 1;
            (m, w, j) = (if m (command + i) = ch CHR '' '' then (m(args w + (j - 1) := 0), w + 1, 0) else (m, w, j))
        in if m (command + i) = 0 then Some (e, is_fg1, m)
           else
             let (e, i', j, is_fg1) = (if m (command + i) = ch CHR ''|'' then (w, i + 1, 0, 0) else (e, i, j, is_fg1))
             in if m (command + i') = ch CHR ''&'' then Some (e, 0, m)
                else parse_loop args command (i' + 1) w j e is_fg1 m)"
  by pat_completeness auto
termination
  by (relation "measure (\<lambda>(args, command, i, w, j, e, is_fg1, m). COMMAND_LEN - i)") (auto split: if_splits)

declare parse_loop.simps [simp del]

text \<open>The first command whose name is the string at \<open>p\<close>; \<open>command_at\<close> is the address of the table.\<close>

fun find_command :: "memory \<Rightarrow> nat \<Rightarrow> nat \<Rightarrow> nat list \<Rightarrow> nat option option" where
  "find_command m command_at p [] = Some None"
| "find_command m command_at p (i # is) = do {
     r \<leftarrow> strcmp m (command_at + 10 * i) p;
     if r = 0 then Some (Some i) else find_command m command_at p is
   }"

section \<open>Commands\<close>

definition tests_menu :: string where
  "tests_menu = concat (map (\<lambda>x. CHR 0x0A # CHR 0x09 # CHR 0x09 # ''- '' @ x)
     [''Test memory manager'', ''Test priority'', ''Test processes'', ''Test synchronization'',
      ''Test without synchronization'']) @ [CHR 0x0A]"

definition command_descriptions :: "string list" where
  "command_descriptions =
    [''Display the list of available commands'',
     ''Display the current system time'',
     ''Display the register state'',
     ''Play the pong game'',
     ''Set the background color (usage: SETCOLOR <color>, available colors: GREEN, BLUE, BLACK, YELLOW, ORANGE)'',
     ''Trigger a division by zero exception'',
     ''Trigger an invalid operation exception'',
     ''Draw the Club Atletico Boca Juniors flag'',
     ''Display information about running processes'',
     ''Display memory information'',
     ''Terminate a process by PID (usage: KILL <pid>)'',
     ''Change the priority of a process (usage: NICE <pid> <priority>)'',
     ''Block a process by PID (usage: BLOCK <pid>)'',
     ''Display the contents of Stdin'',
     ''Count the number of lines in the input'',
     ''Run the dining philosophers solution'',
     ''Filter out vowels from the input'',
     ''Run an infinite loop process'',
     ''Run system tests (opens a menu with the following options:'' @ tests_menu,
     ''Clears the screen'']"

definition CYAN :: nat where "CYAN = 0x00FFFF"

text \<open>The 29 bytes of the heading end with the NUL of the literal.\<close>

definition help_text :: "shell \<Rightarrow> shell" where
  "help_text s = fold (\<lambda>i s. shell_put (bytes (CHR '':'' # CHR 0x09 # command_descriptions ! i) @ [10, 10])
                         (act (Print_word_color CYAN (command_list ! i)) s))
     [0..<COMMAND_LEN] (shell_put (bytes ''List of available commands:'' @ [10, 0]) s)"

text \<open>\<open>time\<close> with the text that \<open>call_time_clock\<close> writes, up to its NUL.\<close>

definition time_text :: "byte list \<Rightarrow> shell \<Rightarrow> shell" where
  "time_text clock s = shell_put (clock @ [10]) s"

text \<open>One turn of \<open>loop\<close>: \<open>ticks\<close> is what \<open>call_ticks_elapsed\<close> returns, and a flag the local \<open>flag\<close>.\<close>

definition loop_turn :: "int \<Rightarrow> int \<Rightarrow> bool \<Rightarrow> user \<Rightarrow> (bool \<times> user) option" where
  "loop_turn loop_pid ticks flag s = do {
     (flag, s) \<leftarrow> (if c_rem ticks 18 = 0 \<and> flag then do {
        s \<leftarrow> put_int loop_pid (s\<lparr>stdout := stdout s @ bytes ''Loop PID = ''\<rparr>);
        Some (False, put_c (ch CHR '' '') s)
      } else Some (flag, s));
     Some (if c_rem ticks 18 = 1 \<and> \<not> flag then True else flag, s)
   }"

definition setbg_enum :: "nat \<Rightarrow> shell \<Rightarrow> shell" where
  "setbg_enum i s = (if i < COLOR_LEN then act (Paint_screen (color_values ! i)) s else s)"

text \<open>\<open>find_color\<close> runs to \<open>COMMAND_LEN\<close>: a name that is no color makes it read behind \<open>hex_arr\<close>.\<close>

fun find_color_loop :: "byte list \<Rightarrow> nat list \<Rightarrow> shell \<Rightarrow> shell option" where
  "find_color_loop name [] s = Some s"
| "find_color_loop name (i # is) s =
     (if i \<ge> COLOR_LEN then None
      else if bytes (hex_arr ! i) = name then Some (setbg_enum i s) else find_color_loop name is s)"

definition find_color :: "byte list \<Rightarrow> shell \<Rightarrow> shell option" where
  "find_color name s = find_color_loop name [0..<COMMAND_LEN] s"

partial_function (option) word_end :: "memory \<Rightarrow> nat \<Rightarrow> nat option" where
  "word_end m p = (if null_or_space (m p) then Some p else word_end m (p + 1))"

text \<open>The copy to \<open>partition\<close>, an array of 20 bytes.\<close>

partial_function (option) copy_color :: "memory \<Rightarrow> nat \<Rightarrow> byte list \<Rightarrow> byte list option" where
  "copy_color m p acc =
     (if length acc \<ge> 20 then None else if m p = 0 then Some acc else copy_color m (p + 1) (acc @ [m p]))"

definition setbg :: "nat \<Rightarrow> shell \<Rightarrow> shell option" where
  "setbg command s = do {
     p \<leftarrow> word_end (ram (usr s)) command;
     name \<leftarrow> copy_color (ram (usr s)) (p + 1) [];
     find_color name s
   }"

definition invalid_pid :: "shell \<Rightarrow> shell" where
  "invalid_pid s = shell_put (bytes ''ERROR - PID invalido'' @ [10]) s"

text \<open>\<open>satoi\<close> of an argument as an \<open>int\<close>.\<close>

definition int_arg :: "nat \<Rightarrow> shell \<Rightarrow> int option" where
  "int_arg p s = map_option to_int32 (satoi (ram (usr s)) p)"

text \<open>
  \<open>__call_command__\<close>. KILL and BLOCK read \<open>argv[0]\<close>, NICE both and then does nothing with them;
  SETCOLOR gets the word of the command itself.
\<close>

definition call_command :: "nat \<Rightarrow> nat \<Rightarrow> nat \<Rightarrow> nat list \<Rightarrow> int \<Rightarrow> int \<Rightarrow> shell \<Rightarrow> shell option" where
  "call_command i command is_fg argv fd0 fd1 s =
     (if i = 2 then Some (act Reg_state s)
      else if i = 4 then setbg command s
      else if i = 5 then Some (act Divide_by_zero s)
      else if i = 6 then Some (act Invalid_opcode s)
      else if i = 7 then Some (act Boke s)
      else if i = 8 then Some (act Ps s)
      else if i = 9 then Some (act Mem s)
      else if i = 10 then do { p \<leftarrow> int_arg (argv ! 0) s; Some (if p = - 1 then invalid_pid s else act (Kill p) s) }
      else if i = 11 then do {
        p \<leftarrow> int_arg (argv ! 0) s;
        q \<leftarrow> int_arg (argv ! 1) s;
        Some (if p = - 1 \<or> q = - 1 then invalid_pid s else s)
      }
      else if i = 12 then do { p \<leftarrow> int_arg (argv ! 0) s; Some (if p = - 1 then invalid_pid s else act (Block p) s) }
      else if i = 19 then Some (act (Clear_color (color s)) s)
      else if i < COMMAND_LEN then Some (act (Create_process i is_fg argv fd0 fd1) s)
      else Some (shell_put (bytes ''ERROR - Comando no reconocido'' @ [0, 10]) s))"

definition arguments_of :: "(nat \<Rightarrow> nat) \<Rightarrow> nat \<Rightarrow> nat \<Rightarrow> nat list" where
  "arguments_of args first n = map (\<lambda>k. args (first + k)) [1..<n + 1]"

text \<open>
  \<open>__seek_command__\<close>. Only a first command without a pipe ends it; otherwise, also when the first
  word is no command, the word at \<open>index_second_command\<close> is tried, with the pipe as its input.
\<close>

definition seek_command :: "(nat \<Rightarrow> nat) \<Rightarrow> nat \<Rightarrow> nat \<Rightarrow> int \<Rightarrow> nat \<Rightarrow> shell \<Rightarrow> shell option" where
  "seek_command args args_at command_at pipe_id command s = do {
     let s = fold (\<lambda>k. act (User_malloc COMMAND_SIZE)) [0..<START_SIZE div 8] (act (User_malloc START_SIZE) s);
     let s = act Pipe_create_anonymous s;
     (e, is_fg1, m) \<leftarrow> parse_loop args command 0 0 0 0 1 (ram (usr s));
     let s = shell_ram m s;
     first \<leftarrow> find_command m command_at (args 0) [0..<COMMAND_LEN];
     (stop, second, s) \<leftarrow> (case first of
        None \<Rightarrow> Some (False, 1, s)
      | Some i \<Rightarrow>
          let n = command_args ! i; argv1 = arguments_of args 0 n
          in if e \<noteq> 0 then do { s \<leftarrow> call_command i (args 0) is_fg1 argv1 0 pipe_id s; Some (False, 1 + n, s) }
             else do {
               s \<leftarrow> call_command i (args 0) is_fg1 argv1 0 0 s;
               Some (True, 1 + n, act (User_free args_at) (fold (\<lambda>k. act (User_free (args k))) [0..<START_SIZE div 8] s))
             });
     if stop then Some s
     else if second \<ge> START_SIZE div 8 then None
     else do {
       r \<leftarrow> find_command (ram (usr s)) command_at (args second) [0..<COMMAND_LEN];
       case r of
         None \<Rightarrow> Some s
       | Some i \<Rightarrow> call_command i (args second) 1 (arguments_of args second (command_args ! i)) pipe_id 0 s
     }
   }"

section \<open>The line editor\<close>

definition shell_get :: "shell \<Rightarrow> (byte \<times> shell) option" where
  "shell_get s = do { (c, u) \<leftarrow> get_c (usr s); Some (c, s\<lparr>usr := u\<rparr>) }"

definition clear_line :: "nat \<Rightarrow> shell \<Rightarrow> shell" where
  "clear_line buf s = shell_ram (write_bytes buf (replicate BUFFER_SIZE 0) (ram (usr s))) s"

text \<open>
  The loop of \<open>bufferize\<close> with \<open>i\<close> characters in the line; the result tells whether a line is to
  be executed.
\<close>

partial_function (option) bufferize_loop :: "nat \<Rightarrow> nat \<Rightarrow> shell \<Rightarrow> (bool \<times> shell) option" where
  "bufferize_loop buf i s =
     (if i < BUFFER_SIZE then do {
        (c, s) \<leftarrow> shell_get s;
        if c = 8 then
          (if i > 0 then bufferize_loop buf (i - 1) (shell_put [c] s) else bufferize_loop buf i s)
        else if c = 10 then
          (let s = shell_put [c] s
           in if i = 0 then Some (False, clear_line buf s)
              else Some (True, shell_ram ((ram (usr s))(buf + i := 0)) s))
        else if i \<noteq> BUFFER_SIZE - 1 then
          bufferize_loop buf (i + 1) (shell_put [c] (shell_ram ((ram (usr s))(buf + i := c)) s))
        else bufferize_loop buf i s
      } else Some (False, s))"

definition line_read :: "(nat \<Rightarrow> nat) \<Rightarrow> nat \<Rightarrow> nat \<Rightarrow> int \<Rightarrow> nat \<Rightarrow> shell \<Rightarrow> shell option" where
  "line_read args args_at command_at pipe_id buf s = do {
     s \<leftarrow> seek_command args args_at command_at pipe_id buf s;
     Some (clear_line buf s)
   }"

definition bufferize :: "(nat \<Rightarrow> nat) \<Rightarrow> nat \<Rightarrow> nat \<Rightarrow> int \<Rightarrow> nat \<Rightarrow> shell \<Rightarrow> shell option" where
  "bufferize args args_at command_at pipe_id buf s = do {
     (run, s) \<leftarrow> bufferize_loop buf 0 s;
     if run then line_read args args_at command_at pipe_id buf s else Some s
   }"

definition put_line_start :: "nat \<Rightarrow> shell \<Rightarrow> shell" where
  "put_line_start buf s = clear_line buf (shell_put (bytes ''O] '') s)"

definition shell_welcome :: "shell \<Rightarrow> shell" where
  "shell_welcome s = shell_put (bytes ''Welcome to BOKE OS'' @ [10] @ bytes ''Enter a command to proceed:'' @ [10] @
     bytes ''(Enter HELP to view all commands)'' @ [10]) (act (Paint_screen 0) s)"

section \<open>Filters\<close>

text \<open>\<open>cat\<close> repeats each line; \<open>comm\<close> is a local array of 256 bytes.\<close>

partial_function (option) cat_loop :: "byte list \<Rightarrow> user \<Rightarrow> user option" where
  "cat_loop comm s = do {
     (c, s) \<leftarrow> get_c s;
     if c = EOF_CHAR then Some (put_c c s)
     else if length comm \<ge> MAX_COMMAND_LENGTH then None
     else
       let s = put_c c s; comm = comm @ [c]
       in if c = 10 then
            (if length comm \<ge> MAX_COMMAND_LENGTH then None
             else cat_loop [] (s\<lparr>stdout := stdout s @ takeWhile (\<lambda>c. c \<noteq> 0) comm @ [10]\<rparr>))
          else cat_loop comm s
   }"

definition cat :: "user \<Rightarrow> user option" where
  "cat s = cat_loop [] s"

partial_function (option) wc_loop :: "int \<Rightarrow> user \<Rightarrow> (int \<times> user) option" where
  "wc_loop lines s = do {
     (c, s) \<leftarrow> get_c s;
     if c = EOF_CHAR then Some (lines, s)
     else do {
       lines \<leftarrow> (if c = 10 then int32 (lines + 1) else Some lines);
       wc_loop lines (put_c c s)
     }
   }"

definition wc :: "user \<Rightarrow> user option" where
  "wc s = do {
     (lines, s) \<leftarrow> wc_loop 1 s;
     let s = put_c 10 s;
     s \<leftarrow> put_int lines (s\<lparr>stdout := stdout s @ bytes ''Line count: ''\<rparr>);
     Some (put_c 10 (put_c 10 s))
   }"

definition is_vowel :: "byte \<Rightarrow> bool" where
  "is_vowel c \<longleftrightarrow> c \<in> {ch CHR ''a'', ch CHR ''e'', ch CHR ''i'', ch CHR ''o'', ch CHR ''u'',
     ch CHR ''A'', ch CHR ''E'', ch CHR ''I'', ch CHR ''O'', ch CHR ''U''}"

partial_function (option) filter_loop :: "user \<Rightarrow> user option" where
  "filter_loop s = do {
     (c, s) \<leftarrow> get_c s;
     if c = EOF_CHAR then Some (put_c 10 s)
     else filter_loop (if is_vowel c then s else put_c c s)
   }"

definition filter_vowels :: "user \<Rightarrow> user option" where
  "filter_vowels s = filter_loop s"

section \<open>The line on the screen and the line in the buffer\<close>

text \<open>The line after a key, and what the key shows.\<close>

definition edit :: "byte list \<Rightarrow> byte \<Rightarrow> byte list" where
  "edit line c = (if c = 8 then butlast line else if length line < 127 then line @ [c] else line)"

definition echo :: "byte list \<Rightarrow> byte \<Rightarrow> byte list" where
  "echo line c = (if c = 8 then (if line = [] then [] else [c]) else if length line < 127 then [c] else [])"

fun shown :: "byte list \<Rightarrow> byte list \<Rightarrow> byte list" where
  "shown line [] = []"
| "shown line (c # cs) = echo line c @ shown (edit line c) cs"

lemma edit_length: "length line \<le> 127 \<Longrightarrow> length (edit line c) \<le> 127"
  by (auto simp: edit_def)

lemma foldl_edit_length: "length line \<le> 127 \<Longrightarrow> length (foldl edit line cs) \<le> 127"
  by (induction cs arbitrary: line) (simp_all add: edit_length)

lemma foldl_edit_echo: "length line \<le> 127 \<Longrightarrow> foldl edit line (echo line c) = edit line c"
  by (auto simp: edit_def echo_def)

lemma foldl_edit_shown: "length line \<le> 127 \<Longrightarrow> foldl edit line (shown line cs) = foldl edit line cs"
  by (induction cs arbitrary: line) (simp_all add: foldl_edit_echo edit_length)

lemma edit_no_newline: "10 \<notin> set line \<Longrightarrow> c \<noteq> 10 \<Longrightarrow> 10 \<notin> set (edit line c)"
  by (auto simp: edit_def dest: in_set_butlastD)

text \<open>One key that is not a newline, as \<open>bufferize_loop\<close> handles it.\<close>

definition key_step :: "nat \<Rightarrow> byte list \<Rightarrow> byte \<Rightarrow> shell \<Rightarrow> shell" where
  "key_step buf line c s = shell_put (echo line c)
     (if c \<noteq> 8 \<and> length line < 127 then shell_ram ((ram (usr s))(buf + length line := c)) s else s)"

lemma key_step_ram: "bytes_at (ram (usr s)) buf (length line) = line \<Longrightarrow>
    bytes_at (ram (usr (key_step buf line c s))) buf (length (edit line c)) = edit line c"
  by (auto simp: bytes_at_eq key_step_def shell_put_def shell_ram_def edit_def nth_append nth_butlast less_Suc_eq)

lemma key_step_outside: "length line \<le> 127 \<Longrightarrow> a < buf \<or> buf + BUFFER_SIZE \<le> a \<Longrightarrow>
    ram (usr (key_step buf line c s)) a = ram (usr s) a"
  by (auto simp: key_step_def shell_put_def shell_ram_def BUFFER_SIZE_def)

lemma key_step_simps [simp]:
  "stdin (usr (key_step buf line c s)) = stdin (usr s)"
  "stdout (usr (key_step buf line c s)) = stdout (usr s) @ echo line c"
  "actions (key_step buf line c s) = actions s" "color (key_step buf line c s) = color s"
  by (auto simp: key_step_def shell_put_def shell_ram_def)

lemma shell_get_Cons: "stdin (usr s) = c # cs \<Longrightarrow> shell_get s = Some (c, s\<lparr>usr := (usr s)\<lparr>stdin := cs\<rparr>\<rparr>)"
  by (simp add: shell_get_def get_c_def)

lemma bufferize_key:
  assumes "stdin (usr s) = c # cs" "c \<noteq> 10" "length line \<le> 127"
  shows "bufferize_loop buf (length line) s =
     bufferize_loop buf (length (edit line c)) (key_step buf line c (s\<lparr>usr := (usr s)\<lparr>stdin := cs\<rparr>\<rparr>))"
  using assms
  by (subst bufferize_loop.simps)
    (auto simp: shell_get_Cons BUFFER_SIZE_def edit_def echo_def key_step_def shell_put_def shell_ram_def)

lemma bufferize_newline:
  assumes "stdin (usr s) = 10 # cs" "length line \<le> 127"
  shows "bufferize_loop buf (length line) s =
     (let s' = shell_put [10] (s\<lparr>usr := (usr s)\<lparr>stdin := cs\<rparr>\<rparr>)
      in Some (line \<noteq> [], if line = [] then clear_line buf s'
                          else shell_ram ((ram (usr s'))(buf + length line := 0)) s'))"
  using assms by (subst bufferize_loop.simps) (auto simp: shell_get_Cons BUFFER_SIZE_def Let_def)

lemma bufferize_loop_eq:
  assumes "10 \<notin> set keys" "stdin (usr s) = keys @ 10 # rest" "length line \<le> 127"
    "bytes_at (ram (usr s)) buf (length line) = line"
  shows "\<exists>s'. bufferize_loop buf (length line) s = Some (foldl edit line keys \<noteq> [], s') \<and>
    stdin (usr s') = rest \<and> stdout (usr s') = stdout (usr s) @ shown line keys @ [10] \<and> actions s' = actions s \<and>
    bytes_at (ram (usr s')) buf (length (foldl edit line keys) + 1) = foldl edit line keys @ [0] \<and>
    (\<forall>a. a < buf \<or> buf + BUFFER_SIZE \<le> a \<longrightarrow> ram (usr s') a = ram (usr s) a)"
  using assms
proof (induction keys arbitrary: s line)
  case Nil
  then have "stdin (usr s) = 10 # rest" by simp
  from bufferize_newline [OF this Nil(3)] Nil(3,4) show ?case
    by (auto simp: Let_def shell_put_def shell_ram_def clear_line_def bytes_at_append bytes_at_eq nth_append
        write_bytes_def BUFFER_SIZE_def)
next
  case (Cons c cs)
  define t where "t = key_step buf line c (s\<lparr>usr := (usr s)\<lparr>stdin := cs @ 10 # rest\<rparr>\<rparr>)"
  have step: "bufferize_loop buf (length line) s = bufferize_loop buf (length (edit line c)) t"
    unfolding t_def using Cons.prems by (intro bufferize_key) auto
  have t: "10 \<notin> set cs" "stdin (usr t) = cs @ 10 # rest" "length (edit line c) \<le> 127"
    "bytes_at (ram (usr t)) buf (length (edit line c)) = edit line c"
    using Cons.prems by (auto simp: t_def edit_length intro!: key_step_ram)
  have out: "\<forall>a. a < buf \<or> buf + BUFFER_SIZE \<le> a \<longrightarrow> ram (usr t) a = ram (usr s) a"
    using Cons.prems(3) by (simp add: t_def key_step_outside)
  from Cons.IH [OF t] out show ?case unfolding step by (auto simp: t_def)
qed


section \<open>The filters\<close>

lemma filter_loop_eq:
  "EOF_CHAR \<notin> set xs \<Longrightarrow> stdin s = xs @ EOF_CHAR # rest \<Longrightarrow>
   filter_loop s = Some (s\<lparr>stdin := rest, stdout := stdout s @ List.filter (\<lambda>c. \<not> is_vowel c) xs @ [10]\<rparr>)"
proof (induction xs arbitrary: s)
  case Nil
  then show ?case by (subst filter_loop.simps) (simp add: get_c_Cons put_c_def)
next
  case (Cons c cs)
  let ?t = "if is_vowel c then s\<lparr>stdin := cs @ EOF_CHAR # rest\<rparr> else put_c c (s\<lparr>stdin := cs @ EOF_CHAR # rest\<rparr>)"
  have "filter_loop s = filter_loop ?t"
    using Cons.prems by (subst filter_loop.simps) (auto simp: get_c_Cons)
  also have "\<dots> = Some (?t\<lparr>stdin := rest, stdout := stdout ?t @ List.filter (\<lambda>c. \<not> is_vowel c) cs @ [10]\<rparr>)"
    using Cons.prems by (intro Cons.IH) (auto simp: put_c_def)
  finally show ?case by (auto simp: put_c_def)
qed

lemma wc_loop_eq:
  "EOF_CHAR \<notin> set xs \<Longrightarrow> stdin s = xs @ EOF_CHAR # rest \<Longrightarrow> - (2 ^ 31) \<le> n \<Longrightarrow> n + int (count_list xs 10) < 2 ^ 31 \<Longrightarrow>
   wc_loop n s = Some (n + int (count_list xs 10), s\<lparr>stdin := rest, stdout := stdout s @ xs\<rparr>)"
proof (induction xs arbitrary: s n)
  case Nil
  then show ?case by (subst wc_loop.simps) (simp add: get_c_Cons)
next
  case (Cons c cs)
  let ?n = "if c = 10 then n + 1 else n"
  let ?t = "put_c c (s\<lparr>stdin := cs @ EOF_CHAR # rest\<rparr>)"
  have "wc_loop n s = wc_loop ?n ?t"
    using Cons.prems by (subst wc_loop.simps) (auto simp: get_c_Cons)
  also have "\<dots> = Some (?n + int (count_list cs 10), ?t\<lparr>stdin := rest, stdout := stdout ?t @ cs\<rparr>)"
    using Cons.prems by (intro Cons.IH) (auto simp: put_c_def)
  finally show ?case by (auto simp: put_c_def)
qed

text \<open>C38: the filters compute their functions and return at the end of the input. \<open>filter\<close>
  prints the input without its vowels, in order, and a newline; \<open>wc\<close> repeats the input and then
  prints one more than the number of its newlines, in decimal. Both take exactly the input up to
  the end mark and leave the memory as it was.\<close>

theorem filters_correct:
  assumes "EOF_CHAR \<notin> set xs" "stdin s = xs @ EOF_CHAR # rest" "length xs < 2 ^ 31 - 1"
  shows "filter_vowels s = Some (s\<lparr>stdin := rest, stdout := stdout s @ List.filter (\<lambda>c. \<not> is_vowel c) xs @ [10]\<rparr>) \<and>
    wc s = Some (s\<lparr>stdin := rest, stdout := stdout s @ xs @ [10] @ bytes ''Line count: '' @
      decimal (1 + int (count_list xs 10)) @ [10, 10]\<rparr>)"
proof
  show "filter_vowels s = Some (s\<lparr>stdin := rest, stdout := stdout s @ List.filter (\<lambda>c. \<not> is_vowel c) xs @ [10]\<rparr>)"
    unfolding filter_vowels_def using assms(1,2) by (rule filter_loop_eq)
  have n: "1 + int (count_list xs 10) < 2 ^ 31" using count_le_length [of xs 10] assms(3) by simp
  from wc_loop_eq [OF assms(1,2), of 1] n
  show "wc s = Some (s\<lparr>stdin := rest, stdout := stdout s @ xs @ [10] @ bytes ''Line count: '' @
      decimal (1 + int (count_list xs 10)) @ [10, 10]\<rparr>)"
    using n by (simp add: wc_def put_int_eq put_c_def)
qed

definition demo_shell :: shell where
  "demo_shell = \<lparr>usr = \<lparr>stdin = [ch CHR ''P'', ch CHR ''x'', 8, ch CHR ''S'', 10], stdout = [], ram = (\<lambda>_. 0)\<rparr>,
     actions = [], color = 0\<rparr>"


theorem filters_correct_witness:
  "filter_vowels (usr demo_shell\<lparr>stdin := [ch CHR ''a'', ch CHR ''b'', 10, 1]\<rparr>) =
     Some (usr demo_shell\<lparr>stdin := [], stdout := [ch CHR ''b'', 10, 10]\<rparr>)"
proof -
  let ?s = "usr demo_shell\<lparr>stdin := [ch CHR ''a'', ch CHR ''b'', 10, 1]\<rparr>"
  have "EOF_CHAR \<notin> set [ch CHR ''a'', ch CHR ''b'', 10]" "stdin ?s = [ch CHR ''a'', ch CHR ''b'', 10] @ EOF_CHAR # []"
    "length [ch CHR ''a'', ch CHR ''b'', 10] < 2 ^ 31 - 1"
    by (simp_all add: EOF_CHAR_def)
  from filters_correct [OF this] show ?thesis by (simp add: is_vowel_def demo_shell_def)
qed

end
