(* ===== verification/Pong.thy ===== *)
theory Pong
  imports User_Numbers
begin

text \<open>
  Userland/SampleCodeModule/pong.c and sounds.c: the game, its configuration menu and its main
  loop. The global variables are a record; the system calls that draw, sound and sleep are
  appended to \<open>screen\<close>. The code mixes \<open>int\<close> and \<open>unsigned int\<close>: a comparison with an unsigned
  operand converts the other one (\<open>as_unsigned\<close>), and an assignment converts back (\<open>to_int32\<close>);
  signed overflow is \<open>None\<close>, as is waiting for input that does not come.
\<close>

section \<open>Constants and state\<close>

definition SCREEN_HEIGHT :: int where "SCREEN_HEIGHT = 768"
definition SCREEN_WIDTH :: int where "SCREEN_WIDTH = 1024"
definition SCORE_CARD_X :: int where "SCORE_CARD_X = 385"
definition SCORE_CARD_Y :: int where "SCORE_CARD_Y = 10"
definition SCORE_CARD_FONT_SIZE :: nat where "SCORE_CARD_FONT_SIZE = 4"
definition DEFAULT_FONT_SIZE :: nat where "DEFAULT_FONT_SIZE = 1"
definition SLEEP_BENCHMARK_UPPER_BOUND :: int where "SLEEP_BENCHMARK_UPPER_BOUND = 70000000"
definition UP :: int where "UP = 1"
definition DOWN :: int where "DOWN = 0"
definition STOP :: int where "STOP = 2"
definition WHITE :: nat where "WHITE = 0xFFFFFF"
definition BLACK :: nat where "BLACK = 0x000000"

text \<open>The unsigned variables that are never assigned.\<close>

definition BORDER_SIZE :: int where "BORDER_SIZE = 20"
definition PADDLE_WIDTH :: int where "PADDLE_WIDTH = 10"
definition PADDLE_HEIGHT :: int where "PADDLE_HEIGHT = 100"
definition PADDLE_SPEED :: int where "PADDLE_SPEED = 4"
definition BALL_SIZE :: int where "BALL_SIZE = 10"

datatype screen_call = Draw_rectangle nat int int int int | Draw_ball nat int int int | Set_font_size nat
  | Character_at nat byte int int | Draw_word_color_at nat string int int | Clear_color nat
  | Put_square int int int nat | Beep int int | Sleepms int

record paddle =
  px :: int
  py :: int
  pwidth :: int
  pheight :: int
  pspeed :: int
  direction :: int
  pcolor :: nat

record ball =
  ball_x :: int
  ball_y :: int
  bsize :: int
  speedX :: int
  speedY :: int
  bcolor :: nat

record pong =
  io :: user
  screen :: "screen_call list"
  score :: int
  BALL_SPEED :: int
  BALL_SPEED_HORIZONTAL :: int
  BACKGROUND_COLOR :: nat
  BORDER_COLOR :: nat
  player1Up :: nat
  player1Upbeak :: nat
  player1Down :: nat
  player1Downbeak :: nat
  player2Up :: nat
  player2Upbeak :: nat
  player2Down :: nat
  player2Downbeak :: nat
  experimental :: bool
  paddle1 :: paddle
  paddle2 :: paddle
  the_ball :: ball
  sound :: bool
  gsound :: bool
  player_1_score :: int
  player_2_score :: int

definition as_unsigned :: "int \<Rightarrow> int" where
  "as_unsigned x = x mod 2 ^ 32"

definition show_call :: "screen_call \<Rightarrow> pong \<Rightarrow> pong" where
  "show_call c s = s\<lparr>screen := screen s @ [c]\<rparr>"

definition say :: "string \<Rightarrow> pong \<Rightarrow> pong" where
  "say x s = s\<lparr>io := (io s)\<lparr>stdout := stdout (io s) @ bytes x\<rparr>\<rparr>"

definition newline_out :: "pong \<Rightarrow> pong" where
  "newline_out s = s\<lparr>io := put_c 10 (io s)\<rparr>"

definition say_int :: "int \<Rightarrow> pong \<Rightarrow> pong option" where
  "say_int n s = do { u \<leftarrow> put_int n (io s); Some (s\<lparr>io := u\<rparr>) }"

definition pong_get_c :: "pong \<Rightarrow> (byte \<times> pong) option" where
  "pong_get_c s = do { (c, u) \<leftarrow> get_c (io s); Some (c, s\<lparr>io := u\<rparr>) }"

datatype player = P1 | P2

fun paddle_of :: "player \<Rightarrow> pong \<Rightarrow> paddle" where
  "paddle_of P1 s = paddle1 s"
| "paddle_of P2 s = paddle2 s"

fun set_paddle_of :: "player \<Rightarrow> paddle \<Rightarrow> pong \<Rightarrow> pong" where
  "set_paddle_of P1 p s = s\<lparr>paddle1 := p\<rparr>"
| "set_paddle_of P2 p s = s\<lparr>paddle2 := p\<rparr>"

section \<open>Keys\<close>

definition ascii_table :: "(int \<times> int) list" where
  "ascii_table =
    [(27, 0x01), (8, 0x0E), (9, 0x0F), (13, 0x1C), (0, 0x1D), (32, 0x39), (49, 0x02), (50, 0x03),
     (51, 0x04), (52, 0x05), (53, 0x06), (54, 0x07), (55, 0x08), (56, 0x09), (57, 0x0A), (48, 0x0B),
     (45, 0x0C), (61, 0x0D), (91, 0x1A), (93, 0x1B), (59, 0x27), (39, 0x28), (96, 0x29), (92, 0x2B),
     (44, 0x33), (46, 0x34), (47, 0x35), (94, 0x48), (118, 0x50), (60, 0x4B), (62, 0x4D), (65,
     0x1E), (66, 0x30), (67, 0x2E), (68, 0x20), (69, 0x12), (70, 0x21), (71, 0x22), (72, 0x23), (73,
     0x17), (74, 0x24), (75, 0x25), (76, 0x26), (77, 0x32), (78, 0x31), (79, 0x18), (80, 0x19), (81,
     0x10), (82, 0x13), (83, 0x1F), (84, 0x14), (85, 0x16), (86, 0x2F), (87, 0x11), (88, 0x2D), (89,
     0x2C), (90, 0x15)]"

definition ascii_to_key_code :: "byte \<Rightarrow> int" where
  "ascii_to_key_code c = (case map_of ascii_table (sint c) of Some k \<Rightarrow> k | None \<Rightarrow> - 1)"

definition pong_scan_table :: "byte list" where
  "pong_scan_table =
    [0, 0, 49, 50, 51, 52, 53, 54, 55, 56, 57, 48, 45, 61, 8, 9, 81, 87, 69, 82, 84, 89, 85, 73, 79,
     80, 91, 93, 10, 0, 65, 83, 68, 70, 71, 72, 74, 75, 76, 59, 39, 96, 0, 92, 90, 88, 67, 86, 66,
     78, 77, 0, 0, 0, 0, 0, 0, 32, 0, 0, 0, 0, 0, 0, 0, 0, 0, 0, 0, 0, 0, 55, 94, 57, 45, 52, 53,
     54, 43, 49, 118, 51, 48, 46, 0, 0, 0, 0, 0, 0, 0, 0, 0, 0, 0, 0, 0, 0, 0, 0, 0, 0, 0, 0, 0, 0,
     0, 0, 0, 0, 0, 0, 0, 0, 0, 0, 0, 0, 0, 0, 0, 0, 0, 0, 0, 0, 0, 0]"

definition pong_scan_code :: "nat \<Rightarrow> byte option" where
  "pong_scan_code k =
     (if k < length pong_scan_table then Some (pong_scan_table ! k) else if k < 256 then Some 0 else None)"

text \<open>The key codes are \<open>uint64_t\<close>: \<open>key + 0x80\<close> wraps.\<close>

definition set_player_1_up :: "int \<Rightarrow> pong \<Rightarrow> pong" where
  "set_player_1_up key s = s\<lparr>player1Up := nat (key mod 2 ^ 64), player1Upbeak := nat ((key + 0x80) mod 2 ^ 64)\<rparr>"

definition set_player_1_down :: "int \<Rightarrow> pong \<Rightarrow> pong" where
  "set_player_1_down key s = s\<lparr>player1Down := nat (key mod 2 ^ 64), player1Downbeak := nat ((key + 0x80) mod 2 ^ 64)\<rparr>"

definition set_player_2_up :: "int \<Rightarrow> pong \<Rightarrow> pong" where
  "set_player_2_up key s = s\<lparr>player2Up := nat (key mod 2 ^ 64), player2Upbeak := nat ((key + 0x80) mod 2 ^ 64)\<rparr>"

definition set_player_2_down :: "int \<Rightarrow> pong \<Rightarrow> pong" where
  "set_player_2_down key s = s\<lparr>player2Down := nat (key mod 2 ^ 64), player2Downbeak := nat ((key + 0x80) mod 2 ^ 64)\<rparr>"

text \<open>What a key of the main loop does to the paddles.\<close>

definition steer :: "nat \<Rightarrow> nat \<Rightarrow> nat \<Rightarrow> nat \<Rightarrow> nat \<Rightarrow> paddle \<Rightarrow> paddle" where
  "steer up upbeak down downbeak c p =
     (if c = up then p\<lparr>direction := UP\<rparr>
      else if c = upbeak then (if direction p = UP then p\<lparr>direction := STOP\<rparr> else p)
      else if c = down then p\<lparr>direction := DOWN\<rparr>
      else if c = downbeak then (if direction p = DOWN then p\<lparr>direction := STOP\<rparr> else p)
      else p)"

definition handle_key :: "bool \<Rightarrow> nat \<Rightarrow> pong \<Rightarrow> pong" where
  "handle_key training c s =
     (let s = s\<lparr>paddle1 := steer (player1Up s) (player1Upbeak s) (player1Down s) (player1Downbeak s) c (paddle1 s)\<rparr>
      in if training then s
         else s\<lparr>paddle2 := steer (player2Up s) (player2Upbeak s) (player2Down s) (player2Downbeak s) c (paddle2 s)\<rparr>)"

section \<open>Drawing\<close>

definition draw_paddle :: "paddle \<Rightarrow> nat \<Rightarrow> pong \<Rightarrow> pong" where
  "draw_paddle p color s = show_call (Draw_rectangle color (as_unsigned (px p)) (as_unsigned (py p))
     (as_unsigned (pwidth p)) (as_unsigned (pheight p))) s"

definition clear_paddle :: "paddle \<Rightarrow> pong \<Rightarrow> pong" where
  "clear_paddle p s = draw_paddle p (BACKGROUND_COLOR s) s"

definition draw_ball_in :: "nat \<Rightarrow> pong \<Rightarrow> pong" where
  "draw_ball_in color s = show_call (Draw_ball color (bsize (the_ball s)) (ball_x (the_ball s)) (ball_y (the_ball s))) s"

definition clear_ball :: "pong \<Rightarrow> pong" where
  "clear_ball s = draw_ball_in (BACKGROUND_COLOR s) s"

definition draw_middle_line :: "pong \<Rightarrow> pong" where
  "draw_middle_line s = fold (\<lambda>k. show_call (Draw_rectangle (BORDER_COLOR s) (SCREEN_WIDTH div 2 - 5) (20 * int k) 10 10))
     [0..<39] s"

definition draw_borders :: "pong \<Rightarrow> pong" where
  "draw_borders s = show_call (Draw_rectangle (BORDER_COLOR s) 0 (SCREEN_HEIGHT - BORDER_SIZE) SCREEN_WIDTH BORDER_SIZE)
     (show_call (Draw_rectangle (BORDER_COLOR s) 0 0 SCREEN_WIDTH BORDER_SIZE) s)"

text \<open>The digit of a score; the \<open>char\<close> argument keeps its low byte.\<close>

definition score_char :: "int \<Rightarrow> byte" where
  "score_char n = word_of_int (n + 48)"

definition show_score_card :: "nat \<Rightarrow> pong \<Rightarrow> pong" where
  "show_score_card color s =
     show_call (Character_at color (score_char (player_2_score s)) (SCORE_CARD_X + 200) SCORE_CARD_Y)
       (show_call (Character_at color (score_char (player_1_score s)) SCORE_CARD_X SCORE_CARD_Y)
         (show_call (Set_font_size SCORE_CARD_FONT_SIZE) s))"

definition clear_score_card :: "pong \<Rightarrow> pong" where
  "clear_score_card s = show_score_card (BACKGROUND_COLOR s) s"

definition pause_lines :: "(string \<times> int) list" where
  "pause_lines = [(''Press X to exit. '', 100), (''Press C to access configuration. '', 130),
     (''Press S to toggle bounce sound.'', 160), (''Press G to toggle goal sound.'', 190), (''Press R to reset.'', 220),
     (''Press any other key to continue.'', 250)]"

definition word_at :: "nat \<Rightarrow> string \<Rightarrow> int \<Rightarrow> int \<Rightarrow> pong \<Rightarrow> pong" where
  "word_at color x dx dy s = show_call (Draw_word_color_at color x (SCREEN_WIDTH div 2 + dx) (SCREEN_HEIGHT div 2 + dy)) s"

definition pauseModular :: "nat \<Rightarrow> pong \<Rightarrow> pong" where
  "pauseModular color s =
     fold (\<lambda>(x, dy). word_at color x (- 200) dy) pause_lines
       (show_call (Set_font_size DEFAULT_FONT_SIZE) (word_at color ''PAUSED'' (- 200) (- 200) (show_call (Set_font_size 10) s)))"

definition pause_game :: "pong \<Rightarrow> pong" where
  "pause_game s = pauseModular WHITE s"

definition unpause :: "pong \<Rightarrow> pong" where
  "unpause s = pauseModular (BACKGROUND_COLOR s) s"

definition goal :: "pong \<Rightarrow> pong" where
  "goal s = show_call (Beep 392 325) (show_call (Beep 294 125) (show_call (Sleepms 50) (show_call (Beep 261 200) s)))"

definition bounce :: "pong \<Rightarrow> pong" where
  "bounce s = show_call (Beep 100 1) s"

section \<open>The game\<close>

text \<open>\<open>movePaddle\<close> on the paddle alone: the position is compared as an unsigned number.\<close>

definition moved_paddle :: "paddle \<Rightarrow> paddle option" where
  "moved_paddle p =
     (if direction p = UP then do {
        move \<leftarrow> int32 (py p - pspeed p);
        Some (if as_unsigned move \<ge> BORDER_SIZE then p\<lparr>py := move\<rparr> else p\<lparr>py := BORDER_SIZE, direction := STOP\<rparr>)
      }
      else if direction p = DOWN then do {
        move \<leftarrow> int32 (py p + pspeed p);
        border \<leftarrow> int32 (move + pheight p);
        Some (if as_unsigned border \<le> SCREEN_HEIGHT - BORDER_SIZE then p\<lparr>py := move\<rparr>
              else p\<lparr>py := to_int32 (SCREEN_HEIGHT - BORDER_SIZE - pheight p), direction := STOP\<rparr>)
      }
      else Some p)"

definition movePaddle :: "player \<Rightarrow> pong \<Rightarrow> pong option" where
  "movePaddle k s = do {
     let s = clear_paddle (paddle_of k s) s;
     p \<leftarrow> moved_paddle (paddle_of k s);
     Some (draw_paddle p (pcolor p) (set_paddle_of k p s))
   }"

definition update_score :: "nat \<Rightarrow> pong \<Rightarrow> pong option" where
  "update_score player s =
     (if player = 1 then do {
        let s = show_call (Character_at (BACKGROUND_COLOR s) (score_char (player_1_score s)) SCORE_CARD_X SCORE_CARD_Y) s;
        n \<leftarrow> int32 (player_1_score s + 1);
        Some (show_call (Character_at WHITE (score_char n) SCORE_CARD_X SCORE_CARD_Y) (s\<lparr>player_1_score := n\<rparr>))
      }
      else do {
        let s = show_call (Character_at (BACKGROUND_COLOR s) (score_char (player_2_score s)) (SCORE_CARD_X + 200) SCORE_CARD_Y) s;
        n \<leftarrow> int32 (player_2_score s + 1);
        Some (show_call (Character_at WHITE (score_char n) (SCORE_CARD_X + 200) SCORE_CARD_Y) (s\<lparr>player_2_score := n\<rparr>))
      })"

definition check_scored :: "pong \<Rightarrow> (bool \<times> pong) option" where
  "check_scored s = do {
     center \<leftarrow> int32 (ball_x (the_ball s) + c_div (bsize (the_ball s)) 2);
     edge \<leftarrow> int32 (px (paddle1 s) + pwidth (paddle1 s));
     if center < edge then do { s \<leftarrow> update_score 2 s; Some (True, s) }
     else if center > px (paddle2 s) then do { s \<leftarrow> update_score 1 s; Some (True, s) }
     else Some (False, s)
   }"

definition reset_game :: "pong \<Rightarrow> pong option" where
  "reset_game s = do {
     let s = clear_paddle (paddle2 s) (clear_paddle (paddle1 s) s);
     let b = the_ball s;
     v \<leftarrow> int32 (- speedX b);
     let s = s\<lparr>the_ball := b\<lparr>ball_x := SCREEN_WIDTH div 2 - c_div (bsize b) 2, ball_y := SCREEN_HEIGHT div 2 - c_div (bsize b) 2,
                           speedX := v, speedY := 0\<rparr>,
               paddle1 := (paddle1 s)\<lparr>py := SCREEN_HEIGHT div 2 - c_div (pheight (paddle1 s)) 2\<rparr>,
               paddle2 := (paddle2 s)\<lparr>py := SCREEN_HEIGHT div 2 - c_div (pheight (paddle2 s)) 2\<rparr>\<rparr>;
     Some (draw_borders (draw_paddle (paddle2 s) (pcolor (paddle2 s)) (draw_paddle (paddle1 s) (pcolor (paddle1 s)) s)))
   }"

definition bounced :: "pong \<Rightarrow> pong" where
  "bounced s = (if sound s then bounce s else s)"

text \<open>The borders: left and right, then up and down.\<close>

definition bounce_x :: "ball \<Rightarrow> (bool \<times> ball) option" where
  "bounce_x b =
     (if as_unsigned (ball_x b) \<le> BORDER_SIZE
      then do { v \<leftarrow> int32 (- speedX b); Some (True, b\<lparr>ball_x := BORDER_SIZE, speedX := v\<rparr>) }
      else do {
        border \<leftarrow> int32 (ball_x b + bsize b);
        if as_unsigned border \<ge> SCREEN_WIDTH - BORDER_SIZE
        then do { v \<leftarrow> int32 (- speedX b); Some (True, b\<lparr>ball_x := to_int32 (SCREEN_WIDTH - BORDER_SIZE - bsize b), speedX := v\<rparr>) }
        else Some (False, b)
      })"

definition bounce_y :: "ball \<Rightarrow> (bool \<times> ball) option" where
  "bounce_y b =
     (if as_unsigned (ball_y b) \<le> BORDER_SIZE
      then do { v \<leftarrow> int32 (- speedY b); Some (True, b\<lparr>ball_y := BORDER_SIZE, speedY := v\<rparr>) }
      else do {
        border \<leftarrow> int32 (ball_y b + bsize b);
        if as_unsigned border \<ge> SCREEN_HEIGHT - BORDER_SIZE * 2
        then do { v \<leftarrow> int32 (- speedY b); Some (True, b\<lparr>ball_y := to_int32 (SCREEN_HEIGHT - BORDER_SIZE * 2 - bsize b), speedY := v\<rparr>) }
        else Some (False, b)
      })"

text \<open>The collision of the ball with each paddle; the operands of \<open>&&\<close> are evaluated in order.\<close>

definition hits1 :: "ball \<Rightarrow> paddle \<Rightarrow> bool option" where
  "hits1 b p = do {
     right \<leftarrow> int32 (px p + pwidth p);
     if \<not> ball_x b \<le> right then Some False else do {
     ball_right \<leftarrow> int32 (ball_x b + bsize b);
     if \<not> ball_right \<ge> px p then Some False else do {
     ball_bottom \<leftarrow> int32 (ball_y b + bsize b);
     if \<not> ball_bottom \<ge> py p then Some False else do {
     bottom \<leftarrow> int32 (py p + pheight p);
     Some (ball_y b \<le> bottom)
     } } } }"

definition hits2 :: "ball \<Rightarrow> paddle \<Rightarrow> bool option" where
  "hits2 b p = do {
     ball_right \<leftarrow> int32 (ball_x b + bsize b);
     if \<not> ball_right \<ge> px p then Some False else do {
     right \<leftarrow> int32 (px p + pwidth p);
     if \<not> ball_x b \<le> right then Some False else do {
     ball_bottom \<leftarrow> int32 (ball_y b + bsize b);
     if \<not> ball_bottom \<ge> py p then Some False else do {
     bottom \<leftarrow> int32 (py p + pheight p);
     Some (ball_y b \<le> bottom)
     } } } }"

text \<open>The speeds are unsigned, so their negations are reduced before they become an \<open>int\<close>.\<close>

definition vertical_speed :: "int \<Rightarrow> int \<Rightarrow> int \<Rightarrow> int" where
  "vertical_speed v d old = (if d = UP then to_int32 (- v) else if d = DOWN then to_int32 v else old)"

definition collide1 :: "pong \<Rightarrow> pong option" where
  "collide1 s = do {
     h \<leftarrow> hits1 (the_ball s) (paddle1 s);
     if \<not> h then Some s
     else
       let s = bounced s; b = the_ball s; d = direction (paddle1 s)
       in Some (if d = STOP then s\<lparr>the_ball := b\<lparr>speedY := 0, speedX := to_int32 (BALL_SPEED_HORIZONTAL s)\<rparr>\<rparr>
                else s\<lparr>the_ball := b\<lparr>speedY := vertical_speed (BALL_SPEED s) d (speedY b), speedX := to_int32 (BALL_SPEED s)\<rparr>\<rparr>)
   }"

definition collide2 :: "pong \<Rightarrow> pong option" where
  "collide2 s = do {
     h \<leftarrow> hits2 (the_ball s) (paddle2 s);
     if \<not> h then Some s
     else do {
       _ \<leftarrow> int32 (- speedX (the_ball s));
       let s = bounced s;
       let b = the_ball s;
       let d = direction (paddle2 s);
       Some (if d = STOP then s\<lparr>the_ball := b\<lparr>speedY := 0, speedX := to_int32 (- BALL_SPEED_HORIZONTAL s)\<rparr>\<rparr>
             else s\<lparr>the_ball := b\<lparr>speedY := vertical_speed (BALL_SPEED s) d (speedY b), speedX := to_int32 (- BALL_SPEED s)\<rparr>\<rparr>)
     } }"

definition fly :: "pong \<Rightarrow> pong option" where
  "fly s = do {
     x \<leftarrow> int32 (ball_x (the_ball s) + speedX (the_ball s));
     y \<leftarrow> int32 (ball_y (the_ball s) + speedY (the_ball s));
     (hit_x, b) \<leftarrow> bounce_x ((the_ball s)\<lparr>ball_x := x, ball_y := y\<rparr>);
     let s = (if hit_x then bounced s else s);
     (hit_y, b) \<leftarrow> bounce_y b;
     let s = (if hit_y then bounced s else s);
     s \<leftarrow> collide1 (s\<lparr>the_ball := b\<rparr>);
     s \<leftarrow> collide2 s;
     Some (draw_ball_in (bcolor (the_ball s)) s)
   }"

definition move_ball :: "pong \<Rightarrow> pong option" where
  "move_ball s = do {
     (scored, s) \<leftarrow> check_scored (clear_ball s);
     if scored then reset_game (clear_ball (if gsound s then goal s else s)) else fly s
   }"

definition training :: "player \<Rightarrow> pong \<Rightarrow> pong option" where
  "training k s = do {
     let b = the_ball s;
     let p = paddle_of k s;
     ball_bottom \<leftarrow> int32 (ball_y b + bsize b);
     middle \<leftarrow> int32 (py p + c_div (pheight p) 2);
     let d = (if ball_bottom < middle then UP else if ball_y b > middle then DOWN else STOP);
     movePaddle k (set_paddle_of k (p\<lparr>direction := d\<rparr>) s)
   }"

text \<open>What a turn of the main loop moves; with training the second paddle moves twice.\<close>

definition frame :: "bool \<Rightarrow> pong \<Rightarrow> pong option" where
  "frame is_training s = do {
     s \<leftarrow> (if is_training then training P2 s else Some s);
     s \<leftarrow> movePaddle P1 s;
     s \<leftarrow> movePaddle P2 s;
     move_ball s
   }"

end
