(* ===== verification/Pong_Menu.thy ===== *)
theory Pong_Menu
  imports Pong
begin

text \<open>
  The rest of pong.c: reading a number, the configuration menu, the start screens and the main
  loop. What the kernel returns during a call (buffer position, characters, ticks) is an argument.
\<close>

section \<open>Reading a number\<close>

partial_function (option) get_number_loop :: "byte \<Rightarrow> int \<Rightarrow> pong \<Rightarrow> (int \<times> pong) option" where
  "get_number_loop c number s =
     (if c = 10 then Some (number, s)
      else do {
        (c, s) \<leftarrow> pong_get_c s;
        if is_digit c \<or> c = 8 then
          (if c = 8 \<and> number \<noteq> 0
           then get_number_loop c (c_div number 10) (s\<lparr>io := put_c 8 (put_c 32 (put_c 8 (io s)))\<rparr>)
           else do {
             x \<leftarrow> int32 (number * 10);
             number \<leftarrow> int32 (x + (sint c - 48));
             get_number_loop c number (s\<lparr>io := put_c c (io s)\<rparr>)
           })
        else get_number_loop c number s
      })"

definition get_number :: "pong \<Rightarrow> (int \<times> pong) option" where
  "get_number s = get_number_loop 32 0 s"

section \<open>Configuration\<close>

definition NUM_COMMON_COLORS :: nat where "NUM_COMMON_COLORS = 10"

definition COMMON_COLORS :: "nat list" where
  "COMMON_COLORS = [0xFFFFFF, 0x000000, 0xFF0000, 0x00FF00, 0x0000FF, 0xFFFF00, 0xFF00FF, 0x00FFFF, 0x808080, 0xFFA500]"

definition option_lines :: "string list" where
  "option_lines =
    [CHR 0x09 # ''CONFIGURATION'',
     ''Press 1 to change the ball speed'',
     ''Press 2 to change the paddle speed'',
     ''Press 3 to disable the experimental refresh rate'',
     ''Press 4 to change the ball size'',
     ''Press 5 to change border and middle line color'',
     ''Press 6 to change the paddle height'',
     ''Press 7 to change the paddle width'',
     ''Press 8 to change the ball color'',
     ''Press 9 to change the paddle color'',
     ''Press 0 to change the background color'',
     ''Press C to change the keybinds of P1'',
     ''Press K to change the keybinds of P2'',
     ''Press S to change the score to win.'',
     ''Press D to restore deafult values'',
     ''Press X to exit'']"

definition options :: "pong \<Rightarrow> pong" where
  "options s = fold (\<lambda>x s. newline_out (say x s)) option_lines s"

text \<open>One line of \<open>show_color_options\<close>, with its two squares.\<close>

fun color_option_lines :: "nat list \<Rightarrow> pong \<Rightarrow> pong option" where
  "color_option_lines [] s = Some s"
| "color_option_lines (i # is) s = do {
     s \<leftarrow> say_int (int i + 1) s;
     let y = 16 * int DEFAULT_FONT_SIZE * int i + 70;
     color_option_lines is
       (newline_out (show_call (Put_square (50 + (25 - 20) div 2) (y + (25 - 20) div 2) 20 (COMMON_COLORS ! i))
         (show_call (Put_square 50 y 25 WHITE) s)))
   }"

definition show_color_options :: "pong \<Rightarrow> pong option" where
  "show_color_options s = do {
     s \<leftarrow> color_option_lines [0..<NUM_COMMON_COLORS] (newline_out (say ''Choose a color:'' s));
     Some (say ''Enter the new color (1-10):'' s)
   }"

definition clear_background :: "pong \<Rightarrow> pong" where
  "clear_background s = show_call (Clear_color (BACKGROUND_COLOR s)) s"

text \<open>
  The pattern of the menu's cases: the old value, the question, the new number. \<open>tail\<close> is what
  follows the old value, \<open>new_number\<close> what is stored when the number is positive.
\<close>

definition ask :: "string \<Rightarrow> int \<Rightarrow> string \<Rightarrow> string \<Rightarrow> pong \<Rightarrow> (int \<times> pong) option" where
  "ask current old tail question s = do {
     s \<leftarrow> say_int old (say current s);
     get_number (say question (newline_out (say tail s)))
   }"

definition when_positive :: "int \<Rightarrow> (pong \<Rightarrow> pong option) \<Rightarrow> pong \<Rightarrow> pong option" where
  "when_positive n f s = (if n > 0 then f s else Some s)"

text \<open>A choice of color: the old one in a square at \<open>x\<close>; the result is the index of the new one.\<close>

definition ask_color :: "string \<Rightarrow> int \<Rightarrow> nat \<Rightarrow> pong \<Rightarrow> (nat option \<times> pong) option" where
  "ask_color current x old s = do {
     let s = show_call (Put_square (x + (25 - 20) div 2) (2 + (25 - 20) div 2) 20 old)
               (show_call (Put_square x 2 25 WHITE) (say current (clear_background s)));
     s \<leftarrow> show_color_options (newline_out s);
     (n, s) \<leftarrow> get_number s;
     Some (if 1 \<le> n \<and> n \<le> 10 then Some (COMMON_COLORS ! nat (n - 1)) else None, s)
   }"

definition store_color :: "(nat \<Rightarrow> pong \<Rightarrow> pong) \<Rightarrow> nat option \<times> pong \<Rightarrow> pong" where
  "store_color f r = (case r of (Some c, s) \<Rightarrow> f c s | (None, s) \<Rightarrow> s)"

text \<open>A key binding: the old key is looked up in the table of 256 scan codes.\<close>

definition ask_key :: "string \<Rightarrow> nat \<Rightarrow> string \<Rightarrow> (int \<Rightarrow> pong \<Rightarrow> pong) \<Rightarrow> pong \<Rightarrow> pong option" where
  "ask_key current key question store s = do {
     k \<leftarrow> pong_scan_code key;
     let s = say question (newline_out ((say current s)\<lparr>io := put_c k (io (say current s))\<rparr>));
     (c, s) \<leftarrow> pong_get_c s;
     let s = (if c \<noteq> 0 then store (ascii_to_key_code c) s else s);
     Some (s\<lparr>io := put_c c (io s)\<rparr>)
   }"

definition set_paddle :: "int \<Rightarrow> int \<Rightarrow> int \<Rightarrow> int \<Rightarrow> int \<Rightarrow> int \<Rightarrow> nat \<Rightarrow> paddle" where
  "set_paddle x y w h v d color =
     \<lparr>px = x, py = y, pwidth = w, pheight = h, pspeed = v, direction = d, pcolor = color\<rparr>"

definition set_ball :: "int \<Rightarrow> int \<Rightarrow> int \<Rightarrow> int \<Rightarrow> int \<Rightarrow> nat \<Rightarrow> ball" where
  "set_ball x y n vx vy color = \<lparr>ball_x = x, ball_y = y, bsize = n, speedX = vx, speedY = vy, bcolor = color\<rparr>"

definition set_default :: "pong \<Rightarrow> pong" where
  "set_default s =
     set_player_2_down 0x50 (set_player_2_up 0x48 (set_player_1_down 0x1F (set_player_1_up 0x11
       (s\<lparr>paddle1 := set_paddle 50 (SCREEN_HEIGHT div 2 - PADDLE_HEIGHT div 2) PADDLE_WIDTH PADDLE_HEIGHT PADDLE_SPEED STOP WHITE,
          paddle2 := set_paddle (SCREEN_WIDTH - 50 - PADDLE_WIDTH) (SCREEN_HEIGHT div 2 - PADDLE_HEIGHT div 2)
             PADDLE_WIDTH PADDLE_HEIGHT PADDLE_SPEED STOP WHITE,
          the_ball := set_ball (SCREEN_WIDTH div 2 - BALL_SIZE div 2) (SCREEN_HEIGHT div 2 - BALL_SIZE div 2) BALL_SIZE
             (to_int32 (BALL_SPEED s)) (to_int32 (BALL_SPEED s)) WHITE\<rparr>))))"

text \<open>
  The cases of \<open>configuration\<close>. The second width of case 7 goes to the first paddle, and case S
  runs on into D, which restores the defaults.
\<close>

definition change_ball_speed :: "pong \<Rightarrow> pong option" where
  "change_ball_speed s = do {
     (n, s) \<leftarrow> ask ''Current ball speed: '' (to_int32 (BALL_SPEED s)) '''' ''Enter the new ball speed: '' (clear_background s);
     when_positive n (\<lambda>s. do {
       h \<leftarrow> int32 (n * 2);
       Some (s\<lparr>BALL_SPEED_HORIZONTAL := h, BALL_SPEED := n, the_ball := (the_ball s)\<lparr>speedX := n\<rparr>\<rparr>)
     }) s
   }"

definition change_paddle_speed :: "pong \<Rightarrow> pong option" where
  "change_paddle_speed s = do {
     (n, s) \<leftarrow> ask ''Current paddle speed: '' (pspeed (paddle1 s)) '' '' ''Enter the new paddle speed: '' (clear_background s);
     when_positive n (\<lambda>s. Some (s\<lparr>paddle1 := (paddle1 s)\<lparr>pspeed := n\<rparr>, paddle2 := (paddle2 s)\<lparr>pspeed := n\<rparr>\<rparr>)) s
   }"

definition change_ball_size :: "pong \<Rightarrow> pong option" where
  "change_ball_size s = do {
     (n, s) \<leftarrow> ask ''Current ball size: '' (bsize (the_ball s)) '' '' ''Enter the new ball size: '' (clear_background s);
     when_positive n (\<lambda>s. Some (s\<lparr>the_ball := (the_ball s)\<lparr>bsize := n\<rparr>\<rparr>)) s
   }"

definition change_paddle_height :: "pong \<Rightarrow> pong option" where
  "change_paddle_height s = do {
     (n, s) \<leftarrow> ask ''Current player1 paddle height: '' (pheight (paddle1 s)) '' '' ''Enter the new paddle height: ''
       (clear_background s);
     s \<leftarrow> when_positive n (\<lambda>s. Some (s\<lparr>paddle1 := (paddle1 s)\<lparr>pheight := n\<rparr>\<rparr>)) s;
     (n, s) \<leftarrow> ask ''Current player2 paddle height: '' (pheight (paddle2 s)) '' '' ''Enter the new paddle height: '' (newline_out s);
     when_positive n (\<lambda>s. Some (s\<lparr>paddle2 := (paddle2 s)\<lparr>pheight := n\<rparr>\<rparr>)) s
   }"

definition change_paddle_width :: "pong \<Rightarrow> pong option" where
  "change_paddle_width s = do {
     (n, s) \<leftarrow> ask ''Current player1 paddle width: '' (pwidth (paddle1 s)) '' '' ''Enter the new paddle width: ''
       (clear_background s);
     s \<leftarrow> when_positive n (\<lambda>s. Some (s\<lparr>paddle1 := (paddle1 s)\<lparr>pwidth := n\<rparr>\<rparr>)) s;
     (n, s) \<leftarrow> ask ''Current player2 paddle width: '' (pwidth (paddle2 s)) '' '' ''Enter the new paddle width: '' (newline_out s);
     when_positive n (\<lambda>s. Some (s\<lparr>paddle1 := (paddle1 s)\<lparr>pwidth := n\<rparr>\<rparr>)) s
   }"

definition change_score :: "pong \<Rightarrow> pong option" where
  "change_score s = do {
     (n, s) \<leftarrow> ask ''Current score to win: '' (to_int32 (score s)) '' '' ''Enter the new score to win: '' (clear_background s);
     when_positive n (\<lambda>s. Some (s\<lparr>score := n\<rparr>)) s
   }"

definition restore_defaults :: "pong \<Rightarrow> pong" where
  "restore_defaults s = set_default (s\<lparr>BACKGROUND_COLOR := BLACK\<rparr>)"

definition change_keys_1 :: "pong \<Rightarrow> pong option" where
  "change_keys_1 s = do {
     let s = clear_background s;
     s \<leftarrow> ask_key ''Current up key: '' (player1Up s) ''Enter the new up key: '' set_player_1_up s;
     ask_key ''Current down key: '' (player1Down s) ''Enter the new down key: '' set_player_1_down (newline_out s)
   }"

definition change_keys_2 :: "pong \<Rightarrow> pong option" where
  "change_keys_2 s = do {
     let s = clear_background s;
     s \<leftarrow> ask_key ''Current up key: '' (player2Up s) ''Enter the new up key: '' set_player_2_up s;
     ask_key ''Current down key: '' (player2Down s) ''Enter the new down key: '' set_player_2_down (newline_out s)
   }"

definition configure :: "byte \<Rightarrow> pong \<Rightarrow> pong option" where
  "configure c s =
     (if c = ch CHR ''1'' then change_ball_speed s
      else if c = ch CHR ''2'' then change_paddle_speed s
      else if c = ch CHR ''3'' then Some (s\<lparr>experimental := False\<rparr>)
      else if c = ch CHR ''4'' then change_ball_size s
      else if c = ch CHR ''5'' then
        map_option (store_color (\<lambda>k s. s\<lparr>BORDER_COLOR := k\<rparr>))
          (ask_color ''Current color:'' (SCREEN_WIDTH div 2 - 150) (BORDER_COLOR s) s)
      else if c = ch CHR ''6'' then change_paddle_height s
      else if c = ch CHR ''7'' then change_paddle_width s
      else if c = ch CHR ''8'' then
        map_option (store_color (\<lambda>k s. s\<lparr>the_ball := (the_ball s)\<lparr>bcolor := k\<rparr>\<rparr>))
          (ask_color ''Current ball color: '' (SCREEN_WIDTH div 2 - 80) (bcolor (the_ball s)) s)
      else if c = ch CHR ''9'' then
        map_option (store_color (\<lambda>k s. s\<lparr>paddle1 := (paddle1 s)\<lparr>pcolor := k\<rparr>, paddle2 := (paddle2 s)\<lparr>pcolor := k\<rparr>\<rparr>))
          (ask_color ''Current paddle color: '' (SCREEN_WIDTH div 2 - 50) WHITE s)
      else if c = ch CHR ''0'' then
        map_option (store_color (\<lambda>k s. s\<lparr>BACKGROUND_COLOR := k\<rparr>))
          (ask_color ''Current background color: '' (SCREEN_WIDTH div 2) (BACKGROUND_COLOR s) s)
      else if c = ch CHR ''C'' then change_keys_1 s
      else if c = ch CHR ''K'' then change_keys_2 s
      else if c = ch CHR ''S'' then map_option restore_defaults (change_score s)
      else if c = ch CHR ''D'' then Some (restore_defaults s)
      else Some s)"

partial_function (option) configuration :: "pong \<Rightarrow> pong option" where
  "configuration s = do {
     (c, s) \<leftarrow> pong_get_c (options s);
     if c = ch CHR ''X'' then Some (clear_background s)
     else do {
       s \<leftarrow> configure c s;
       configuration (clear_background s)
     } }"

section \<open>The main program\<close>

text \<open>The difference of the two readings of the clock.\<close>

definition benchmark :: "int \<Rightarrow> int \<Rightarrow> int option" where
  "benchmark ticks ticks2 = int32 (ticks2 - ticks)"

text \<open>The delay loop; with 0 ticks for the benchmark it never ends.\<close>

partial_function (option) sleepbm_loop :: "int \<Rightarrow> int \<Rightarrow> unit option" where
  "sleepbm_loop i bm =
     (if i < SLEEP_BENCHMARK_UPPER_BOUND then do { i \<leftarrow> int64 (i + bm); sleepbm_loop i bm } else Some ())"

definition sleepbm :: "int \<Rightarrow> unit option" where
  "sleepbm bm = sleepbm_loop 0 bm"

definition left_at :: "nat \<Rightarrow> string \<Rightarrow> int \<Rightarrow> pong \<Rightarrow> pong" where
  "left_at color x dy s = show_call (Draw_word_color_at color x 0 (SCREEN_HEIGHT div 2 + dy)) s"

definition pong_title :: "pong \<Rightarrow> pong" where
  "pong_title s = show_call (Set_font_size DEFAULT_FONT_SIZE) (word_at WHITE ''PONG'' (- 270) (- 200) (show_call (Set_font_size 10) s))"

definition experimental_lines :: "nat \<Rightarrow> pong \<Rightarrow> pong" where
  "experimental_lines color s = left_at color ''Press any other key for default refresh rate'' 130
     (left_at color ''Press E to enable experimental refresh rate'' 100 s)"

definition start_lines :: "(string \<times> int) list" where
  "start_lines = [(''Press T for training'', 100), (''Press C for configuration'', 130),
     (''Press any other key to begin 2 player PONG: '', 160),
     (''Player 1 goes up with '' @ [CHR 34] @ ''W'' @ [CHR 34] @ '' and down with '' @ [CHR 34] @ ''S'' @ [CHR 34], 190),
     (''Player 2 goes up with '' @ [CHR 34] @ ''^'' @ [CHR 34] @ '' and down with '' @ [CHR 34] @ ''v'' @ [CHR 34], 220)]"

definition choose_rate :: "int \<Rightarrow> int \<Rightarrow> pong \<Rightarrow> (int \<times> pong) option" where
  "choose_rate ticks ticks2 s = do {
     (e, s) \<leftarrow> pong_get_c (experimental_lines WHITE s);
     if e = ch CHR ''E'' then do {
       setting \<leftarrow> benchmark ticks ticks2;
       Some (setting,
         left_at WHITE ''Benchmark complete!'' 100
           (left_at (BACKGROUND_COLOR s) ''Wait until benchmark is complete...'' 100
             ((left_at WHITE ''Wait until benchmark is complete...'' 100
                (experimental_lines (BACKGROUND_COLOR s) s))\<lparr>experimental := True\<rparr>)))
     }
     else Some (0, s)
   }"

definition draw_court :: "pong \<Rightarrow> pong" where
  "draw_court s = show_score_card WHITE (draw_paddle (paddle2 s) (pcolor (paddle2 s))
     (draw_paddle (paddle1 s) (pcolor (paddle1 s)) (draw_middle_line (draw_borders s))))"

text \<open>\<open>pong\<close> before its loop: whether to train, and the delay of the benchmark.\<close>

definition pong_start :: "int \<Rightarrow> int \<Rightarrow> pong \<Rightarrow> (bool \<times> int \<times> pong) option" where
  "pong_start ticks ticks2 s = do {
     (setting, s) \<leftarrow> choose_rate ticks ticks2 (pong_title (set_default (clear_background s)));
     (t, s) \<leftarrow> pong_get_c (fold (\<lambda>(x, dy). left_at WHITE x dy) start_lines (pong_title (clear_background s)));
     s \<leftarrow> (if t = ch CHR ''C'' then configuration (clear_background s) else Some s);
     s \<leftarrow> reset_game (draw_court (clear_background s));
     Some (t = ch CHR ''T'', setting, s)
   }"

definition no_scores :: "pong \<Rightarrow> pong" where
  "no_scores s = s\<lparr>player_1_score := 0, player_2_score := 0\<rparr>"

text \<open>The pause; the flag tells that the game is left.\<close>

definition pause_menu :: "pong \<Rightarrow> (bool \<times> pong) option" where
  "pause_menu s = do {
     (p, s) \<leftarrow> pong_get_c (pause_game s);
     if p = ch CHR ''X'' then Some (True, no_scores (clear_background s))
     else do {
       s \<leftarrow> (if p = ch CHR ''C'' then do { s \<leftarrow> configuration (clear_background s); Some (clear_background s) } else Some s);
       let s = (if p = ch CHR ''S'' then s\<lparr>sound := \<not> sound s\<rparr> else s);
       let s = (if p = ch CHR ''G'' then s\<lparr>gsound := \<not> gsound s\<rparr> else s);
       s \<leftarrow> (if p = ch CHR ''R'' then do { s \<leftarrow> reset_game (no_scores s); Some (clear_background s) } else Some s);
       Some (False, unpause (draw_court s))
     } }"

text \<open>
  The keys of a turn: \<open>bp\<close> gives the buffer position that \<open>call_get_buffer_position\<close> returns when
  the loop is at a position, \<open>char_at\<close> the characters.
\<close>

partial_function (option) keys_loop ::
  "(int \<Rightarrow> int) \<Rightarrow> (int \<Rightarrow> nat) \<Rightarrow> bool \<Rightarrow> nat \<Rightarrow> int \<Rightarrow> pong \<Rightarrow> (nat \<times> int \<times> pong) option" where
  "keys_loop bp char_at is_training c pos s =
     (if pos \<le> bp pos then
        let c = char_at (pos - 1)
        in keys_loop bp char_at is_training c (pos + 1) (handle_key is_training c s)
      else Some (c, pos, s))"

definition won :: "pong \<Rightarrow> bool" where
  "won s \<longleftrightarrow> as_unsigned (player_1_score s) \<ge> score s \<or> as_unsigned (player_2_score s) \<ge> score s"

definition game_over :: "pong \<Rightarrow> (bool \<times> pong) option" where
  "game_over s =
     (if won s then do {
        let s = show_call (Set_font_size DEFAULT_FONT_SIZE) (show_call (Set_font_size 6) (clear_background s));
        let s = word_at WHITE ''GAME OVER'' (- 100) (- 170) s;
        let s = word_at WHITE (if player_1_score s > player_2_score s then ''PLAYER 1 WINS'' else ''PLAYER 2 WINS'') (- 100) (- 130) s;
        let s = word_at WHITE ''Press X to exit. '' (- 100) (- 100) s;
        (p, s) \<leftarrow> pong_get_c (word_at WHITE ''Press any other key to play again.'' (- 100) (- 75) s);
        if p = ch CHR ''X'' then Some (True, clear_background s)
        else do {
          s \<leftarrow> reset_game (no_scores (clear_background s));
          Some (False, draw_middle_line s)
        }
      }
      else Some (False, s))"

text \<open>One turn of the main loop.\<close>

definition pong_turn ::
  "(int \<Rightarrow> int) \<Rightarrow> (int \<Rightarrow> nat) \<Rightarrow> bool \<Rightarrow> int \<Rightarrow> nat \<times> int \<times> pong \<Rightarrow> (bool \<times> nat \<times> int \<times> pong) option" where
  "pong_turn bp char_at is_training setting = (\<lambda>(c, pos, s). do {
     let s = show_score_card WHITE s;
     (quit, s) \<leftarrow> (if c = 0x19 then pause_menu s else Some (False, s));
     if quit then Some (True, c, pos, s)
     else do {
       (c, pos, s) \<leftarrow> keys_loop bp char_at is_training c pos s;
       s \<leftarrow> frame is_training s;
       (quit, s) \<leftarrow> game_over s;
       if quit then Some (True, c, pos, s)
       else do {
         let s = draw_middle_line s;
         s \<leftarrow> (if experimental s then do { _ \<leftarrow> sleepbm setting; Some s } else Some (show_call (Sleepms 1) s));
         Some (False, c, pos, s)
       } } })"

end
