(* ===== verification/Pong_Court.thy ===== *)
theory Pong_Court
  imports Pong_Menu
begin

text \<open>
  The game stays on the screen: an invariant of the paddles, the ball and the score for settings in
  stated bounds, kept by every key, every frame and the end of a round.
\<close>

section \<open>The invariant\<close>

definition paddle_ok :: "paddle \<Rightarrow> bool" where
  "paddle_ok p \<longleftrightarrow> 0 \<le> pspeed p \<and> pspeed p \<le> 20 \<and> 1 \<le> pheight p \<and> pheight p \<le> 728 \<and>
     0 \<le> pwidth p \<and> pwidth p \<le> 100 \<and> 20 \<le> py p \<and> py p + pheight p \<le> 748"

definition ball_ok :: "ball \<Rightarrow> bool" where
  "ball_ok b \<longleftrightarrow> 1 \<le> bsize b \<and> bsize b \<le> 20 \<and> \<bar>speedX b\<bar> \<le> 40 \<and> \<bar>speedY b\<bar> \<le> 20 \<and>
     20 \<le> ball_x b \<and> ball_x b + bsize b \<le> 1004 \<and> 20 \<le> ball_y b \<and> ball_y b + bsize b \<le> 728"

text \<open>The settings: where the paddles stand, the speeds, and a score to win of one digit.\<close>

definition settings_ok :: "pong \<Rightarrow> bool" where
  "settings_ok s \<longleftrightarrow> px (paddle1 s) = 50 \<and> px (paddle2 s) = 964 \<and> 0 \<le> BALL_SPEED s \<and> BALL_SPEED s \<le> 20 \<and>
     0 \<le> BALL_SPEED_HORIZONTAL s \<and> BALL_SPEED_HORIZONTAL s \<le> 40 \<and> 1 \<le> score s \<and> score s \<le> 9"

definition scores_ok :: "pong \<Rightarrow> bool" where
  "scores_ok s \<longleftrightarrow> 0 \<le> player_1_score s \<and> 0 \<le> player_2_score s \<and> player_1_score s \<le> score s \<and> player_2_score s \<le> score s"

definition court :: "pong \<Rightarrow> bool" where
  "court s \<longleftrightarrow> settings_ok s \<and> paddle_ok (paddle1 s) \<and> paddle_ok (paddle2 s) \<and> ball_ok (the_ball s) \<and> scores_ok s"

lemma int32_in [simp]: "- 2147483648 \<le> x \<Longrightarrow> x \<le> 2147483647 \<Longrightarrow> int32 x = Some x"
  by (simp add: int32_def)

lemma as_unsigned_in [simp]: "0 \<le> x \<Longrightarrow> x < 4294967296 \<Longrightarrow> as_unsigned x = x"
  by (simp add: as_unsigned_def)

lemma to_int32_in [simp]: "- 2147483648 \<le> x \<Longrightarrow> x \<le> 2147483647 \<Longrightarrow> to_int32 x = x"
  by (simp add: to_int32_id)

lemma show_call_simps [simp]:
  "paddle1 (show_call c s) = paddle1 s" "paddle2 (show_call c s) = paddle2 s" "the_ball (show_call c s) = the_ball s"
  "BALL_SPEED (show_call c s) = BALL_SPEED s" "BALL_SPEED_HORIZONTAL (show_call c s) = BALL_SPEED_HORIZONTAL s"
  "score (show_call c s) = score s" "player_1_score (show_call c s) = player_1_score s"
  "player_2_score (show_call c s) = player_2_score s" "gsound (show_call c s) = gsound s"
  "sound (show_call c s) = sound s" "io (show_call c s) = io s" "BACKGROUND_COLOR (show_call c s) = BACKGROUND_COLOR s"
  by (simp_all add: show_call_def)

lemma court_show_call [simp]: "court (show_call c s) = court s"
  by (simp add: court_def settings_ok_def scores_ok_def)

lemma court_draws [simp]:
  "court (draw_paddle p k s) = court s" "court (clear_paddle p s) = court s" "court (draw_ball_in k s) = court s"
  "court (clear_ball s) = court s" "court (draw_borders s) = court s" "court (word_at k x dx dy s) = court s"
  "court (bounced s) = court s" "court (goal s) = court s" "court (clear_background s) = court s"
  by (simp_all add: draw_paddle_def clear_paddle_def draw_ball_in_def clear_ball_def draw_borders_def word_at_def
      bounced_def bounce_def goal_def clear_background_def)

lemma fold_show_call: "court (fold (\<lambda>k. show_call (f k)) ks s) = court s"
  by (induction ks arbitrary: s) simp_all

lemma court_middle_line [simp]: "court (draw_middle_line s) = court s"
  by (simp add: draw_middle_line_def fold_show_call)

section \<open>Paddles\<close>

lemma moved_paddle_ok:
  assumes "paddle_ok p"
  shows "\<exists>p'. moved_paddle p = Some p' \<and> paddle_ok p' \<and> px p' = px p"
  using assms unfolding paddle_ok_def
  by (auto simp: moved_paddle_def BORDER_SIZE_def SCREEN_HEIGHT_def UP_def DOWN_def STOP_def)

lemma court_set_paddle:
  "court s \<Longrightarrow> paddle_ok p \<Longrightarrow> px p = px (paddle_of k s) \<Longrightarrow> court (set_paddle_of k p s)"
  by (cases k) (auto simp: court_def settings_ok_def scores_ok_def)

lemma court_paddle_of: "court s \<Longrightarrow> paddle_ok (paddle_of k s)"
  by (cases k) (auto simp: court_def)

lemma paddle_of_draw [simp]: "paddle_of k (show_call c s) = paddle_of k s"
  by (cases k) simp_all

lemma movePaddle_court:
  assumes "court s"
  shows "\<exists>s'. movePaddle k s = Some s' \<and> court s'"
proof -
  let ?s = "clear_paddle (paddle_of k s) s"
  have k: "paddle_of k ?s = paddle_of k s" by (simp add: clear_paddle_def draw_paddle_def)
  obtain p where p: "moved_paddle (paddle_of k s) = Some p" "paddle_ok p" "px p = px (paddle_of k s)"
    using moved_paddle_ok [OF court_paddle_of [OF assms, of k]] by auto
  from court_set_paddle [of ?s p k] p assms show ?thesis by (simp add: movePaddle_def k)
qed

lemma steer_ok [simp]: "paddle_ok (steer a b c d k p) = paddle_ok p" "px (steer a b c d k p) = px p"
  by (simp_all add: steer_def paddle_ok_def)

lemma handle_key_court: "court s \<Longrightarrow> court (handle_key t c s)"
  by (auto simp: handle_key_def Let_def court_def settings_ok_def scores_ok_def)

lemma c_div_2: "0 \<le> x \<Longrightarrow> c_div x 2 = x div 2"
  by (simp add: c_div_def)

lemma training_court:
  assumes "court s"
  shows "\<exists>s'. training P2 s = Some s' \<and> court s'"
proof -
  have b: "ball_ok (the_ball s)" "paddle_ok (paddle2 s)" using assms by (simp_all add: court_def)
  have "court (s\<lparr>paddle2 := (paddle2 s)\<lparr>direction := d\<rparr>\<rparr>)" for d
    using assms by (simp add: court_def settings_ok_def scores_ok_def paddle_ok_def)
  note moves = movePaddle_court [OF this]
  have "int32 (py (paddle2 s) + c_div (pheight (paddle2 s)) 2) = Some (py (paddle2 s) + pheight (paddle2 s) div 2)"
    "int32 (ball_y (the_ball s) + bsize (the_ball s)) = Some (ball_y (the_ball s) + bsize (the_ball s))"
    using b unfolding ball_ok_def paddle_ok_def by (auto simp: c_div_2)
  with moves show ?thesis by (simp add: training_def Let_def)
qed

section \<open>The ball\<close>

definition centered :: "pong \<Rightarrow> pong" where
  "centered s = s\<lparr>the_ball := (the_ball s)\<lparr>ball_x := 512 - bsize (the_ball s) div 2, ball_y := 384 - bsize (the_ball s) div 2,
      speedX := - speedX (the_ball s), speedY := 0\<rparr>,
    paddle1 := (paddle1 s)\<lparr>py := 384 - pheight (paddle1 s) div 2\<rparr>,
    paddle2 := (paddle2 s)\<lparr>py := 384 - pheight (paddle2 s) div 2\<rparr>\<rparr>"

lemma court_centered: "court s \<Longrightarrow> court (centered s)"
  unfolding court_def centered_def settings_ok_def scores_ok_def paddle_ok_def ball_ok_def by auto

lemma reset_game_court:
  assumes "court s"
  shows "\<exists>s'. reset_game s = Some s' \<and> court s'"
proof -
  define t where "t = clear_paddle (paddle2 s) (clear_paddle (paddle1 s) s)"
  have c: "court t" using assms by (simp add: t_def)
  have b: "ball_ok (the_ball t)" "paddle_ok (paddle1 t)" "paddle_ok (paddle2 t)" using c by (simp_all add: court_def)
  then have v: "int32 (- speedX (the_ball t)) = Some (- speedX (the_ball t))" unfolding ball_ok_def by auto
  have d: "c_div (bsize (the_ball t)) 2 = bsize (the_ball t) div 2" "c_div (pheight (paddle1 t)) 2 = pheight (paddle1 t) div 2"
    "c_div (pheight (paddle2 t)) 2 = pheight (paddle2 t) div 2"
    using b by (simp_all add: ball_ok_def paddle_ok_def c_div_2)
  have "reset_game s = Some (draw_borders (draw_paddle (paddle2 (centered t)) (pcolor (paddle2 (centered t)))
      (draw_paddle (paddle1 (centered t)) (pcolor (paddle1 (centered t))) (centered t))))"
    by (simp add: reset_game_def Let_def t_def [symmetric] v d SCREEN_WIDTH_def SCREEN_HEIGHT_def centered_def draw_paddle_def)
  then show ?thesis using court_centered [OF c] by simp
qed

text \<open>Whatever the position before, a border crossed puts the ball back; the size bounds the rest.\<close>

lemma bounce_x_ok:
  assumes "0 \<le> ball_x b" "ball_x b \<le> 2000" "1 \<le> bsize b" "bsize b \<le> 20" "\<bar>speedX b\<bar> \<le> 40"
  shows "\<exists>h b'. bounce_x b = Some (h, b') \<and> 20 \<le> ball_x b' \<and> ball_x b' + bsize b' \<le> 1004 \<and> \<bar>speedX b'\<bar> \<le> 40 \<and>
    ball_y b' = ball_y b \<and> speedY b' = speedY b \<and> bsize b' = bsize b"
  using assms by (auto simp: bounce_x_def BORDER_SIZE_def SCREEN_WIDTH_def)

lemma bounce_y_ok:
  assumes "0 \<le> ball_y b" "ball_y b \<le> 2000" "1 \<le> bsize b" "bsize b \<le> 20" "\<bar>speedY b\<bar> \<le> 20"
  shows "\<exists>h b'. bounce_y b = Some (h, b') \<and> 20 \<le> ball_y b' \<and> ball_y b' + bsize b' \<le> 728 \<and> \<bar>speedY b'\<bar> \<le> 20 \<and>
    ball_x b' = ball_x b \<and> speedX b' = speedX b \<and> bsize b' = bsize b"
  using assms by (auto simp: bounce_y_def BORDER_SIZE_def SCREEN_HEIGHT_def)

lemma hits_ok:
  assumes "ball_ok b" "paddle_ok p" "0 \<le> px p" "px p \<le> 1000"
  shows "\<exists>h. hits1 b p = Some h" "\<exists>h. hits2 b p = Some h"
  using assms by (auto simp: hits1_def hits2_def ball_ok_def paddle_ok_def)

lemma vertical_speed_ok: "0 \<le> v \<Longrightarrow> v \<le> 20 \<Longrightarrow> \<bar>old\<bar> \<le> 20 \<Longrightarrow> \<bar>vertical_speed v d old\<bar> \<le> 20"
  by (simp add: vertical_speed_def)

lemma court_speeds:
  "court s \<Longrightarrow> \<bar>x\<bar> \<le> 40 \<Longrightarrow> \<bar>y\<bar> \<le> 20 \<Longrightarrow> court (s\<lparr>the_ball := (the_ball s)\<lparr>speedY := y, speedX := x\<rparr>\<rparr>)"
  by (simp add: court_def settings_ok_def scores_ok_def ball_ok_def)

lemma bounced_simps [simp]:
  "the_ball (bounced s) = the_ball s" "paddle1 (bounced s) = paddle1 s" "paddle2 (bounced s) = paddle2 s"
  "BALL_SPEED (bounced s) = BALL_SPEED s" "BALL_SPEED_HORIZONTAL (bounced s) = BALL_SPEED_HORIZONTAL s"
  by (simp_all add: bounced_def bounce_def)

lemma collide_court:
  assumes "court s"
  shows "\<exists>s'. collide1 s = Some s' \<and> court s'" "\<exists>s'. collide2 s = Some s' \<and> court s'"
proof -
  have b: "settings_ok s" "ball_ok (the_ball s)" "paddle_ok (paddle1 s)" "paddle_ok (paddle2 s)"
    using assms by (simp_all add: court_def)
  obtain h1 h2 where h: "hits1 (the_ball s) (paddle1 s) = Some h1" "hits2 (the_ball s) (paddle2 s) = Some h2"
    using hits_ok(1) [of "the_ball s" "paddle1 s"] hits_ok(2) [of "the_ball s" "paddle2 s"] b by (auto simp: settings_ok_def)
  have v: "\<bar>vertical_speed (BALL_SPEED s) d (speedY (the_ball s))\<bar> \<le> 20" for d
    using b by (intro vertical_speed_ok) (auto simp: settings_ok_def ball_ok_def)
  have c: "court (bounced s)" using assms by simp
  show "\<exists>s'. collide1 s = Some s' \<and> court s'"
    using assms b(1) v court_speeds [OF c] by (simp add: collide1_def h Let_def settings_ok_def)
  have "int32 (- speedX (the_ball s)) = Some (- speedX (the_ball s))" using b(2) unfolding ball_ok_def by auto
  then show "\<exists>s'. collide2 s = Some s' \<and> court s'"
    using assms b(1) v court_speeds [OF c] by (simp add: collide2_def h Let_def settings_ok_def)
qed

lemma fly_court:
  assumes "court s" "40 \<le> ball_x (the_ball s)" "ball_x (the_ball s) \<le> 1000"
  shows "\<exists>s'. fly s = Some s' \<and> court s'"
proof -
  let ?b = "(the_ball s)\<lparr>ball_x := ball_x (the_ball s) + speedX (the_ball s), ball_y := ball_y (the_ball s) + speedY (the_ball s)\<rparr>"
  have b: "ball_ok (the_ball s)" using assms(1) by (simp add: court_def)
  have in_x: "0 \<le> ball_x ?b" "ball_x ?b \<le> 2000" "1 \<le> bsize ?b" "bsize ?b \<le> 20" "\<bar>speedX ?b\<bar> \<le> 40"
    using b assms(2,3) unfolding ball_ok_def by auto
  obtain h b1 where b1: "bounce_x ?b = Some (h, b1)" "20 \<le> ball_x b1" "ball_x b1 + bsize b1 \<le> 1004" "\<bar>speedX b1\<bar> \<le> 40"
    "ball_y b1 = ball_y (the_ball s) + speedY (the_ball s)" "speedY b1 = speedY (the_ball s)" "bsize b1 = bsize (the_ball s)"
    using bounce_x_ok [OF in_x] by auto
  have in_y: "0 \<le> ball_y b1" "ball_y b1 \<le> 2000" "1 \<le> bsize b1" "bsize b1 \<le> 20" "\<bar>speedY b1\<bar> \<le> 20"
    using b b1 unfolding ball_ok_def by auto
  obtain k b2 where b2: "bounce_y b1 = Some (k, b2)" "20 \<le> ball_y b2" "ball_y b2 + bsize b2 \<le> 728" "\<bar>speedY b2\<bar> \<le> 20"
    "ball_x b2 = ball_x b1" "speedX b2 = speedX b1" "bsize b2 = bsize b1"
    using bounce_y_ok [OF in_y] by auto
  have ok: "ball_ok b2" using b b1 b2 by (simp add: ball_ok_def)
  have "court (t\<lparr>the_ball := b2\<rparr>)" if "court t" for t
    using that ok by (simp add: court_def settings_ok_def scores_ok_def)
  then have "court ((if k then bounced t else t)\<lparr>the_ball := b2\<rparr>)" if "court t" for t using that by simp
  then have c: "court ((if k then bounced (if h then bounced s else s) else (if h then bounced s else s))\<lparr>the_ball := b2\<rparr>)"
    using assms(1) by simp
  from collide_court(1) [OF c] obtain s1 where s1:
    "collide1 ((if k then bounced (if h then bounced s else s) else (if h then bounced s else s))\<lparr>the_ball := b2\<rparr>) = Some s1" "court s1"
    by blast
  from collide_court(2) [OF s1(2)] obtain s2 where s2: "collide2 s1 = Some s2" "court s2" by blast
  have "int32 (ball_x (the_ball s) + speedX (the_ball s)) = Some (ball_x (the_ball s) + speedX (the_ball s))"
    "int32 (ball_y (the_ball s) + speedY (the_ball s)) = Some (ball_y (the_ball s) + speedY (the_ball s))"
    using b unfolding ball_ok_def by auto
  then show ?thesis using s1 s2 by (simp add: fly_def b1(1) b2(1) Let_def)
qed

text \<open>A round goes on while nobody has the score to win.\<close>

definition going :: "pong \<Rightarrow> bool" where
  "going s \<longleftrightarrow> player_1_score s < score s \<and> player_2_score s < score s"

lemma update_score_court:
  assumes "court s" "going s"
  shows "\<exists>s'. update_score k s = Some s' \<and> court s'"
  using assms by (auto simp: update_score_def Let_def court_def settings_ok_def scores_ok_def going_def)

lemma move_ball_court:
  assumes "court s" "going s"
  shows "\<exists>s'. move_ball s = Some s' \<and> court s'"
proof -
  let ?s = "clear_ball s" let ?b = "the_ball s"
  have s: "the_ball ?s = ?b" "paddle1 ?s = paddle1 s" "paddle2 ?s = paddle2 s" "court ?s" "going ?s"
    using assms by (simp_all add: clear_ball_def draw_ball_in_def going_def)
  have b: "settings_ok s" "ball_ok ?b" "paddle_ok (paddle1 s)" using assms by (simp_all add: court_def)
  have i: "int32 (ball_x ?b + c_div (bsize ?b) 2) = Some (ball_x ?b + bsize ?b div 2)"
    "int32 (px (paddle1 s) + pwidth (paddle1 s)) = Some (px (paddle1 s) + pwidth (paddle1 s))"
    using b unfolding settings_ok_def ball_ok_def paddle_ok_def by (auto simp: c_div_2)
  consider (scored) t where "check_scored ?s = Some (True, t)" "court t" | (flies) "check_scored ?s = Some (False, ?s)"
    "px (paddle1 s) + pwidth (paddle1 s) \<le> ball_x ?b + bsize ?b div 2" "ball_x ?b + bsize ?b div 2 \<le> px (paddle2 s)"
    using update_score_court [OF s(4,5), of 1] update_score_court [OF s(4,5), of 2]
    by (fastforce simp: check_scored_def s i split: if_splits)
  then show ?thesis
  proof cases
    case scored
    then have "court (clear_ball (if gsound t then goal t else t))" by simp
    from reset_game_court [OF this] scored(1) show ?thesis by (simp add: move_ball_def)
  next
    case flies
    then have "40 \<le> ball_x ?b" "ball_x ?b \<le> 1000" using b by (auto simp: settings_ok_def ball_ok_def paddle_ok_def)
    from fly_court [of ?s] this s flies(1) show ?thesis by (simp add: move_ball_def)
  qed
qed

lemma move_paddle_going: "movePaddle k s = Some s' \<Longrightarrow> going s \<Longrightarrow> going s'"
  by (cases k) (auto simp: movePaddle_def going_def clear_paddle_def draw_paddle_def Let_def bind_eq_Some_conv)

lemma training_going: "training P2 s = Some s' \<Longrightarrow> going s \<Longrightarrow> going s'"
  by (auto simp: training_def Let_def bind_eq_Some_conv elim!: move_paddle_going) (auto simp: going_def)

lemma frame_court:
  assumes "court s" "going s"
  shows "\<exists>s'. frame is_training s = Some s' \<and> court s'"
proof -
  obtain s1 where s1: "(if is_training then training P2 s else Some s) = Some s1" "court s1" "going s1"
    using training_court [OF assms(1)] training_going assms by (cases is_training) auto
  obtain s2 where s2: "movePaddle P1 s1 = Some s2" "court s2" "going s2"
    using movePaddle_court [OF s1(2), of P1] move_paddle_going s1(3) by blast
  obtain s3 where s3: "movePaddle P2 s2 = Some s3" "court s3" "going s3"
    using movePaddle_court [OF s2(2), of P2] move_paddle_going s2(3) by blast
  from move_ball_court [OF s3(2,3)] show ?thesis using s1(1) s2(1) s3(1) by (simp add: frame_def)
qed

section \<open>A match\<close>

lemma court_io: "court (s\<lparr>io := u\<rparr>) = court s"
  by (simp add: court_def settings_ok_def scores_ok_def)

lemma court_no_scores: "court s \<Longrightarrow> court (no_scores s)"
  by (simp add: court_def settings_ok_def scores_ok_def no_scores_def)

lemma draws_scores [simp]:
  "player_1_score (draw_paddle p k s) = player_1_score s" "player_2_score (draw_paddle p k s) = player_2_score s"
  "score (draw_paddle p k s) = score s" "player_1_score (draw_borders s) = player_1_score s"
  "player_2_score (draw_borders s) = player_2_score s" "score (draw_borders s) = score s"
  "going (clear_paddle p s) = going s"
  by (simp_all add: draw_paddle_def draw_borders_def clear_paddle_def going_def)

lemma reset_game_going: "reset_game s = Some s' \<Longrightarrow> going s' = going s"
  by (auto simp: reset_game_def Let_def bind_eq_Some_conv going_def clear_paddle_def)

lemma going_middle_line [simp]: "going (draw_middle_line s) = going s"
proof -
  have "going (fold (\<lambda>k. show_call (f k)) ks s) = going s" for f and ks :: "nat list"
    by (induction ks arbitrary: s) (simp_all add: going_def)
  then show ?thesis by (simp add: draw_middle_line_def)
qed

lemma pong_get_c_court: "pong_get_c s = Some (c, s') \<Longrightarrow> court s' = court s \<and> going s' = going s \<and> score s' = score s"
  by (auto simp: pong_get_c_def bind_eq_Some_conv court_io going_def)

text \<open>After \<open>game_over\<close> a game that goes on has a round to play.\<close>

lemma game_over_court:
  assumes "court s" "game_over s = Some (False, s')"
  shows "court s' \<and> going s'"
proof (cases "won s")
  case False
  then have "going s" using assms(1)
    by (simp add: won_def going_def court_def settings_ok_def scores_ok_def)
  then show ?thesis using False assms by (simp add: game_over_def)
next
  case True
  define t where "t = word_at WHITE ''Press any other key to play again.'' (- 100) (- 75)
    (word_at WHITE ''Press X to exit. '' (- 100) (- 100)
      (word_at WHITE (if player_1_score s > player_2_score s then ''PLAYER 1 WINS'' else ''PLAYER 2 WINS'') (- 100) (- 130)
        (word_at WHITE ''GAME OVER'' (- 100) (- 170)
          (show_call (Set_font_size DEFAULT_FONT_SIZE) (show_call (Set_font_size 6) (clear_background s))))))"
  have sc: "player_1_score (word_at k x a b u) = player_1_score u" "player_2_score (word_at k x a b u) = player_2_score u"
    "player_1_score (clear_background u) = player_1_score u" "player_2_score (clear_background u) = player_2_score u" for k x a b u
    by (simp_all add: word_at_def clear_background_def)
  have t: "court t" using assms(1) by (simp add: t_def)
  obtain p u where u: "pong_get_c t = Some (p, u)" "p \<noteq> ch CHR ''X''"
    "reset_game (no_scores (clear_background u)) \<noteq> None"
    "s' = draw_middle_line (the (reset_game (no_scores (clear_background u))))"
    using assms(2) True by (auto simp: game_over_def Let_def bind_eq_Some_conv t_def sc split: if_splits)
  let ?v = "no_scores (clear_background u)"
  have "court ?v" using pong_get_c_court [OF u(1)] t by (simp add: court_no_scores)
  moreover from this have "going ?v" by (simp add: going_def no_scores_def court_def settings_ok_def)
  moreover obtain w where "reset_game ?v = Some w" using u(3) by blast
  ultimately show ?thesis using reset_game_court [of ?v] reset_game_going [of ?v w] u(4) by auto
qed

text \<open>
  A match: a start with the defaults, keys, whole turns of the game, and any change of the
  configuration whose result is within the bounds.
\<close>

inductive match :: "pong \<Rightarrow> bool" where
  start: "0 \<le> BALL_SPEED s \<Longrightarrow> BALL_SPEED s \<le> 20 \<Longrightarrow> 0 \<le> BALL_SPEED_HORIZONTAL s \<Longrightarrow> BALL_SPEED_HORIZONTAL s \<le> 40 \<Longrightarrow>
    1 \<le> score s \<Longrightarrow> score s \<le> 9 \<Longrightarrow> match (set_default (no_scores s))"
| key: "match s \<Longrightarrow> match (handle_key is_training c s)"
| turn: "match s \<Longrightarrow> frame is_training s = Some s1 \<Longrightarrow> game_over s1 = Some (False, s2) \<Longrightarrow> match s2"
| tuned: "match s \<Longrightarrow> configure c s = Some s' \<Longrightarrow> court s' \<Longrightarrow> going s' \<Longrightarrow> match s'"

lemma set_default_court:
  assumes "0 \<le> BALL_SPEED s" "BALL_SPEED s \<le> 20" "0 \<le> BALL_SPEED_HORIZONTAL s" "BALL_SPEED_HORIZONTAL s \<le> 40"
    "1 \<le> score s" "score s \<le> 9"
  shows "court (set_default (no_scores s)) \<and> going (set_default (no_scores s))"
  using assms
  by (auto simp: set_default_def set_player_1_up_def set_player_1_down_def set_player_2_up_def set_player_2_down_def
      set_paddle_def set_ball_def court_def settings_ok_def scores_ok_def paddle_ok_def ball_ok_def going_def no_scores_def
      SCREEN_WIDTH_def SCREEN_HEIGHT_def PADDLE_HEIGHT_def PADDLE_WIDTH_def PADDLE_SPEED_def BALL_SIZE_def)

lemma match_court: "match s \<Longrightarrow> court s \<and> going s"
proof (induction rule: match.induct)
  case (start s)
  then show ?case by (rule set_default_court)
next
  case (key s is_training c)
  then show ?case by (auto simp: handle_key_court) (simp add: handle_key_def going_def Let_def)
next
  case (turn s is_training s1 s2)
  then show ?case using frame_court [of s is_training] game_over_court [of s1 s2] by auto
qed auto


definition demo_paddle :: paddle where
  "demo_paddle = set_paddle 0 0 0 0 0 STOP WHITE"

definition demo_pong :: pong where
  "demo_pong = \<lparr>io = \<lparr>stdin = [], stdout = [], ram = (\<lambda>_. 0)\<rparr>, screen = [], score = 3, BALL_SPEED = 3,
     BALL_SPEED_HORIZONTAL = 6, BACKGROUND_COLOR = BLACK, BORDER_COLOR = WHITE, player1Up = 0, player1Upbeak = 0,
     player1Down = 0, player1Downbeak = 0, player2Up = 0, player2Upbeak = 0, player2Down = 0, player2Downbeak = 0,
     experimental = False, paddle1 = demo_paddle, paddle2 = demo_paddle, the_ball = set_ball 0 0 0 0 0 WHITE,
     sound = True, gsound = True, player_1_score = 0, player_2_score = 0\<rparr>"


end
