(* ===== verification/Boot.thy ===== *)
theory Boot
  imports Sched_Safety
begin

text \<open>
  Kernel/kernel.c, \<open>main\<close>, on the bitmap allocator: the order in which the modules are set up,
  the creation of the shell and of the idle process, and the start of the scheduler. The load of
  the interrupt table, the font size and \<open>init_pipes\<close>, which touch other states, are in Start.
\<close>

section \<open>The boot sequence\<close>

text \<open>\<open>userland\<close> is \<open>ret_userland()\<close> and \<open>idle_at\<close> the address of \<open>idle\<close>.\<close>

definition kernel_boot :: "nat \<Rightarrow> nat \<Rightarrow> kernel \<Rightarrow> kernel option" where
  "kernel_boot userland idle_at s = do {
     let s = s\<lparr>mm := init_mm 0x600000 0x2700000 (mm s)\<rparr>;
     s \<leftarrow> init_scheduler 1 s;
     let s = init_keyboard_sem (initialize_sems s);
     (shell_pid, s) \<leftarrow> create_and_insert_process 1 1 (Some ''shell'') 0x1000 0x1000 userland 0 0 s;
     (idle_pid, s) \<leftarrow> create_and_insert_process 1 0 (Some ''idle'') 1 0x1000 idle_at 0 0 s;
     s \<leftarrow> change_process_priority idle_pid IDLE_PRIORITY s;
     enable_multitasking shell_pid s
   }"

section \<open>A heap in use from the front\<close>

definition used :: "heap \<Rightarrow> nat" where
  "used h = length (takeWhile (\<lambda>p. p \<noteq> FREE) (pages h))"

definition place :: "heap \<Rightarrow> nat" where
  "place h = heap_start h + PAGE_SIZE * used h"

definition fresh :: "heap \<Rightarrow> bool" where
  "fresh h \<longleftrightarrow> heap_inv h \<and> pages h = takeWhile (\<lambda>p. p \<noteq> FREE) (pages h) @ replicate (page_qty h - used h) FREE"

definition grab :: "heap \<Rightarrow> nat \<Rightarrow> heap" where
  "grab h n = h\<lparr>pages := takeWhile (\<lambda>p. p \<noteq> FREE) (pages h) @ block_pages (pages_for n) @
     replicate (page_qty h - used h - pages_for n) FREE\<rparr>"

lemma block_pages_not_free: "p \<in> set (block_pages n) \<Longrightarrow> p \<noteq> FREE"
  by (auto simp: block_pages_def split: if_splits)

lemma fresh_split:
  assumes "fresh h" "used h + k \<le> page_qty h"
  shows "pages h = takeWhile (\<lambda>p. p \<noteq> FREE) (pages h) @ replicate k FREE @ replicate (page_qty h - used h - k) FREE"
proof -
  have "replicate k FREE @ replicate (page_qty h - used h - k) FREE = replicate (page_qty h - used h) FREE"
    using assms(2) by (simp flip: replicate_add)
  then show ?thesis using assms(1) unfolding fresh_def by metis
qed

lemma grab_simps [simp]:
  "page_qty (grab h n) = page_qty h" "heap_start (grab h n) = heap_start h"
  by (simp_all add: grab_def)

lemma used_grab [simp]: "0 < n \<Longrightarrow> used (grab h n) = used h + pages_for n"
proof -
  assume "0 < n"
  have "takeWhile (\<lambda>p. p \<noteq> FREE) (pages (grab h n)) =
    takeWhile (\<lambda>p. p \<noteq> FREE) (pages h) @ block_pages (pages_for n)"
    by (auto simp: grab_def takeWhile_append block_pages_not_free dest: set_takeWhileD)
  then show ?thesis using \<open>0 < n\<close> by (simp add: used_def length_block_pages)
qed

lemma place_grab: "0 < n \<Longrightarrow> place (grab h n) = place h + PAGE_SIZE * pages_for n"
  by (simp add: place_def distrib_left)

lemma grab_ok:
  assumes "fresh h" "0 < n" "used h + pages_for n \<le> page_qty h"
  shows "malloc h n = Some (place h, grab h n)" "fresh (grab h n)" "starts (grab h n) = insert (place h) (starts h)"
    "free (grab h n) (place h) = Some h" "place h \<notin> starts h"
proof -
  let ?k = "pages_for n" let ?pre = "takeWhile (\<lambda>p. p \<noteq> FREE) (pages h)"
  note ps = fresh_split [OF assms(1,3)]
  have inv: "heap_inv h" using assms(1) by (simp add: fresh_def)
  have len: "length (pages h) = page_qty h" using inv by (simp add: heap_inv_def)
  have k: "0 < ?k" using assms(2) by simp
  have place: "place h = heap_start h + PAGE_SIZE * length ?pre" by (simp add: place_def used_def)
  have grab: "grab h n = h\<lparr>pages := ?pre @ block_pages ?k @ replicate (page_qty h - used h - ?k) FREE\<rparr>"
    by (simp add: grab_def)
  note ins = malloc_insert [OF inv ps k]
  show st: "starts (grab h n) = insert (place h) (starts h)"
    using ins unfolding grab place by simp
  have takes: "takeWhile (\<lambda>p. p \<noteq> FREE) (pages (grab h n)) = ?pre @ block_pages ?k"
    by (auto simp: grab_def takeWhile_append block_pages_not_free dest: set_takeWhileD)
  have "heap_inv (grab h n)" using ins unfolding grab by simp
  moreover have "pages (grab h n) = takeWhile (\<lambda>p. p \<noteq> FREE) (pages (grab h n)) @
      replicate (page_qty (grab h n) - used (grab h n)) FREE"
    unfolding takes used_grab [OF assms(2)] by (simp add: grab)
  ultimately show "fresh (grab h n)" unfolding fresh_def by blast
  have "free (grab h n) (place h) = Some ((grab h n)\<lparr>pages := ?pre @ replicate ?k FREE @ replicate (page_qty h - used h - ?k) FREE\<rparr>)"
    by (rule free_block) (use ins k in \<open>simp_all add: grab place PAGE_SIZE_def\<close>)
  also have "\<dots> = Some h" using ps unfolding grab by simp
  finally show "free (grab h n) (place h) = Some h" .
  have run: "run_at (pages h) (length (pages h)) ?k (used h)"
  proof -
    have "pages h ! j = FREE" if "used h \<le> j" "j < used h + ?k" for j
      using that by (subst ps) (auto simp: nth_append used_def)
    then show ?thesis using assms(3) len by (simp add: run_at_def)
  qed
  from inv show ok: "malloc h n = Some (place h, grab h n)"
  proof (cases rule: malloc_cases [of h n])
    case fail
    then show ?thesis using run assms(2) by auto
  next
    case (ok i xs ys)
    have "i \<le> used h" using ok(5) run leI by blast
    moreover have "\<not> i < used h"
    proof
      assume i: "i < used h"
      have "pages h ! i = FREE" using ok(2,3) k by (simp add: nth_append)
      moreover have "pages h ! i \<noteq> FREE" using takeWhile_before [of i "\<lambda>p. p \<noteq> FREE" "pages h"] i by (simp add: used_def)
      ultimately show False by simp
    qed
    ultimately have i: "i = used h" by simp
    then have xs: "xs = ?pre" "ys = replicate (page_qty h - used h - ?k) FREE"
      using ok(2,3) ps by (metis append_eq_append_conv used_def)+
    show ?thesis using ok(4) by (simp add: place_def grab_def i xs)
  qed
  have "place h \<noteq> 0" using inv by (simp add: place_def heap_inv_def)
  then show "place h \<notin> starts h" using bitmap.malloc_owned [OF inv, of n] ok by auto
qed


lemma kmalloc_fresh [simp]:
  "fresh (mm s) \<Longrightarrow> 0 < n \<Longrightarrow> used (mm s) + pages_for n \<le> page_qty (mm s) \<Longrightarrow>
   kmalloc s n = Some (place (mm s), s\<lparr>mm := grab (mm s) n\<rparr>)"
  by (simp add: kmalloc_def grab_ok)

lemma fresh_grab [simp]: "fresh h \<Longrightarrow> 0 < n \<Longrightarrow> used h + pages_for n \<le> page_qty h \<Longrightarrow> fresh (grab h n)"
  by (rule grab_ok)

lemma starts_grab [simp]:
  "fresh h \<Longrightarrow> 0 < n \<Longrightarrow> used h + pages_for n \<le> page_qty h \<Longrightarrow> starts (grab h n) = insert (place h) (starts h)"
  by (rule grab_ok)

lemma fresh_place [simp]: "fresh h \<Longrightarrow> place h \<noteq> 0"
  by (simp add: fresh_def heap_inv_def place_def)

section \<open>The scheduler's queues\<close>

lemmas boot_sizes = sizeof_scheduler_queue_def sizeof_queue_t_def sizeof_node_t_def sizeof_process_t_def
  sizeof_mem_block_t_def sizeof_pcb_t_def

lemma pages_for_sizes [simp]:
  "pages_for 16 = 1" "pages_for 24 = 1" "pages_for 64 = 2" "pages_for 184 = 6" "pages_for 4096 = 128"
  by (simp_all add: pages_for_def PAGE_SIZE_def)

definition boot_heap :: "heap \<Rightarrow> heap" where
  "boot_heap h = fold (\<lambda>n h. grab h n) [16, 16, 16, 16, 16, 16, 16, 16, 16, 16] h"

definition boot_ring :: "nat \<Rightarrow> nat \<Rightarrow> (nat \<times> nat) list \<Rightarrow> scheduler_queue" where
  "boot_ring b i q = \<lparr>sq_addr = b + 64 * i, quantum = 1, queue = \<lparr>qaddr = b + 64 * i + 32, items = q\<rparr>\<rparr>"

lemma init_scheduler_fresh:
  assumes "fresh (mm s)" "used (mm s) + 10 \<le> page_qty (mm s)" "b = place (mm s)"
  shows "init_scheduler 1 s = Some (s\<lparr>mm := boot_heap (mm s),
    scheduler := (scheduler s)(0 := boot_ring b 0 [], 1 := boot_ring b 1 [], 2 := boot_ring b 2 [], 3 := boot_ring b 3 []),
    waiting_for_remove := \<lparr>qaddr = b + 256, items = []\<rparr>, creation_queue := \<lparr>qaddr = b + 288, items = []\<rparr>\<rparr>)"
proof -
  have u: "[0..<QUEUE_QTY] = [0, 1, 2, 3]" by (simp add: QUEUE_QTY_def upt_rec)
  show ?thesis using assms
    by (simp add: init_scheduler_def u create_queue_array_def kcreate_queue_def boot_sizes place_grab PAGE_SIZE_def boot_heap_def
        boot_ring_def Let_def add.commute [of _ "place (mm s)"])
qed

section \<open>Opening a semaphore with a new name\<close>

definition sem_names :: "space_t list \<Rightarrow> string set" where
  "sem_names sps = {sem_id (sem sp) |sp. sp \<in> set sps \<and> sem_status sp = UNAVAILABLE}"

definition opened :: "nat \<Rightarrow> string \<Rightarrow> kernel \<Rightarrow> int \<times> space_t list" where
  "opened v n s = (case the (my_sem_open v n s) of (r, t) \<Rightarrow> (r, sem_spaces t))"

lemma locate_new: "n \<notin> sem_names sps \<Longrightarrow> locate_loop sps n i = None"
  by (induction sps n i rule: locate_loop.induct) (auto simp: sem_names_def)

lemma sem_names_update: "sem_names (sps[i := x]) \<subseteq> insert (sem_id (sem x)) (sem_names sps)"
  unfolding sem_names_def using set_update_subset_insert [of sps i x] by blast

lemma my_sem_open_new:
  assumes "n \<notin> sem_names (sem_spaces s)" "length n < MAX_IDENTIFIER"
  shows "my_sem_open v n s = Some (fst (opened v n s), s\<lparr>sem_spaces := snd (opened v n s)\<rparr>) \<and>
    sem_names (snd (opened v n s)) \<subseteq> insert n (sem_names (sem_spaces s))"
proof (cases "find_available (sem_spaces s) 0")
  case None
  then have "my_sem_open v n s = Some (- 1, s)" using assms by (simp add: my_sem_open_def locate_sem_def locate_new)
  then show ?thesis by (auto simp: opened_def)
next
  case (Some i)
  then have i: "i < length (sem_spaces s)" using find_available_less by fastforce
  let ?x = "(sem_at s i)\<lparr>counter := to_int32 (int v), is_locked := (if v > 0 then 1 else 0), sem_id := n,
    queue_size := 0, waiting := [], allowed_process_count := 1,
    allowed_processes := (allowed_processes (sem_at s i))[0 := current_process_id s], being_cleared := 0\<rparr>"
  let ?sp = "\<lparr>sem = ?x, sem_status = UNAVAILABLE\<rparr>"
  have sp: "(sem_spaces s ! i)\<lparr>sem_status := UNAVAILABLE, sem := y\<rparr> = \<lparr>sem = y, sem_status = UNAVAILABLE\<rparr>" for y by simp
  have "my_sem_open v n s = Some (int i, s\<lparr>sem_spaces := (sem_spaces s)[i := ?sp]\<rparr>)"
    using Some i assms
    by (simp add: my_sem_open_def locate_sem_def locate_new Let_def set_sem_def set_sem_status_def sem_at_def sp)
  moreover have "sem_names ((sem_spaces s)[i := ?sp]) \<subseteq> insert n (sem_names (sem_spaces s))"
    using sem_names_update [of "sem_spaces s" i ?sp] by simp
  ultimately show ?thesis by (simp add: opened_def)
qed

section \<open>Creating a process on the fresh heap\<close>

definition process_heap_after :: "nat \<Rightarrow> heap \<Rightarrow> heap" where
  "process_heap_after n h = grab (grab (grab (grab (grab (grab h 64) (n + 1)) 24) 4096) 24) 4096"

lemma pages_for_name: "n < 32 \<Longrightarrow> pages_for (n + 1) = 1"
  by (cases "n = 31") (simp_all add: pages_for_def PAGE_SIZE_def)

lemma uint_to_base_pid:
  assumes "v < 10000"
  shows "uint_to_base v BASE = Some (length (digits_of 10 v), rev (map digit_char (digits_of 10 v)))"
    "length (digits_of 10 v) < MAX_SEM_NAME" "length (rev (map digit_char (digits_of 10 v))) < MAX_IDENTIFIER"
proof -
  have "length (digits_of 10 v) \<le> 4" using digits_of_length [of 10 4 v] assms by simp
  then show "uint_to_base v BASE = Some (length (digits_of 10 v), rev (map digit_char (digits_of 10 v)))"
    "length (digits_of 10 v) < MAX_SEM_NAME" "length (rev (map digit_char (digits_of 10 v))) < MAX_IDENTIFIER"
    by (simp_all add: uint_to_base_eq BASE_def MAX_SEM_NAME_def MAX_IDENTIFIER_def)
qed

definition pid_name :: "nat \<Rightarrow> string" where
  "pid_name v = rev (map digit_char (digits_of 10 v))"

lemma create_process_fresh:
  assumes h: "fresh (mm s)" "used (mm s) + 261 \<le> page_qty (mm s)"
    and a: "0 \<le> parent" "length nm < 32" "hsize \<le> 4096" "ssize \<le> 4096"
    and v: "next_pid s = v" "v < 10000" "pid_name v \<notin> sem_names (sem_spaces s)"
    and b: "b = place (mm s)"
  shows "\<exists>s'. create_process parent fg nm hsize ssize r w s = Some (b, s') \<and>
    mm s' = process_heap_after (length nm) (mm s) \<and> pcbs s' = pcbs s \<and> scheduler s' = scheduler s \<and>
    waiting_for_remove s' = waiting_for_remove s \<and> creation_queue s' = creation_queue s \<and> current_pcb s' = current_pcb s \<and>
    next_pid s' = v + 1 \<and> sem_names (sem_spaces s') \<subseteq> insert (pid_name v) (sem_names (sem_spaces s)) \<and>
    (\<forall>q. q \<noteq> b \<longrightarrow> processes s' q = processes s q) \<and> pid (processes s' b) = int v \<and>
    status (processes s' b) = READY \<and> stack (processes s' b) = b + 4224"
proof -
  have pid: "to_pid v = int v" using v(2) by (simp add: to_pid_def to_int32_id)
  have wr: "wrap64 (v + 1) = v + 1" using v(2) by (intro wrap64_id) simp
  have sizes: "(if hsize < MIN_HEAP_SIZE then MIN_HEAP_SIZE else hsize) = 4096"
    "(if ssize < MIN_STACK_SIZE then MIN_STACK_SIZE else ssize) = 4096"
    using a(3,4) by (simp_all add: MIN_HEAP_SIZE_def MIN_STACK_SIZE_def)
  have nn: "nat (int v mod 2 ^ 64) = v" using v(2) by simp
  note digits = uint_to_base_pid [OF v(2)]
  define n where "n = length nm"
  have n: "n < 32" "pages_for (n + 1) = 1" using a(2) pages_for_name [of "length nm"] by (simp_all add: n_def)
  have open_new: "my_sem_open 1 (pid_name v) t = Some (fst (opened 1 (pid_name v) t), t\<lparr>sem_spaces := snd (opened 1 (pid_name v) t)\<rparr>) \<and>
      sem_names (snd (opened 1 (pid_name v) t)) \<subseteq> insert (pid_name v) (sem_names (sem_spaces s))"
    if "sem_spaces t = sem_spaces s" for t
    using my_sem_open_new [of "pid_name v" t 1] that v(3) digits(3) by (simp add: pid_name_def)
  show ?thesis
    using assms n digits(2) unfolding create_process_def Let_def n_def [symmetric] sizes
    by (simp add: n_def [symmetric] get_available_pid_def set_process_def set_block_def boot_sizes place_grab PAGE_SIZE_def pid wr
        digits(1) nn pid_name_def [symmetric] open_new process_heap_after_def add.commute [of _ "place (mm s)"] del: One_nat_def)
qed

lemma used_process_heap: "used (process_heap_after n h) = used h + (pages_for (n + 1) + 260)"
  "page_qty (process_heap_after n h) = page_qty h" "heap_start (process_heap_after n h) = heap_start h"
  by (simp_all add: process_heap_after_def)

lemma fresh_process_heap:
  assumes "fresh h" "n < 32" "used h + 261 \<le> page_qty h"
  shows "fresh (process_heap_after n h)" "place (process_heap_after n h) = place h + 8352"
    "starts h \<union> {place h, place h + 4224} \<subseteq> starts (process_heap_after n h)"
  using assms pages_for_name [OF assms(2)]
  by (simp_all add: process_heap_after_def place_grab PAGE_SIZE_def del: One_nat_def) blast

text \<open>A process \<open>v\<close> whose structure is at \<open>b\<close> has joined the ring of the highest priority.\<close>

definition inserted :: "nat \<Rightarrow> nat \<Rightarrow> nat \<Rightarrow> (nat \<times> nat) list \<Rightarrow> kernel \<Rightarrow> kernel \<Rightarrow> bool" where
  "inserted n b v q s s' \<longleftrightarrow> mm s' = grab (grab (process_heap_after n (mm s)) 184) 24 \<and>
    pcbs s' = (pcbs s)(b + 8352 := \<lparr>ticks = 0, priority = HIGH_PRIORITY, process = b\<rparr>) \<and>
    scheduler s' = scheduler (set_sched_queue HIGH_PRIORITY (q @ [(b + 8544, b + 8352)]) s) \<and>
    waiting_for_remove s' = waiting_for_remove s \<and> creation_queue s' = creation_queue s \<and> current_pcb s' = current_pcb s \<and>
    next_pid s' = v + 1 \<and> sem_names (sem_spaces s') \<subseteq> insert (pid_name v) (sem_names (sem_spaces s)) \<and>
    (\<forall>q. q \<noteq> b \<longrightarrow> processes s' q = processes s q) \<and> pid (processes s' b) = int v \<and>
    status (processes s' b) = READY \<and> stack (processes s' b) = b + 4224"

lemma create_insert_fresh:
  assumes h: "fresh (mm s)" "used (mm s) + 268 \<le> page_qty (mm s)"
    and a: "0 \<le> parent" "length nm < 32" "hsize \<le> 4096" "ssize \<le> 4096" "entry \<noteq> 0"
    and v: "next_pid s = v" "v < 10000" "pid_name v \<notin> sem_names (sem_spaces s)"
    and q: "sched_queue s HIGH_PRIORITY = Some q" and b: "b = place (mm s)"
  shows "\<exists>s'. create_and_insert_process parent fg (Some nm) hsize ssize entry r w s = Some (int v, s') \<and>
    inserted (length nm) b v q s s'"
proof -
  have u: "used (mm s) + 261 \<le> page_qty (mm s)" using h(2) by simp
  obtain s1 where s1: "create_process parent fg nm hsize ssize r w s = Some (b, s1)"
    "mm s1 = process_heap_after (length nm) (mm s)" "pcbs s1 = pcbs s" "scheduler s1 = scheduler s"
    "waiting_for_remove s1 = waiting_for_remove s" "creation_queue s1 = creation_queue s" "current_pcb s1 = current_pcb s"
    "next_pid s1 = v + 1" "sem_names (sem_spaces s1) \<subseteq> insert (pid_name v) (sem_names (sem_spaces s))"
    "\<forall>q. q \<noteq> b \<longrightarrow> processes s1 q = processes s q" "pid (processes s1 b) = int v"
    "status (processes s1 b) = READY" "stack (processes s1 b) = b + 4224"
    using create_process_fresh [OF h(1) u a(1-4) v b] by blast
  note f = fresh_process_heap [OF h(1) a(2) u]
  have k: "pages_for (length nm + 1) = 1" using a(2) by (rule pages_for_name)
  have sq: "sched_queue t HIGH_PRIORITY = Some q" if "scheduler t = scheduler s" for t
    using q unfolding sched_queue_def that .
  have b0: "b \<noteq> 0" using h(1) b by simp
  show ?thesis
    using s1 f k h(2) a(5) b0 b unfolding inserted_def
    by (simp add: create_and_insert_process_def add_new_process_def Let_def boot_sizes kcreate_node_def used_process_heap
        place_grab PAGE_SIZE_def sq set_sched_queue_def add.commute [of _ "place (mm s)"] del: One_nat_def)
qed

section \<open>The state after the boot\<close>

lemma init_mm_boot:
  assumes "h = init_mm 0x600000 0x2700000 h0"
  shows "fresh h" "used h = 0" "page_qty h = 1277952"
proof -
  have p: "pages h = replicate 1277952 FREE" "page_qty h = 1277952" "page_size h = 32" "last_freed_page h = 0"
    "heap_start h = 7569408" "heap_end h = 48463872" "pages_ptr h = 6291456"
    unfolding assms
    by (simp_all add: init_mm_def PAGE_SIZE_def MAX_MEM_def initialize_pages_def wrap64_def Let_def map_replicate_const)
  have t: "takeWhile (\<lambda>p. p \<noteq> FREE) (replicate n FREE) = []" for n by (cases n) simp_all
  have "scan 0 None (replicate n FREE) = Some []" for n using scan_free [of 0 n "[]"] by simp
  then have "heap_inv h" by (simp add: heap_inv_def p PAGE_SIZE_def)
  then show "fresh h" by (simp add: fresh_def p t used_def)
  show "used h = 0" "page_qty h = 1277952" by (simp_all add: used_def p t)
qed

text \<open>The heap after the queues are made, and after a process.\<close>

definition after_insert :: "nat \<Rightarrow> heap \<Rightarrow> heap" where
  "after_insert n h = grab (process_heap_after n h) 184"

lemma boot_heap_facts:
  assumes "fresh h" "used h + 10 \<le> page_qty h"
  shows "fresh (boot_heap h)" "used (boot_heap h) = used h + 10" "place (boot_heap h) = place h + 320"
    "page_qty (boot_heap h) = page_qty h"
  using assms by (simp_all add: boot_heap_def place_grab PAGE_SIZE_def)

lemma after_insert_facts:
  assumes "fresh h" "n < 32" "used h + 268 \<le> page_qty h"
  shows "fresh (after_insert n h)" "used (after_insert n h) = used h + 267" "place (after_insert n h) = place h + 8544"
    "page_qty (after_insert n h) = page_qty h"
    "starts h \<union> {place h, place h + 4224, place h + 8352} \<subseteq> starts (after_insert n h)"
proof -
  have u: "used h + 261 \<le> page_qty h" using assms(3) by simp
  note f = fresh_process_heap [OF assms(1,2) u] and k = pages_for_name [OF assms(2)]
  show "fresh (after_insert n h)" "used (after_insert n h) = used h + 267" "place (after_insert n h) = place h + 8544"
    "page_qty (after_insert n h) = page_qty h"
    using f k assms(3) by (simp_all add: after_insert_def used_process_heap place_grab PAGE_SIZE_def)
  have "starts (after_insert n h) = insert (place h + 8352) (starts (process_heap_after n h))"
    using f k assms(3) by (simp add: after_insert_def used_process_heap)
  then show "starts h \<union> {place h, place h + 4224, place h + 8352} \<subseteq> starts (after_insert n h)" using f(3) by blast
qed

lemma mset_in_heap:
  assumes "distinct xs" "set xs \<subseteq> starts (mm s)"
  shows "mset xs \<subseteq># heap_blocks s"
proof -
  have "mset xs = mset_set (set xs)" using assms(1) by (simp add: mset_set_set)
  then show ?thesis using assms(2) by (simp add: heap_blocks_def subset_imp_msubset_mset_set)
qed

lemma names_keyboard: "sem_names (sem_spaces (init_keyboard_sem (initialize_sems s))) \<subseteq> {''keyboard''}"
proof -
  let ?sps = "sem_spaces (initialize_sems s)"
  have none: "sem_names ?sps = {}"
    by (auto simp: sem_names_def initialize_sems_def AVAILABLE_def UNAVAILABLE_def)
  show ?thesis
  proof (cases ?sps)
    case Nil
    then show ?thesis by (simp add: init_keyboard_sem_def Let_def set_sem_def set_sem_status_def sem_names_def)
  next
    case (Cons sp sps)
    then have "\<exists>x. sem_spaces (init_keyboard_sem (initialize_sems s)) = ?sps[0 := x] \<and> sem_id (sem x) = ''keyboard''"
      by (simp add: init_keyboard_sem_def Let_def set_sem_def set_sem_status_def)
    then show ?thesis using sem_names_update [of ?sps 0] none by fastforce
  qed
qed

lemma keyboard_keeps [simp]:
  "mm (init_keyboard_sem (initialize_sems s)) = mm s" "next_pid (init_keyboard_sem (initialize_sems s)) = next_pid s"
  "scheduler (init_keyboard_sem (initialize_sems s)) = scheduler s" "pcbs (init_keyboard_sem (initialize_sems s)) = pcbs s"
  "waiting_for_remove (init_keyboard_sem (initialize_sems s)) = waiting_for_remove s"
  "creation_queue (init_keyboard_sem (initialize_sems s)) = creation_queue s"
  by (simp_all add: init_keyboard_sem_def initialize_sems_def set_sem_def set_sem_status_def Let_def)

lemma pid_names: "pid_name 2 \<noteq> ''keyboard''" "pid_name 3 \<noteq> ''keyboard''" "pid_name 3 \<noteq> pid_name 2"
  by (simp_all add: pid_name_def digits_of.simps digit_char_def)

text \<open>The state after the two creations: \<open>b\<close> is the address of the first queue.\<close>

definition booted :: "nat \<Rightarrow> heap \<Rightarrow> kernel \<Rightarrow> bool" where
  "booted b g s \<longleftrightarrow> fresh g \<and> place g = b + 17440 \<and> used g = 545 \<and> page_qty g = 1277952 \<and> mm s = grab g 24 \<and>
     {b + 320, b + 4544, b + 8672, b + 8864, b + 8896, b + 13120, b + 17248} \<subseteq> starts g \<and>
     (\<forall>i<QUEUE_QTY. scheduler s i = boot_ring b i (if i = HIGH_PRIORITY then [(b + 8864, b + 8672), (b + 17440, b + 17248)] else [])) \<and>
     pcbs s (b + 8672) = \<lparr>ticks = 0, priority = HIGH_PRIORITY, process = b + 320\<rparr> \<and>
     pcbs s (b + 17248) = \<lparr>ticks = 0, priority = HIGH_PRIORITY, process = b + 8896\<rparr> \<and>
     pid (processes s (b + 320)) = 2 \<and> status (processes s (b + 320)) = READY \<and> stack (processes s (b + 320)) = b + 4544 \<and>
     pid (processes s (b + 8896)) = 3 \<and> status (processes s (b + 8896)) = READY \<and> stack (processes s (b + 8896)) = b + 13120 \<and>
     waiting_for_remove s = \<lparr>qaddr = b + 256, items = []\<rparr> \<and> creation_queue s = \<lparr>qaddr = b + 288, items = []\<rparr> \<and> 0 < b"

text \<open>The states before and between the two creations: \<open>b\<close> is the address of the first queue.\<close>

definition boot_rings :: "nat \<Rightarrow> (nat \<times> nat) list \<Rightarrow> kernel \<Rightarrow> bool" where
  "boot_rings b q s \<longleftrightarrow> (\<forall>i<QUEUE_QTY. scheduler s i = boot_ring b i (if i = HIGH_PRIORITY then q else [])) \<and>
     waiting_for_remove s = \<lparr>qaddr = b + 256, items = []\<rparr> \<and> creation_queue s = \<lparr>qaddr = b + 288, items = []\<rparr> \<and> 0 < b"

definition boot_empty :: "nat \<Rightarrow> kernel \<Rightarrow> bool" where
  "boot_empty b s \<longleftrightarrow> fresh (mm s) \<and> used (mm s) = 10 \<and> place (mm s) = b + 320 \<and> page_qty (mm s) = 1277952 \<and>
     next_pid s = 2 \<and> sem_names (sem_spaces s) \<subseteq> {''keyboard''} \<and> boot_rings b [] s"

definition shell_created :: "nat \<Rightarrow> kernel \<Rightarrow> bool" where
  "shell_created b s \<longleftrightarrow> fresh (mm s) \<and> used (mm s) = 278 \<and> place (mm s) = b + 8896 \<and> page_qty (mm s) = 1277952 \<and>
     {b + 320, b + 4544, b + 8672, b + 8864} \<subseteq> starts (mm s) \<and>
     next_pid s = 3 \<and> sem_names (sem_spaces s) \<subseteq> {''keyboard'', pid_name 2} \<and> boot_rings b [(b + 8864, b + 8672)] s \<and>
     pcbs s (b + 8672) = \<lparr>ticks = 0, priority = HIGH_PRIORITY, process = b + 320\<rparr> \<and>
     pid (processes s (b + 320)) = 2 \<and> status (processes s (b + 320)) = READY \<and> stack (processes s (b + 320)) = b + 4544"

lemma boot_rings_queue: "boot_rings b q s \<Longrightarrow> sched_queue s HIGH_PRIORITY = Some q"
  by (simp add: boot_rings_def sched_queue_def boot_ring_def HIGH_PRIORITY_def QUEUE_QTY_def)

lemma boot_rings_insert:
  assumes "boot_rings b q s" "inserted n p v q s s'"
  shows "boot_rings b (q @ [(p + 8544, p + 8352)]) s'"
proof -
  have "scheduler s' i = boot_ring b i (if i = HIGH_PRIORITY then q @ [(p + 8544, p + 8352)] else [])" if "i < QUEUE_QTY" for i
    using assms below_4 [OF that]
    by (auto simp: boot_rings_def inserted_def set_sched_queue_def boot_ring_def HIGH_PRIORITY_def QUEUE_QTY_def)
  then show ?thesis using assms by (simp add: boot_rings_def inserted_def)
qed

lemma boot_prepares:
  assumes "next_pid s = 2"
  shows "\<exists>b s'. boot_empty b s' \<and> kernel_boot userland idle_at s = do {
      (shell_pid, s) \<leftarrow> create_and_insert_process 1 1 (Some ''shell'') 0x1000 0x1000 userland 0 0 s';
      (idle_pid, s) \<leftarrow> create_and_insert_process 1 0 (Some ''idle'') 1 0x1000 idle_at 0 0 s;
      s \<leftarrow> change_process_priority idle_pid IDLE_PRIORITY s;
      enable_multitasking shell_pid s }"
proof -
  define h where "h = init_mm 0x600000 0x2700000 (mm s)"
  note h = init_mm_boot [OF h_def]
  define b where "b = place h"
  define s1 where "s1 = s\<lparr>mm := boot_heap h,
    scheduler := (scheduler s)(0 := boot_ring b 0 [], 1 := boot_ring b 1 [], 2 := boot_ring b 2 [], 3 := boot_ring b 3 []),
    waiting_for_remove := \<lparr>qaddr = b + 256, items = []\<rparr>, creation_queue := \<lparr>qaddr = b + 288, items = []\<rparr>\<rparr>"
  have i1: "init_scheduler 1 (s\<lparr>mm := h\<rparr>) = Some s1"
    using init_scheduler_fresh [of "s\<lparr>mm := h\<rparr>" b] h by (simp add: s1_def b_def)
  define s2 where "s2 = init_keyboard_sem (initialize_sems s1)"
  have "fresh (mm s2)" "used (mm s2) = 10" "place (mm s2) = b + 320" "page_qty (mm s2) = 1277952"
    using boot_heap_facts [of h] h by (simp_all add: b_def s2_def s1_def)
  moreover have b0: "0 < b" using h(1) by (simp add: b_def fresh_def heap_inv_def place_def)
  have "boot_rings b [] s2"
    unfolding boot_rings_def using b0 below_4 by (auto simp: s2_def s1_def boot_ring_def HIGH_PRIORITY_def)
  ultimately have "boot_empty b s2"
    using names_keyboard [of s1] assms by (simp add: boot_empty_def s2_def) (simp add: s1_def)
  then show ?thesis
    by (intro exI [of _ b] exI [of _ s2]) (simp add: kernel_boot_def i1 Let_def flip: h_def s2_def del: One_nat_def)
qed

lemma boot_shell:
  assumes e: "boot_empty b s" and u: "userland \<noteq> 0"
  shows "\<exists>s'. create_and_insert_process 1 1 (Some ''shell'') 4096 4096 userland 0 0 s = Some (2, s') \<and> shell_created b s'"
proof -
  have lengths: "length ''shell'' = 5" by simp
  have g: "fresh (mm s)" "used (mm s) = 10" "place (mm s) = b + 320" "page_qty (mm s) = 1277952" "next_pid s = 2"
    and n: "sem_names (sem_spaces s) \<subseteq> {''keyboard''}" and q: "boot_rings b [] s"
    using e by (simp_all add: boot_empty_def)
  have fresh_name: "pid_name 2 \<notin> sem_names (sem_spaces s)" using n pid_names by blast
  have "\<exists>s'. create_and_insert_process 1 1 (Some ''shell'') 4096 4096 userland 0 0 s = Some (int 2, s') \<and>
      inserted (length ''shell'') (b + 320) 2 [] s s'"
    by (rule create_insert_fresh) (use g fresh_name boot_rings_queue [OF q] u in simp_all)
  then obtain s' where s': "create_and_insert_process 1 1 (Some ''shell'') 4096 4096 userland 0 0 s = Some (2, s')"
    and i: "inserted 5 (b + 320) 2 [] s s'" unfolding lengths of_nat_numeral by blast
  have m: "mm s' = grab (after_insert 5 (mm s)) 24" using i by (simp add: inserted_def after_insert_def)
  note f = after_insert_facts [of "mm s" 5, unfolded g]
  have "fresh (mm s')" "used (mm s') = 278" "place (mm s') = b + 8896" "page_qty (mm s') = 1277952"
    "starts (mm s') = insert (b + 8864) (starts (after_insert 5 (mm s)))"
    using f g unfolding m by (simp_all add: place_grab PAGE_SIZE_def add.commute [of _ b])
  moreover have "{b + 320, b + 4544, b + 8672} \<subseteq> starts (after_insert 5 (mm s))"
    using f(5) g by (simp add: add.commute [of _ b])
  moreover have "boot_rings b [(b + 8864, b + 8672)] s'"
    using boot_rings_insert [OF q i] by (simp add: add.commute [of _ b])
  ultimately have "shell_created b s'"
    using i n unfolding shell_created_def by (auto simp: inserted_def add.commute [of _ b])
  with s' show ?thesis by blast
qed

lemma boot_idle:
  assumes e: "shell_created b s" and u: "idle_at \<noteq> 0"
  shows "\<exists>s' g. create_and_insert_process 1 0 (Some ''idle'') 1 4096 idle_at 0 0 s = Some (3, s') \<and> booted b g s'"
proof -
  have lengths: "length ''idle'' = 4" by simp
  let ?q = "[(b + 8864, b + 8672)]"
  have g: "fresh (mm s)" "used (mm s) = 278" "place (mm s) = b + 8896" "page_qty (mm s) = 1277952" "next_pid s = 3"
    and n: "sem_names (sem_spaces s) \<subseteq> {''keyboard'', pid_name 2}" and q: "boot_rings b ?q s"
    and st: "{b + 320, b + 4544, b + 8672, b + 8864} \<subseteq> starts (mm s)"
    using e by (simp_all add: shell_created_def)
  have fresh_name: "pid_name 3 \<notin> sem_names (sem_spaces s)" using n pid_names by blast
  have "\<exists>s'. create_and_insert_process 1 0 (Some ''idle'') 1 4096 idle_at 0 0 s = Some (int 3, s') \<and>
      inserted (length ''idle'') (b + 8896) 3 ?q s s'"
    by (rule create_insert_fresh) (use g fresh_name boot_rings_queue [OF q] u in simp_all)
  then obtain s' where s': "create_and_insert_process 1 0 (Some ''idle'') 1 4096 idle_at 0 0 s = Some (3, s')"
    and i: "inserted 4 (b + 8896) 3 ?q s s'" unfolding lengths of_nat_numeral by blast
  let ?g = "after_insert 4 (mm s)"
  have m: "mm s' = grab ?g 24" using i by (simp add: inserted_def after_insert_def)
  note f = after_insert_facts [of "mm s" 4, unfolded g]
  have "fresh ?g" "used ?g = 545" "place ?g = b + 17440" "page_qty ?g = 1277952"
    using f g by simp_all
  moreover have "starts (mm s) \<union> {b + 8896, b + 13120, b + 17248} \<subseteq> starts ?g"
    using f(5) g by (simp add: add.commute [of _ b])
  then have "{b + 320, b + 4544, b + 8672, b + 8864, b + 8896, b + 13120, b + 17248} \<subseteq> starts ?g" using st by auto
  moreover have "boot_rings b [(b + 8864, b + 8672), (b + 17440, b + 17248)] s'"
    using boot_rings_insert [OF q i] by (simp add: add.commute [of _ b])
  ultimately have "booted b ?g s'"
    using i e m unfolding booted_def boot_rings_def shell_created_def inserted_def by (simp add: add.commute [of _ b])
  with s' show ?thesis by blast
qed

lemma boot_creates:
  assumes "next_pid s = 2" "userland \<noteq> 0" "idle_at \<noteq> 0"
  shows "\<exists>b g s'. kernel_boot userland idle_at s =
      do { s \<leftarrow> change_process_priority 3 IDLE_PRIORITY s'; enable_multitasking 2 s } \<and> booted b g s'"
proof -
  obtain b s2 where s2: "boot_empty b s2" "kernel_boot userland idle_at s = do {
      (shell_pid, s) \<leftarrow> create_and_insert_process 1 1 (Some ''shell'') 0x1000 0x1000 userland 0 0 s2;
      (idle_pid, s) \<leftarrow> create_and_insert_process 1 0 (Some ''idle'') 1 0x1000 idle_at 0 0 s;
      s \<leftarrow> change_process_priority idle_pid IDLE_PRIORITY s;
      enable_multitasking shell_pid s }"
    using boot_prepares [OF assms(1)] by blast
  obtain s3 where s3: "create_and_insert_process 1 1 (Some ''shell'') 4096 4096 userland 0 0 s2 = Some (2, s3)"
    "shell_created b s3" using boot_shell [OF s2(1) assms(2)] by blast
  obtain s4 g where s4: "create_and_insert_process 1 0 (Some ''idle'') 1 4096 idle_at 0 0 s3 = Some (3, s4)" "booted b g s4"
    using boot_idle [OF s3(2) assms(3)] by blast
  show ?thesis using s2(2) s3(1) s4 by (intro exI [of _ b] exI [of _ g] exI [of _ s4]) (simp del: One_nat_def)
qed

text \<open>The last two steps: the idle process goes to ring 0, in the node it had, and the shell runs.\<close>

definition started :: "nat \<Rightarrow> heap \<Rightarrow> kernel \<Rightarrow> bool" where
  "started b g s \<longleftrightarrow> fresh g \<and> place g = b + 17440 \<and> used g = 545 \<and> page_qty g = 1277952 \<and> mm s = grab g 24 \<and>
     {b + 320, b + 4544, b + 8672, b + 8864, b + 8896, b + 13120, b + 17248} \<subseteq> starts g \<and>
     (\<forall>i<QUEUE_QTY. scheduler s i = boot_ring b i (if i = HIGH_PRIORITY then [(b + 8864, b + 8672)]
        else if i = IDLE_PRIORITY then [(b + 17440, b + 17248)] else [])) \<and>
     pcbs s (b + 8672) = \<lparr>ticks = 0, priority = HIGH_PRIORITY, process = b + 320\<rparr> \<and>
     pcbs s (b + 17248) = \<lparr>ticks = 0, priority = IDLE_PRIORITY, process = b + 8896\<rparr> \<and>
     pid (processes s (b + 320)) = 2 \<and> status (processes s (b + 320)) = RUNNING \<and> stack (processes s (b + 320)) = b + 4544 \<and>
     pid (processes s (b + 8896)) = 3 \<and> status (processes s (b + 8896)) = READY \<and> stack (processes s (b + 8896)) = b + 13120 \<and>
     waiting_for_remove s = \<lparr>qaddr = b + 256, items = []\<rparr> \<and> creation_queue s = \<lparr>qaddr = b + 288, items = []\<rparr> \<and> 0 < b \<and>
     current_pcb s = b + 8672 \<and> scheduler_status s = 1 \<and> rsp s = saved_rsp s (b + 8672)"

lemma ring_numbers: "QUEUE_QTY = 4" "HIGH_PRIORITY = 3" "IDLE_PRIORITY = 0"
  by (simp_all add: priority_defs)

lemma boot_starts:
  assumes "booted b g s"
  shows "\<exists>s'. do { s \<leftarrow> change_process_priority 3 IDLE_PRIORITY s; enable_multitasking 2 s } = Some s' \<and> started b g s'"
proof -
  note d = assms [unfolded booted_def]
  have g: "fresh g" "place g = b + 17440" "used g + 1 \<le> page_qty g" "mm s = grab g 24" using d by simp_all
  have r: "scheduler s 0 = boot_ring b 0 []" "scheduler s 1 = boot_ring b 1 []" "scheduler s 2 = boot_ring b 2 []"
    "scheduler s 3 = boot_ring b 3 [(b + 8864, b + 8672), (b + 17440, b + 17248)]"
    using d by (simp_all add: ring_numbers)
  have ids: "pid_of s (b + 8672) = 2" "pid_of s (b + 17248) = 3" using d by (simp_all add: pid_of_def process_of_def)
  have b0: "0 < b" using d by blast
  have sq: "sched_queue s 0 = Some []" "sched_queue s 1 = Some []" "sched_queue s 2 = Some []"
    "sched_queue s 3 = Some [(b + 8864, b + 8672), (b + 17440, b + 17248)]"
    using b0 by (simp_all add: sched_queue_def ring_numbers r boot_ring_def del: One_nat_def)
  have u: "[0..<QUEUE_QTY] = [0, 1, 2, 3]" by (simp add: QUEUE_QTY_def upt_rec)
  have entry: "get_pcb_entry s 3 = Some (b + 17248)" by (simp add: get_pcb_entry_def u sq ids del: One_nat_def)
  have free: "kfree s (b + 17440) = Some (s\<lparr>mm := g\<rparr>)"
    using grab_ok(4) [of g 24] g by (simp add: kfree_def)
  define s1 where "s1 = set_sched_queue 0 [(b + 17440, b + 17248)] (set_priority (b + 17248) 0
     (set_sched_queue 3 [(b + 8864, b + 8672)] s))"
  have prio: "priority (pcbs s (b + 17248)) = 3" using d by (simp add: ring_numbers)
  have "change_process_priority 3 IDLE_PRIORITY s = Some s1"
  proof -
    have rm: "remove_from_queue_by_pid 3 3 s = Some (3, set_sched_queue 3 [(b + 8864, b + 8672)] (s\<lparr>mm := g\<rparr>))"
      by (simp add: remove_from_queue_by_pid_def sq ids free prio)
    let ?t = "set_priority (b + 17248) 0 (set_sched_queue 3 [(b + 8864, b + 8672)] (s\<lparr>mm := g\<rparr>))"
    have "kcreate_node ?t = Some (b + 17440, ?t\<lparr>mm := mm s\<rparr>)"
      using g by (simp add: kcreate_node_def sizeof_node_t_def set_priority_def set_sched_queue_def)
    moreover have "?t\<lparr>mm := mm s\<rparr> = set_priority (b + 17248) 0 (set_sched_queue 3 [(b + 8864, b + 8672)] s)"
      by (simp add: set_priority_def set_sched_queue_def)
    moreover have "sched_queue (set_priority (b + 17248) 0 (set_sched_queue 3 [(b + 8864, b + 8672)] s)) 0 = Some []"
      using b0 by (simp add: sched_queue_def set_priority_def set_sched_queue_def r(1) boot_ring_def QUEUE_QTY_def)
    ultimately show ?thesis using b0 entry rm prio
      by (simp add: change_process_priority_def ring_numbers Let_def s1_def)
  qed
  moreover have "get_pcb_entry s1 2 = Some (b + 8672)"
  proof -
    have id1: "pid_of s1 (b + 8672) = 2" "pid_of s1 (b + 17248) = 3"
      using ids by (simp_all add: s1_def pid_of_def process_of_def set_priority_def set_sched_queue_def)
    have sq1: "sched_queue s1 0 = Some [(b + 17440, b + 17248)]" "sched_queue s1 1 = Some []" "sched_queue s1 2 = Some []"
      "sched_queue s1 3 = Some [(b + 8864, b + 8672)]"
      using b0 by (simp_all add: sched_queue_def ring_numbers s1_def set_priority_def set_sched_queue_def r boot_ring_def
          del: One_nat_def)
    show ?thesis by (simp add: get_pcb_entry_def u sq1 id1 del: One_nat_def)
  qed
  moreover have "started b g (let s = set_status (b + 8672) RUNNING (s1\<lparr>current_pcb := b + 8672\<rparr>)
      in s\<lparr>scheduler_status := 1, rsp := saved_rsp s (b + 8672)\<rparr>)"
  proof -
    have rings: "\<forall>i<QUEUE_QTY. scheduler s1 i = boot_ring b i (if i = HIGH_PRIORITY then [(b + 8864, b + 8672)]
        else if i = IDLE_PRIORITY then [(b + 17440, b + 17248)] else [])"
      using d by (auto simp: s1_def ring_numbers set_priority_def set_sched_queue_def boot_ring_def)
    show ?thesis using d rings
      by (simp add: started_def Let_def s1_def set_status_def process_of_def set_priority_def set_sched_queue_def ring_numbers
          saved_rsp_def)
  qed
  ultimately show ?thesis using b0 by (simp add: enable_multitasking_def Let_def)
qed

text \<open>The kernel uses the first 546 pages of the heap, 17 kB, and nothing behind.\<close>

lemma started_heap: "started b g s \<Longrightarrow> fresh (mm s) \<and> used (mm s) = 546 \<and> page_qty (mm s) = 1277952"
  by (auto simp: started_def)

lemma boot_heap_left:
  assumes "next_pid s = 2" "userland \<noteq> 0" "idle_at \<noteq> 0"
  shows "\<exists>s'. kernel_boot userland idle_at s = Some s' \<and> fresh (mm s') \<and> used (mm s') = 546 \<and> page_qty (mm s') = 1277952"
  using boot_creates [OF assms] boot_starts started_heap by fastforce

lemma started_inv:
  assumes "started b g s"
  shows "sched_inv s"
proof -
  note d = assms [unfolded started_def]
  have r: "scheduler s 0 = boot_ring b 0 [(b + 17440, b + 17248)]" "scheduler s 1 = boot_ring b 1 []"
    "scheduler s 2 = boot_ring b 2 []" "scheduler s 3 = boot_ring b 3 [(b + 8864, b + 8672)]"
    using d by (simp_all add: ring_numbers)
  have rp: "ring_of s 0 = [(b + 17440, b + 17248)]" "ring_of s 1 = []" "ring_of s 2 = []" "ring_of s 3 = [(b + 8864, b + 8672)]"
    by (simp_all add: r boot_ring_def del: One_nat_def)
  have t: "table s = [b + 17248, b + 8672]" by (simp add: table_def ring_pcbs_def rp del: One_nat_def)
  have ro: "roster s = [b + 17248, b + 8672]" using d by (simp add: roster_def t)
  have q: "new_procs s = []" "items (waiting_for_remove s) = []" "items (creation_queue s) = []" using d by (simp_all add: new_procs_def)
  have own: "owned s = mset [b + 17440, b + 8864, b + 17248, b + 8896, b + 13120, b + 8672, b + 320, b + 4544]"
    using d by (simp add: owned_def nodes_def rp ro q pcb_own_def process_of_def del: One_nat_def)
  have g: "fresh g" "place g = b + 17440" "used g + 1 \<le> page_qty g" "mm s = grab g 24" using d by simp_all
  have "starts (mm s) = insert (b + 17440) (starts g)" using g by simp
  then have blocks: "owned s \<subseteq># heap_blocks s"
    unfolding own using d by (intro mset_in_heap) auto
  have inv: "heap_inv (mm s)" using fresh_grab [of g 24] g by (simp add: fresh_def)
  have ids: "pid_of s (b + 8672) = 2" "pid_of s (b + 17248) = 3" "status_of s (b + 17248) = READY"
    using d by (simp_all add: pid_of_def status_of_def process_of_def)
  have "rings_ok s" using d by (auto simp: rings_ok_def boot_ring_def)
  have cur: "current_pcb s = b + 8672" "qaddr (waiting_for_remove s) \<noteq> 0" "qaddr (creation_queue s) \<noteq> 0"
    "priority (pcbs s (b + 8672)) = 3" "priority (pcbs s (b + 17248)) = 0"
    using d by (simp_all add: ring_numbers)
  have "\<forall>i<QUEUE_QTY. \<forall>d\<in>set (ring_pcbs s i). priority (pcbs s d) = i"
    by (simp add: ring_numbers all_less_four ring_pcbs_def rp cur del: One_nat_def)
  then show ?thesis
    unfolding sched_inv_ext_def using inv blocks \<open>rings_ok s\<close>
    by (simp add: pids_def ro q t ids cur ring_numbers)
qed

text \<open>C2: the boot establishes what the scheduler needs. From the static state (the next pid is
  2, everything else whatever it is), \<open>main\<close> on the bitmap allocator returns from every call; the
  shell with pid 2 runs in the ring of the highest priority, the idle process with pid 3 is READY
  in ring 0, the other rings and both queues are empty, the stack pointer is the shell's, and the
  invariant of the scheduler holds, so the first context switch is safe. No allocation fails and
  no block is lost: the heap of the idle process's list node is reused, and exactly the first 546
  of the 1277952 pages are in use.\<close>

theorem boot_establishes:
  assumes "next_pid s = 2" "userland \<noteq> 0" "idle_at \<noteq> 0"
  shows "\<exists>s'. kernel_boot userland idle_at s = Some s' \<and> sched_inv s' \<and>
    map (pid_of s') (table s') = [3, 2] \<and> map (pid_of s') (ring_pcbs s' HIGH_PRIORITY) = [2] \<and>
    map (pid_of s') (ring_pcbs s' IDLE_PRIORITY) = [3] \<and> pid_of s' (current_pcb s') = 2 \<and>
    map (status_of s') (table s') = [READY, RUNNING] \<and> removal_pids s' = [] \<and> new_procs s' = [] \<and>
    scheduler_status s' = 1 \<and> rsp s' = saved_rsp s' (current_pcb s') \<and>
    fresh (mm s') \<and> used (mm s') = 546 \<and> page_qty (mm s') = 1277952"
proof -
  obtain b g s1 where b: "kernel_boot userland idle_at s =
      do { s \<leftarrow> change_process_priority 3 IDLE_PRIORITY s1; enable_multitasking 2 s }" "booted b g s1"
    using boot_creates [OF assms] by blast
  obtain s' where s': "do { s \<leftarrow> change_process_priority 3 IDLE_PRIORITY s1; enable_multitasking 2 s } = Some s'" "started b g s'"
    using boot_starts [OF b(2)] by blast
  note heap = started_heap [OF s'(2)]
  have d: "scheduler s' 0 = boot_ring b 0 [(b + 17440, b + 17248)]" "scheduler s' 1 = boot_ring b 1 []"
    "scheduler s' 2 = boot_ring b 2 []" "scheduler s' 3 = boot_ring b 3 [(b + 8864, b + 8672)]"
    using s'(2) by (simp_all add: started_def ring_numbers)
  have t: "table s' = [b + 17248, b + 8672]" "ring_pcbs s' 3 = [b + 8672]" "ring_pcbs s' 0 = [b + 17248]"
    using d by (simp_all add: table_def ring_pcbs_def boot_ring_def del: One_nat_def)
  have ids: "pid_of s' (b + 8672) = 2" "pid_of s' (b + 17248) = 3" "status_of s' (b + 17248) = READY" "status_of s' (b + 8672) = RUNNING"
    using s'(2) by (simp_all add: started_def pid_of_def status_of_def process_of_def)
  show ?thesis
    using b(1) s' started_inv [OF s'(2)] heap
    by (intro exI [of _ s']) (simp add: t ids ring_numbers started_def removal_pids_def new_procs_def)
qed

theorem boot_establishes_witness:
  "\<exists>s'. kernel_boot 0x400000 0x100000 (demo_kernel\<lparr>next_pid := 2\<rparr>) = Some s' \<and> sched_inv s' \<and> pid_of s' (current_pcb s') = 2"
  using boot_establishes [of "demo_kernel\<lparr>next_pid := 2\<rparr>" "0x400000" "0x100000"] by auto

end
