(* ===== verification/Start.thy ===== *)
theory Start
  imports Boot Pipe Video
begin

text \<open>
  Kernel/idtLoader.c, and \<open>main\<close> of Kernel/kernel.c as a whole. The interrupt table is at address
  0 of a byte memory, 16 packed bytes per gate; the addresses of the handlers, which the linker
  chooses, are arguments, and the port writes of the interrupt controller are a list.
\<close>

unbundle bit_operations_syntax

section \<open>The interrupt table\<close>

definition ACS_PRESENT :: byte where "ACS_PRESENT = 0x80"
definition ACS_INT_386 :: byte where "ACS_INT_386 = 0x0E"
definition ACS_INT :: byte where "ACS_INT = ACS_PRESENT OR ACS_INT_386"

type_synonym gate_address = "64 word"

definition le16 :: "16 word \<Rightarrow> byte list" where
  "le16 w = [ucast w, ucast (drop_bit 8 w)]"

text \<open>The members of \<open>DESCR_INT\<close> are at offsets 0, 2, 4, 5, 6, 8 and 12.\<close>

definition setup_IDT_entry :: "nat \<Rightarrow> gate_address \<Rightarrow> memory \<Rightarrow> memory" where
  "setup_IDT_entry index offset m =
     (let p = 16 * index;
          m = write_bytes (p + 2) (le16 0x08) m;
          m = write_bytes p (le16 (ucast (offset AND 0xFFFF))) m;
          m = write_bytes (p + 6) (le16 (ucast (drop_bit 16 offset AND 0xFFFF))) m;
          m = write_bytes (p + 8) (le32 (ucast (drop_bit 32 offset AND 0xFFFFFFFF))) m;
          m = write_bytes (p + 5) [ACS_INT] m;
          m = write_bytes (p + 4) [0] m
      in write_bytes (p + 12) (le32 0) m)"

record handlers =
  irq00_handler :: gate_address
  exception0_handler :: gate_address
  exception6_handler :: gate_address
  exception13_handler :: gate_address
  irq01_handler :: gate_address
  irq60_handler :: gate_address

record board =
  low_memory :: memory
  interrupts :: bool
  port_writes :: "(nat \<times> nat) list"

definition set_gate :: "nat \<Rightarrow> gate_address \<Rightarrow> board \<Rightarrow> board" where
  "set_gate index offset d = d\<lparr>low_memory := setup_IDT_entry index offset (low_memory d)\<rparr>"

definition pic_mask :: "nat \<Rightarrow> nat \<Rightarrow> board \<Rightarrow> board" where
  "pic_mask port bits d = d\<lparr>port_writes := port_writes d @ [(port, bits)]\<rparr>"

definition load_idt :: "handlers \<Rightarrow> board \<Rightarrow> board" where
  "load_idt hs d =
     (let d = d\<lparr>interrupts := False\<rparr>;
          d = set_gate 0x20 (irq00_handler hs) d;
          d = set_gate 0x00 (exception0_handler hs) d;
          d = set_gate 0x06 (exception6_handler hs) d;
          d = set_gate 0x0D (exception13_handler hs) d;
          d = set_gate 0x21 (irq01_handler hs) d;
          d = set_gate 0x80 (irq60_handler hs) d
      in (pic_mask 0xA1 0xFF (pic_mask 0x21 0xFC d))\<lparr>interrupts := True\<rparr>)"

section \<open>The main program\<close>

record computer =
  the_board :: board
  the_video :: video
  the_pipes :: pipes

text \<open>
  \<open>main\<close> up to its endless loop. \<open>init_pipes\<close> is in the middle of the calls that \<open>kernel_boot\<close>
  composes, but touches no state they use.
\<close>

definition kernel_main :: "handlers \<Rightarrow> nat \<Rightarrow> nat \<Rightarrow> computer \<Rightarrow> computer option" where
  "kernel_main hs userland idle_at c = do {
     let c = c\<lparr>the_board := load_idt hs (the_board c), the_video := set_font_size 1 (the_video c)\<rparr>;
     k \<leftarrow> kernel_boot userland idle_at (kern (the_pipes c));
     Some (c\<lparr>the_pipes := (init_pipes (the_pipes c))\<lparr>kern := k\<rparr>\<rparr>)
   }"

section \<open>What the processor finds in the table\<close>

text \<open>The processor's reading of a gate: the handler's address, the selector and the access byte.\<close>

fun le_value :: "byte list \<Rightarrow> nat" where
  "le_value [] = 0"
| "le_value (b # bs) = unat b + 256 * le_value bs"

definition gate :: "memory \<Rightarrow> nat \<Rightarrow> nat \<times> nat \<times> byte" where
  "gate m i = (let p = 16 * i in
     (le_value [m p, m (p + 1), m (p + 6), m (p + 7), m (p + 8), m (p + 9), m (p + 10), m (p + 11)],
      le_value [m (p + 2), m (p + 3)], m (p + 5)))"

lemma byte_step: "n div d mod 256 + 256 * (n div (d * 256) mod r) = n div d mod (256 * r)" for n :: nat
  by (simp add: mod_mult2_eq div_mult2_eq)

lemma bytes_value:
  assumes "n < 2 ^ 64"
  shows "n mod 256 + 256 * (n div 256 mod 256 + 256 * (n div 65536 mod 256 + 256 * (n div 16777216 mod 256 +
    256 * (n div 4294967296 mod 256 + 256 * (n div 1099511627776 mod 256 + 256 * (n div 281474976710656 mod 256 +
    256 * (n div 72057594037927936 mod 256))))))) = (n :: nat)"
  using assms byte_step [of n 1 "256 ^ 7"] byte_step [of n 256 "256 ^ 6"] byte_step [of n 65536 "256 ^ 5"]
    byte_step [of n 16777216 "256 ^ 4"] byte_step [of n 4294967296 "256 ^ 3"] byte_step [of n 1099511627776 "256 ^ 2"]
    byte_step [of n 281474976710656 256]
  by simp

lemma byte_values:
  fixes w :: "64 word"
  shows "unat (ucast (ucast (w AND 0xFFFF) :: 16 word) :: byte) = unat w mod 256"
    "unat (ucast (drop_bit 8 (ucast (w AND 0xFFFF) :: 16 word)) :: byte) = unat w div 256 mod 256"
    "unat (ucast (ucast (w AND 0xFFFFFFFF) :: 32 word) :: byte) = unat w mod 256"
    "unat (ucast (drop_bit 8 (ucast (w AND 0xFFFFFFFF) :: 32 word)) :: byte) = unat w div 256 mod 256"
    "unat (ucast (drop_bit 16 (ucast (w AND 0xFFFFFFFF) :: 32 word)) :: byte) = unat w div 65536 mod 256"
    "unat (ucast (drop_bit 24 (ucast (w AND 0xFFFFFFFF) :: 32 word)) :: byte) = unat w div 16777216 mod 256"
proof -
  have m: "w AND 0xFFFF = take_bit 16 w" "w AND 0xFFFFFFFF = take_bit 32 w"
    by (simp_all add: take_bit_eq_mask mask_numeral)
  have r: "n mod 256 = take_bit 8 n" "n div 256 = drop_bit 8 n" "n div 65536 = drop_bit 16 n" "n div 16777216 = drop_bit 24 n"
    for n :: nat
    by (simp_all add: take_bit_eq_mod drop_bit_eq_div)
  show "unat (ucast (ucast (w AND 0xFFFF) :: 16 word) :: byte) = unat w mod 256"
    "unat (ucast (drop_bit 8 (ucast (w AND 0xFFFF) :: 16 word)) :: byte) = unat w div 256 mod 256"
    "unat (ucast (ucast (w AND 0xFFFFFFFF) :: 32 word) :: byte) = unat w mod 256"
    "unat (ucast (drop_bit 8 (ucast (w AND 0xFFFFFFFF) :: 32 word)) :: byte) = unat w div 256 mod 256"
    "unat (ucast (drop_bit 16 (ucast (w AND 0xFFFFFFFF) :: 32 word)) :: byte) = unat w div 65536 mod 256"
    "unat (ucast (drop_bit 24 (ucast (w AND 0xFFFFFFFF) :: 32 word)) :: byte) = unat w div 16777216 mod 256"
    unfolding m r
    by (simp_all add: unsigned_ucast_eq unsigned_drop_bit_eq unsigned_take_bit_eq take_bit_drop_bit)
qed

lemma gate_same: "gate (setup_IDT_entry i offset m) i = (unat offset, 8, 0x8E)"
proof -
  have n: "unat offset < 2 ^ 64" using unsigned_less [of offset] by simp
  have hi: "unat (drop_bit 16 offset) = unat offset div 65536" "unat (drop_bit 32 offset) = unat offset div 4294967296"
    unfolding unat_drop_bit_eq by (simp_all add: drop_bit_eq_div)
  have d: "unat offset div 65536 div 256 = unat offset div 16777216"
    "unat offset div 4294967296 div 256 = unat offset div 1099511627776"
    "unat offset div 4294967296 div 65536 = unat offset div 281474976710656"
    "unat offset div 4294967296 div 16777216 = unat offset div 72057594037927936"
    by (simp_all flip: div_mult2_eq)
  show ?thesis
    using bytes_value [OF n]
    by (simp add: gate_def setup_IDT_entry_def Let_def write_bytes_def le16_def le32_def byte_values hi d
        ACS_INT_def ACS_PRESENT_def ACS_INT_386_def)
qed

lemma setup_outside: "a < 16 * i \<or> 16 * i + 16 \<le> a \<Longrightarrow> setup_IDT_entry i offset m a = m a"
  by (auto simp: setup_IDT_entry_def Let_def write_bytes_def le16_def le32_def)

lemma gate_other:
  assumes "i \<noteq> j"
  shows "gate (setup_IDT_entry i offset m) j = gate m j"
proof -
  have "setup_IDT_entry i offset m (16 * j + k) = m (16 * j + k)" if "k < 16" for k
    using assms that by (intro setup_outside) arith
  from this [of 0] this [of 1] this [of 2] this [of 3] this [of 5] this [of 6] this [of 7] this [of 8] this [of 9]
    this [of 10] this [of 11] show ?thesis by (simp add: gate_def Let_def del: One_nat_def)
qed

text \<open>C25: the interrupt table. After \<open>load_idt\<close> the processor finds in the gates of the timer, the
  keyboard, the system call and the three exceptions exactly the addresses of their handlers,
  with the kernel's code selector and an interrupt gate; every other gate and all memory behind
  the table are as before, interrupts are enabled, and the controller lets the timer and the
  keyboard through.\<close>

theorem load_idt_gates:
  "(\<forall>(v, f) \<in> set [(0x20, irq00_handler), (0x00, exception0_handler), (0x06, exception6_handler),
       (0x0D, exception13_handler), (0x21, irq01_handler), (0x80, irq60_handler)].
      gate (low_memory (load_idt hs d)) v = (unat (f hs), 8, 0x8E)) \<and>
   (\<forall>v. v \<notin> {0x20, 0x00, 0x06, 0x0D, 0x21, 0x80} \<longrightarrow> gate (low_memory (load_idt hs d)) v = gate (low_memory d) v) \<and>
   (\<forall>a \<ge> 0x810. low_memory (load_idt hs d) a = low_memory d a) \<and>
   interrupts (load_idt hs d) \<and> port_writes (load_idt hs d) = port_writes d @ [(0x21, 0xFC), (0xA1, 0xFF)]"
  by (simp add: load_idt_def Let_def set_gate_def pic_mask_def gate_same gate_other setup_outside)

definition demo_handlers :: handlers where
  "demo_handlers = \<lparr>irq00_handler = 0x100200, exception0_handler = 0x100300, exception6_handler = 0x100400,
     exception13_handler = 0x100500, irq01_handler = 0x100600, irq60_handler = 0x100700\<rparr>"

theorem load_idt_gates_witness:
  "gate (low_memory (load_idt demo_handlers \<lparr>low_memory = (\<lambda>_. 0), interrupts = False, port_writes = []\<rparr>)) 0x21 = (0x100600, 8, 0x8E)"
  using load_idt_gates [of demo_handlers "\<lparr>low_memory = (\<lambda>_. 0), interrupts = False, port_writes = []\<rparr>"]
  by (simp add: demo_handlers_def)

end
