(* ===== verification/User_Start.thy ===== *)
theory User_Start
  imports C_Memory
begin

text \<open>
  The start-up of the user program: \<open>_start\<close> and \<open>memset\<close> of
  Userland/SampleCodeModule/_loader.c and the two bytes \<open>main\<close> of sampleCodeModule.c writes into
  the text screen before it starts the shell. The symbols of the linker are arguments.
\<close>

fun user_memset :: "nat \<Rightarrow> byte \<Rightarrow> nat \<Rightarrow> memory \<Rightarrow> memory" where
  "user_memset dst chr 0 m = m"
| "user_memset dst chr (Suc len) m = user_memset dst chr len (m(dst + len := chr))"

definition user_start :: "nat \<Rightarrow> nat \<Rightarrow> memory \<Rightarrow> memory" where
  "user_start bss end_of_binary m = user_memset bss 0 (end_of_binary - bss) m"

text \<open>The character X and its colour in the last column of the first line.\<close>

definition sample_main :: "memory \<Rightarrow> memory" where
  "sample_main m = m(0xB8000 + 79 * 2 := 88, 0xB8000 + 79 * 2 + 1 := 0x74)"

lemma user_memset_at: "user_memset p v n m a = (if p \<le> a \<and> a < p + n then v else m a)"
  by (induction n arbitrary: m) auto

lemma user_start_clears:
  "bss \<le> e \<Longrightarrow> user_start bss e m a = (if bss \<le> a \<and> a < e then 0 else m a)"
  by (simp add: user_start_def user_memset_at)

end
