(* ===== verification/User_Tests.thy ===== *)
theory User_Tests
  imports Shell
begin

text \<open>
  The menu of the user tests (Userland/SampleCodeModule/test_util.c) and the two tests that are
  fixed sequences of system calls, test_prio.c and test_pipes.c; the sequence is a list, and the
  pids and pipe ids the calls return are arguments. The tests with behaviour of their own are
  Test_Memory, Test_Processes and Test_Sync.
\<close>

section \<open>The menu\<close>

definition line :: "string \<Rightarrow> byte list" where
  "line s = bytes s @ [10]"

definition menu_text :: "byte list" where
  "menu_text = line ''Available tests:'' @ line ''  A - Test memory manager'' @ line ''  B - Test priority'' @
     line ''  C - Test processes'' @ line ''  D - Test synchronization'' @ line ''  E - Test without synchronization'' @
     line ''  F - Test Pipe IPC'' @ line ''  Any other key to quit''"

text \<open>The process a number starts, with its two arguments where it gets any.\<close>

definition test_program :: "nat \<Rightarrow> (string \<times> string list) option" where
  "test_program n =
     (if n = 1 then Some (''test_mm'', [])
      else if n = 2 then Some (''test_prio'', [])
      else if n = 3 then Some (''test_processes'', [])
      else if n = 4 then Some (''test_sync'', [''3'', ''1''])
      else if n = 5 then Some (''test_sync'', [''3'', ''0''])
      else if n = 6 then Some (''test_pipes'', [''3'', ''1''])
      else None)"

definition tests :: "user \<Rightarrow> ((string \<times> string list) option \<times> user) option" where
  "tests s = do {
     (c, s) \<leftarrow> get_c (s\<lparr>stdout := stdout s @ menu_text\<rparr>);
     if 65 \<le> unat c \<and> unat c \<le> 70 then Some (test_program (unat c - 65 + 1), s)
     else Some (None, s\<lparr>stdout := stdout s @ line ''Quiting...''\<rparr>)
   }"

section \<open>Sequences of system calls\<close>

datatype test_call = Create string nat | Create_with string nat "int list" | Nice int int | Block_process int
  | Force_kill int | Waitpid int | Bussy_wait nat | Print "byte list" | Pipe_create_anonymous

definition TOTAL_PROCESSES :: nat where "TOTAL_PROCESSES = 5"

definition prio :: "int list" where
  "prio = [1, 2, 3, 2, 1]"

definition test_prio :: "int list \<Rightarrow> test_call list" where
  "test_prio pids =
     replicate TOTAL_PROCESSES (Create ''print_loop'' 0) @ [Bussy_wait 10000000, Print ([10] @ line ''CHANGING PRIORITIES...'')] @
     map2 Nice pids prio @ [Bussy_wait 10000000, Print ([10] @ line ''BLOCKING...'')] @
     map Block_process pids @ [Print (line ''CHANGING PRIORITIES WHILE BLOCKED...'')] @
     map (\<lambda>p. Nice p 2) pids @ [Print (line ''UNBLOCKING...'')] @
     map Block_process pids @ [Bussy_wait 10000000, Print ([10] @ line ''KILLING...'')] @
     map Force_kill pids @
     [Print ([10] @ line ''Test ended. Processes were not printed because''), Print (line ''they were created at background.'')]"

text \<open>What the two writers of test_pipes.c put into their pipe, the end mark included.\<close>

definition test_pipe_to_wc :: "byte list" where
  "test_pipe_to_wc = line ''First line'' @ line ''Second line'' @ line ''Third line'' @ bytes ''Fourth line.'' @ [1]"

definition test_pipe_to_filter :: "byte list" where
  "test_pipe_to_filter = bytes ''MURCIELAGO'' @ [1]"

definition tptf_title :: "byte list" where
  "tptf_title = line ''Creating TEST_PIPE_TO_FILTER process to write to FILTER through pipe 2...'' @
     line ''Creating FILTER process to read from TEST_PIPE_TO_FILTER through pipe 2...'' @
     line ''Input to FILTER through pipe = MURCIELAGO.''"

text \<open>The descriptors are those of input and output; \<open>pid_wc\<close> and the others are the pids returned.\<close>

definition test_pipes :: "int \<Rightarrow> int \<Rightarrow> int \<Rightarrow> int \<Rightarrow> int \<Rightarrow> test_call list" where
  "test_pipes pipe_id pipe_id2 pid_wc pid_filter_title pid_filter =
     [Pipe_create_anonymous, Pipe_create_anonymous, Print (line ''Opening pipes...''),
      Print (line ''Setting up file descriptors...''),
      Print (line ''Creating TEST_PIPE_TO_WC process to write to WC through pipe 1...''),
      Print (line ''Creating WC process to read from TEST_PIPE_TO_WC through pipe 1...''),
      Create_with ''test_pipe_to_wc'' 0 [0, pipe_id],
      Create_with ''wc'' 1 [pipe_id, 0], Waitpid pid_wc,
      Create_with ''tptf_title'' 1 [0, 0], Waitpid pid_filter_title,
      Create_with ''test_pipe_to_filter'' 0 [0, pipe_id2],
      Create_with ''filter'' 1 [pipe_id2, 0], Waitpid pid_filter,
      Print (bytes ''Expected FILTER output = MRCLG'')]"

section \<open>The outputs the pipe test expects\<close>

lemma decimal_4: "decimal 4 = bytes ''4''"
  by code_simp

text \<open>\<open>wc\<close> counts four lines and \<open>filter\<close> leaves MRCLG, as test_pipes.c says.\<close>

lemma pipe_test_outputs:
  "stdin s = test_pipe_to_filter \<Longrightarrow>
     filter_vowels s = Some (s\<lparr>stdin := [], stdout := stdout s @ bytes ''MRCLG'' @ [10]\<rparr>)"
  "stdin s = test_pipe_to_wc \<Longrightarrow> wc_loop 1 s = Some (4, s\<lparr>stdin := [], stdout := stdout s @ butlast test_pipe_to_wc\<rparr>)"
proof -
  have f: "EOF_CHAR \<notin> set (bytes ''MURCIELAGO'')" "filter (\<lambda>c. \<not> is_vowel c) (bytes ''MURCIELAGO'') = bytes ''MRCLG''"
    by code_simp+
  show "filter_vowels s = Some (s\<lparr>stdin := [], stdout := stdout s @ bytes ''MRCLG'' @ [10]\<rparr>)" if "stdin s = test_pipe_to_filter"
    using filter_loop_eq [OF f(1), of s "[]"] that f(2)
    by (simp add: filter_vowels_def test_pipe_to_filter_def EOF_CHAR_def)
  have w: "EOF_CHAR \<notin> set (butlast test_pipe_to_wc)" "count_list (butlast test_pipe_to_wc) 10 = 3"
    "test_pipe_to_wc = butlast test_pipe_to_wc @ EOF_CHAR # []"
    by code_simp+
  show "wc_loop 1 s = Some (4, s\<lparr>stdin := [], stdout := stdout s @ butlast test_pipe_to_wc\<rparr>)" if "stdin s = test_pipe_to_wc"
    using wc_loop_eq [OF w(1), of s "[]" 1] that w(2,3) by simp
qed

end
