(* ===== verification/Test_Memory.thy ===== *)
theory Test_Memory
  imports Complex_Main Boot Mem_Buddy User_Start
begin

text \<open>
  The memory test of the user programs, Userland/SampleCodeModule/test_mm.c with its generator
  of random numbers in test_util.c, as a client of the kernel's
  allocators: \<open>user_malloc\<close> and \<open>user_free\<close> are the system calls behind which the kernel's
  \<open>malloc\<close> and \<open>free\<close> stand. What the test does to any allocator that keeps the contract is
  proved in the locale of Alloc_Spec, so it holds of both; that it returns is proved for the
  bitmap. The rounding of the floating-point unit is an argument.
\<close>

unbundle bit_operations_syntax

section \<open>Random numbers\<close>

type_synonym seeds = "32 word \<times> 32 word"

definition start_seeds :: seeds where
  "start_seeds = (362436069, 521288629)"

definition get_uint :: "seeds \<Rightarrow> 32 word \<times> seeds" where
  "get_uint g =
     (let m_z = 36969 * (fst g AND 65535) + drop_bit 16 (fst g);
          m_w = 18000 * (snd g AND 65535) + drop_bit 16 (snd g)
      in (push_bit 16 m_z + m_w, (m_z, m_w)))"

text \<open>\<open>(u + 1.0) * 2.328306435454494e-10 * max\<close> in floating point, converted to \<open>uint32_t\<close>.\<close>

definition get_uniform :: "(real \<Rightarrow> real) \<Rightarrow> nat \<Rightarrow> seeds \<Rightarrow> nat \<times> seeds" where
  "get_uniform rnd limit g =
     (case get_uint g of (u, g) \<Rightarrow>
        (nat \<lfloor>rnd (rnd (rnd (real (unat u) + 1) * rnd (2328306435454494 / 10 ^ 25)) * real limit)\<rfloor>, g))"

text \<open>What the test needs of the rounding: zero stays zero, and the relative error is at most
  \<open>2\<^sup>-\<^sup>5\<^sup>2\<close> away from the ends of the range, as IEEE 754 has it for doubles; the registers of the x87,
  which the compiler flags select, are more precise.\<close>

definition fpu :: "(real \<Rightarrow> real) \<Rightarrow> bool" where
  "fpu rnd \<longleftrightarrow> rnd 0 = 0 \<and> (\<forall>x. 1 / 2 ^ 100 \<le> x \<and> x \<le> 2 ^ 100 \<longrightarrow> \<bar>rnd x - x\<bar> \<le> x / 2 ^ 52)"

lemma fpu_bounds:
  assumes "fpu rnd" "1 / 2 ^ 100 \<le> x" "x \<le> 2 ^ 100"
  shows "x / 2 \<le> rnd x" "rnd x \<le> x * (1 + 1 / 2 ^ 52)" "0 < rnd x"
proof -
  have x: "0 < x" using assms(2) by (rule less_le_trans [rotated]) simp
  have e: "\<bar>rnd x - x\<bar> \<le> x / 2 ^ 52" using assms by (simp add: fpu_def)
  show "rnd x \<le> x * (1 + 1 / 2 ^ 52)" using abs_le_D1 [OF e] by (simp add: distrib_left)
  have "x / 2 ^ 52 \<le> x / 2" using x by simp
  then show "x / 2 \<le> rnd x" using abs_le_D2 [OF e] by linarith
  then show "0 < rnd x" using x by linarith
qed

lemma get_uniform_less:
  assumes f: "fpu rnd" and limit: "limit < 2 ^ 32"
  shows "fst (get_uniform rnd limit g) \<le> limit - 1"
proof (cases "limit = 0")
  case True
  then show ?thesis using f by (simp add: get_uniform_def fpu_def split: prod.split)
next
  case False
  obtain u g' where g: "get_uint g = (u, g')" by (cases "get_uint g")
  define k where "k = unat u"
  define a where "a = real k + 1"
  define c :: real where "c = 2328306435454494 / 10 ^ 25"
  have a: "1 \<le> a" "a \<le> 2 ^ 32"
    using unsigned_less [of u, where ?'a = nat] by (simp_all add: a_def flip: k_def)
  have c: "1 / 2 ^ 33 \<le> c" "c \<le> 1 / 2 ^ 32 * (1 - 1 / 2 ^ 40)" by (simp_all add: c_def)
  have A: "1 / 2 \<le> rnd a" "rnd a \<le> 2 ^ 32 * (1 + 1 / 2 ^ 52)"
    using fpu_bounds [OF f, of a] a by auto
  have C: "1 / 2 ^ 34 \<le> rnd c" "rnd c \<le> 1 / 2 ^ 32 * (1 - 1 / 2 ^ 40) * (1 + 1 / 2 ^ 52)"
    using fpu_bounds [OF f, of c] c by auto
  define p where "p = rnd (rnd a * rnd c)"
  have "1 / 2 * (1 / 2 ^ 34) \<le> rnd a * rnd c" by (rule mult_mono) (use A C in auto)
  moreover have "rnd a * rnd c \<le> (2 ^ 32 * (1 + 1 / 2 ^ 52)) * (1 / 2 ^ 32 * (1 - 1 / 2 ^ 40) * (1 + 1 / 2 ^ 52))"
    by (rule mult_mono) (use A C in auto)
  ultimately have "1 / 2 ^ 36 \<le> p" "p \<le> 1 - 1 / 2 ^ 41"
    using fpu_bounds [OF f, of "rnd a * rnd c"] unfolding p_def by auto
  then have P: "1 / 2 ^ 36 \<le> p" "p * (1 + 1 / 2 ^ 52) < 1" by auto
  have L: "1 \<le> real limit" "real limit \<le> 2 ^ 32" using False limit by simp_all
  have "0 < p" using P(1) by (rule less_le_trans [rotated]) simp
  then have "1 / 2 ^ 36 * 1 \<le> p * real limit" "p * real limit \<le> 1 * 2 ^ 32"
    by (intro mult_mono; use P L in simp)+
  then have "rnd (p * real limit) \<le> (p * (1 + 1 / 2 ^ 52)) * real limit" "0 < rnd (p * real limit)"
    using fpu_bounds [OF f, of "p * real limit"] by (auto simp: ac_simps)
  moreover have "(p * (1 + 1 / 2 ^ 52)) * real limit < real limit" using P(2) False by simp
  ultimately have "nat \<lfloor>rnd (p * real limit)\<rfloor> \<le> limit - 1" by linarith
  then show ?thesis by (simp add: get_uniform_def g p_def a_def c_def k_def)
qed

section \<open>The test\<close>

definition MAX_BLOCKS :: nat where "MAX_BLOCKS = 128"
definition TEST_MAXMEM :: nat where "TEST_MAXMEM = 0x100000"

record mm_rq =
  address :: nat
  rq_bytes :: nat

text \<open>Requesting memory: a request that fails is tried again with another size.\<close>

partial_function (option) acquire ::
    "(real \<Rightarrow> real) \<Rightarrow> ('h \<Rightarrow> nat \<Rightarrow> (nat \<times> 'h) option) \<Rightarrow> mm_rq list \<Rightarrow> nat \<Rightarrow> seeds \<Rightarrow> 'h \<Rightarrow>
     (mm_rq list \<times> seeds \<times> 'h) option" where
  "acquire rnd user_malloc rqs total_bytes g h =
     (if length rqs < MAX_BLOCKS \<and> total_bytes < TEST_MAXMEM then
        case get_uniform rnd (TEST_MAXMEM - total_bytes - 1) g of (u, g) \<Rightarrow>
          (case user_malloc h (wrap32 (u + 1)) of
             None \<Rightarrow> None
           | Some (p, h) \<Rightarrow>
               if p \<noteq> 0 then
                 acquire rnd user_malloc (rqs @ [\<lparr>address = p, rq_bytes = wrap32 (u + 1)\<rparr>])
                   (wrap32 (total_bytes + wrap32 (u + 1))) g h
               else acquire rnd user_malloc rqs total_bytes g h)
      else Some (rqs, g, h))"

text \<open>The two loops over the blocks and \<open>memcheck\<close>.\<close>

fun fill :: "nat \<Rightarrow> mm_rq list \<Rightarrow> memory \<Rightarrow> memory" where
  "fill i [] m = m"
| "fill i (r # rqs) m =
     fill (i + 1) rqs (if address r \<noteq> 0 then user_memset (address r) (of_nat i) (rq_bytes r) m else m)"

fun memcheck :: "memory \<Rightarrow> nat \<Rightarrow> byte \<Rightarrow> nat \<Rightarrow> bool" where
  "memcheck m p v 0 = True"
| "memcheck m p v (Suc n) = (if m p \<noteq> v then False else memcheck m (p + 1) v n)"

fun check :: "memory \<Rightarrow> nat \<Rightarrow> mm_rq list \<Rightarrow> bool" where
  "check m i [] = True"
| "check m i (r # rqs) =
     (if address r \<noteq> 0 \<and> \<not> memcheck m (address r) (of_nat i) (rq_bytes r) then False
      else check m (i + 1) rqs)"

fun release :: "('h \<Rightarrow> nat \<Rightarrow> 'h option) \<Rightarrow> mm_rq list \<Rightarrow> 'h \<Rightarrow> 'h option" where
  "release user_free [] h = Some h"
| "release user_free (r # rqs) h =
     (if address r \<noteq> 0 then do { h \<leftarrow> user_free h (address r); release user_free rqs h }
      else release user_free rqs h)"

text \<open>One turn of the endless loop; \<open>False\<close> is the report of an error.\<close>

definition test_mm_turn ::
    "(real \<Rightarrow> real) \<Rightarrow> ('h \<Rightarrow> nat \<Rightarrow> (nat \<times> 'h) option) \<Rightarrow> ('h \<Rightarrow> nat \<Rightarrow> 'h option) \<Rightarrow>
     seeds \<times> 'h \<times> memory \<Rightarrow> (bool \<times> seeds \<times> 'h \<times> memory) option" where
  "test_mm_turn rnd user_malloc user_free = (\<lambda>(g, h, m). do {
     (rqs, g, h) \<leftarrow> acquire rnd user_malloc [] 0 g h;
     let m = fill 0 rqs m;
     if check m 0 rqs then do {
       h \<leftarrow> release user_free rqs h;
       Some (True, g, h, m)
     } else Some (False, g, h, m)
   })"

text \<open>The first \<open>n\<close> turns of \<open>test_mm\<close>, up to an error.\<close>

primrec test_mm ::
    "nat \<Rightarrow> (real \<Rightarrow> real) \<Rightarrow> ('h \<Rightarrow> nat \<Rightarrow> (nat \<times> 'h) option) \<Rightarrow> ('h \<Rightarrow> nat \<Rightarrow> 'h option) \<Rightarrow>
     seeds \<times> 'h \<times> memory \<Rightarrow> (bool \<times> seeds \<times> 'h \<times> memory) option" where
  "test_mm 0 rnd user_malloc user_free s = Some (True, s)"
| "test_mm (Suc n) rnd user_malloc user_free s = do {
     (ok, s) \<leftarrow> test_mm_turn rnd user_malloc user_free s;
     if ok then test_mm n rnd user_malloc user_free s else Some (False, s)
   }"

section \<open>Any allocator\<close>

lemma memcheck_iff: "memcheck m p v n \<longleftrightarrow> (\<forall>i<n. m (p + i) = v)"
  by (induction n arbitrary: p) (auto simp: less_Suc_eq_0_disj)

text \<open>The blocks \<open>B\<close> are those of \<open>L\<close> and one of at least the size for each request.\<close>

fun held :: "(nat \<times> nat) set \<Rightarrow> mm_rq list \<Rightarrow> (nat \<times> nat) set \<Rightarrow> bool" where
  "held L [] B \<longleftrightarrow> B = L"
| "held L (r # rqs) B \<longleftrightarrow>
     (\<exists>l\<ge>rq_bytes r. address r \<noteq> 0 \<and> (address r, l) \<in> B \<and> held L rqs (B - {(address r, l)}))"

lemma held_subset: "held L rqs B \<Longrightarrow> L \<subseteq> B"
  by (induction rqs arbitrary: B) fastforce+

lemma held_append:
  "held L rqs B \<Longrightarrow> (p, l) \<notin> B \<Longrightarrow> p \<noteq> 0 \<Longrightarrow> n \<le> l \<Longrightarrow>
   held L (rqs @ [\<lparr>address = p, rq_bytes = n\<rparr>]) (insert (p, l) B)"
proof (induction rqs arbitrary: B)
  case Nil
  then show ?case by auto
next
  case (Cons r rqs)
  then obtain k where k: "rq_bytes r \<le> k" "address r \<noteq> 0" "(address r, k) \<in> B"
    "held L rqs (B - {(address r, k)})" by auto
  have "insert (p, l) B - {(address r, k)} = insert (p, l) (B - {(address r, k)})"
    using k(3) Cons.prems(2) by auto
  then show ?case using k Cons.IH [OF k(4)] Cons.prems by auto
qed

text \<open>The loops write only to the blocks held, and what they write is what is checked.\<close>

lemma fill_frame:
  "held L rqs B \<Longrightarrow> (\<And>q k. (q, k) \<in> B - L \<Longrightarrow> a < q \<or> q + k \<le> a) \<Longrightarrow> fill i rqs m a = m a"
proof (induction rqs arbitrary: B i m)
  case (Cons r rqs)
  then obtain k where k: "rq_bytes r \<le> k" "(address r, k) \<in> B" "held L rqs (B - {(address r, k)})" by auto
  have "(address r, k) \<in> B - L" using k held_subset by blast
  then have "a < address r \<or> address r + rq_bytes r \<le> a" using Cons.prems(2) k(1) by fastforce
  then have m: "user_memset (address r) v (rq_bytes r) m a = m a" for v
    by (auto simp: user_memset_at)
  have "fill (i + 1) rqs m' a = m' a" for m'
    by (rule Cons.IH [OF k(3)]) (use Cons.prems(2) in blast)
  then show ?case using m by simp
qed simp

lemma all_apartD: "all_apart B \<Longrightarrow> a \<in> B \<Longrightarrow> b \<in> B \<Longrightarrow> a \<noteq> b \<Longrightarrow> apart a b"
  by (simp add: all_apart_def)

lemma all_apart_diff: "all_apart B \<Longrightarrow> all_apart (B - A)"
  by (simp add: all_apart_def)

lemma apart_outside: "apart (p, k) (q, l) \<Longrightarrow> j < k \<Longrightarrow> p + j < q \<or> q + l \<le> p + j"
  unfolding apart_def fst_conv snd_conv by linarith

lemma check_fill: "held L rqs B \<Longrightarrow> all_apart B \<Longrightarrow> check (fill i rqs m) i rqs"
proof (induction rqs arbitrary: B i m)
  case (Cons r rqs)
  then obtain k where k: "rq_bytes r \<le> k" "address r \<noteq> 0" "(address r, k) \<in> B"
    "held L rqs (B - {(address r, k)})" by auto
  let ?m = "user_memset (address r) (of_nat i) (rq_bytes r) m"
  have "fill (i + 1) rqs ?m (address r + j) = of_nat i" if "j < rq_bytes r" for j
  proof -
    have "address r + j < q \<or> q + l \<le> address r + j" if q: "(q, l) \<in> B - {(address r, k)} - L" for q l
      by (rule apart_outside [OF all_apartD [OF Cons.prems(2) k(3)]]) (use q k(1) \<open>j < rq_bytes r\<close> in auto)
    from fill_frame [OF k(4) this] show ?thesis using that by (simp add: user_memset_at)
  qed
  moreover have "check (fill (i + 1) rqs ?m) (i + 1) rqs"
    by (rule Cons.IH [OF k(4) all_apart_diff [OF Cons.prems(2)]])
  ultimately show ?case using k(2) by (simp add: memcheck_iff)
qed simp

context allocator
begin

lemma acquire_held:
  assumes "acquire rnd malloc rqs t g s = Some r" "inv s" "held L rqs (live s)"
  shows "inv (snd (snd r)) \<and> held L (fst r) (live (snd (snd r)))"
proof -
  let ?P = "\<lambda>rnd user_malloc rqs t g s (r :: mm_rq list \<times> seeds \<times> 's). user_malloc = malloc \<longrightarrow> inv s \<longrightarrow>
    held L rqs (live s) \<longrightarrow> inv (snd (snd r)) \<and> held L (fst r) (live (snd (snd r)))"
  have "?P rnd malloc rqs t g s r"
  proof (rule acquire.raw_induct [where P = ?P, OF _ assms(1)], intro impI)
    fix acq rnd user_malloc rqs t and g :: seeds and s :: 's and r
    assume IH: "\<And>rnd user_malloc rqs t g s r. acq rnd user_malloc rqs t g s = Some r \<Longrightarrow> ?P rnd user_malloc rqs t g s r"
      and step: "(if length rqs < MAX_BLOCKS \<and> t < TEST_MAXMEM then
        case get_uniform rnd (TEST_MAXMEM - t - 1) g of (u, g) \<Rightarrow>
          (case user_malloc s (wrap32 (u + 1)) of
             None \<Rightarrow> None
           | Some (p, s) \<Rightarrow>
               if p \<noteq> 0 then
                 acq rnd user_malloc (rqs @ [\<lparr>address = p, rq_bytes = wrap32 (u + 1)\<rparr>])
                   (wrap32 (t + wrap32 (u + 1))) g s
               else acq rnd user_malloc rqs t g s)
      else Some (rqs, g, s)) = Some r"
      and m: "user_malloc = malloc" and s: "inv s" and h: "held L rqs (live s)"
    show "inv (snd (snd r)) \<and> held L (fst r) (live (snd (snd r)))"
    proof (cases "length rqs < MAX_BLOCKS \<and> t < TEST_MAXMEM")
      case False
      then show ?thesis using step s h by (auto split: if_splits)
    next
      case True
      obtain u g' where g: "get_uniform rnd (TEST_MAXMEM - t - 1) g = (u, g')"
        by (cases "get_uniform rnd (TEST_MAXMEM - t - 1) g")
      let ?n = "wrap32 (u + 1)"
      from step g m obtain p s' where p: "malloc s ?n = Some (p, s')"
        and next_turn: "(if p \<noteq> 0 then acq rnd malloc (rqs @ [\<lparr>address = p, rq_bytes = ?n\<rparr>]) (wrap32 (t + ?n)) g' s'
          else acq rnd malloc rqs t g' s') = Some r"
        unfolding if_P [OF True] by (cases "malloc s ?n") (auto simp del: One_nat_def)
      note inv' = malloc_inv [OF s p]
      show ?thesis
      proof (cases "p = 0")
        case True
        then have "held L rqs (live s')" using malloc_null s p h by simp
        then show ?thesis using IH next_turn True inv' by simp
      next
        case False
        obtain l where l: "?n \<le> l" "live s' = insert (p, l) (live s)"
          using malloc_live [OF s p] False by blast
        have "(p, l) \<notin> live s" using malloc_new [OF s p] False by force
        then have "held L (rqs @ [\<lparr>address = p, rq_bytes = ?n\<rparr>]) (live s')"
          unfolding l(2) by (rule held_append [OF h _ False l(1)])
        then show ?thesis using IH next_turn False inv' by simp
      qed
    qed
  qed
  with assms show ?thesis by blast
qed

lemma release_held:
  "inv s \<Longrightarrow> held L rqs (live s) \<Longrightarrow> \<exists>s'. release free rqs s = Some s' \<and> inv s' \<and> live s' = L"
proof (induction rqs arbitrary: s)
  case (Cons r rqs)
  then obtain l where l: "address r \<noteq> 0" "(address r, l) \<in> live s" "held L rqs (live s - {(address r, l)})" by auto
  obtain s' where "free s (address r) = Some s'" "inv s'" "live s' = live s - {(address r, l)}"
    using free_live [OF Cons.prems(1) l(2)] by blast
  then show ?case using Cons.IH [of s'] l(1,3) by simp
qed simp

text \<open>A turn that gets its memory ends without an error, gives everything back, and leaves the
  memory of all other blocks alone.\<close>

lemma turn_passes:
  assumes "inv s" "acquire rnd malloc [] 0 g s \<noteq> None"
  shows "\<exists>g' s' m'. test_mm_turn rnd malloc free (g, s, m) = Some (True, g', s', m') \<and> inv s' \<and> live s' = live s \<and>
    (\<forall>p l i. (p, l) \<in> live s \<and> i < l \<longrightarrow> m' (p + i) = m (p + i))"
proof -
  obtain rqs g' s1 where a: "acquire rnd malloc [] 0 g s = Some (rqs, g', s1)" using assms(2) by auto
  have h: "inv s1" "held (live s) rqs (live s1)" using acquire_held [OF a assms(1), of "live s"] by auto
  note ap = live_apart [OF h(1)]
  have "check (fill 0 rqs m) 0 rqs" by (rule check_fill [OF h(2) ap])
  moreover obtain s' where "release free rqs s1 = Some s'" "inv s'" "live s' = live s"
    using release_held [OF h] by blast
  moreover have "fill 0 rqs m (p + i) = m (p + i)" if b: "(p, l) \<in> live s" "i < l" for p l i
  proof (rule fill_frame [OF h(2)])
    fix q k assume "(q, k) \<in> live s1 - live s"
    then show "p + i < q \<or> q + k \<le> p + i"
      using all_apartD [OF ap, of "(p, l)" "(q, k)"] held_subset [OF h(2)] b apart_outside by blast
  qed
  ultimately show ?thesis using a by (auto simp: test_mm_turn_def)
qed

end

section \<open>The bitmap allocator\<close>

text \<open>The array of pages is determined by its length and the blocks it encodes.\<close>

lemma scan_first: "scan i None ps = Some bs \<Longrightarrow> (j, n) \<in> set bs \<Longrightarrow> i \<le> j"
  using scan_bounds by blast

lemma scan_inject:
  assumes "scan i None ps = Some bs" "scan i None qs = Some bs'" "set bs = set bs'" "length ps = length qs"
  shows "ps = qs"
  using assms
proof (induction arbitrary: qs bs' rule: scan_induct)
  case (Nil i)
  then show ?case by simp
next
  case (Free i ps bs)
  from Free.prems(1) show ?case
  proof (cases rule: scan_cases)
    case 1
    then show ?thesis using Free.prems by simp
  next
    case (2 qs')
    then show ?thesis using Free.IH [of qs' bs'] Free.prems by simp
  next
    case (3 n rest b)
    then have "(i, n) \<in> set bs" using Free.prems(2) by simp
    then show ?thesis using scan_first [OF Free.hyps] by fastforce
  qed
next
  case (Block i n rest bs)
  from Block.prems(1) show ?case
  proof (cases rule: scan_cases)
    case 1
    then show ?thesis using Block.prems by simp
  next
    case (2 qs')
    have "(i, n) \<in> set bs'" using Block.prems(2) by auto
    then show ?thesis using scan_first [OF 2(2)] by fastforce
  next
    case (3 n' rest' b)
    have no: "(i, m) \<notin> set bs" "(i, m) \<notin> set b" for m
      using scan_first [OF Block.hyps(2)] scan_first [OF 3(3)] Block.hyps(1) 3(1) by fastforce+
    have "(i, n) \<in> set bs'" using Block.prems(2) by auto
    then have n: "n = n'" using no(2) 3(4) by auto
    have "set bs = set b" using Block.prems(2) no(1) [of n'] no(2) [of n'] unfolding 3(4) n list.set(2) by (simp add: insert_ident)
    then have "rest = rest'" using Block.IH [of rest' b] 3 n Block.prems(3) by simp
    then show ?thesis using 3(2) n by simp
  qed
qed

text \<open>Everything of the heap but the states of its pages.\<close>

definition geometry :: "heap \<Rightarrow> heap" where
  "geometry h = h\<lparr>pages := []\<rparr>"

lemma heap_eqI:
  assumes "heap_inv h" "heap_inv h'" "geometry h = geometry h'" "Mem_Bitmap.live h = Mem_Bitmap.live h'"
  shows "h = h'"
proof -
  obtain bs bs' where bs: "scan 0 None (pages h) = Some bs" "scan 0 None (pages h') = Some bs'"
    using heap_inv_scan assms(1,2) by blast
  have start: "heap_start h = heap_start h'" "page_qty h = page_qty h'"
    using arg_cong [OF assms(3), of heap_start] arg_cong [OF assms(3), of page_qty] by (simp_all add: geometry_def)
  let ?f = "\<lambda>(i, n). (heap_start h + PAGE_SIZE * i, PAGE_SIZE * n)"
  have "?f ` set bs = ?f ` set bs'" using assms(4) live_scan bs start by simp
  moreover have "inj ?f" by (rule injI) (simp only: page_offset_inj)
  ultimately have "set bs = set bs'" by (simp add: inj_image_eq_iff)
  moreover have "length (pages h) = length (pages h')" using assms(1,2) start by (simp add: heap_inv_def)
  ultimately have "pages h = pages h'" using scan_inject [OF bs] by simp
  then show ?thesis using assms(3) unfolding geometry_def by (cases h; cases h') simp
qed

lemma malloc_geometry: "heap_inv h \<Longrightarrow> Mem_Bitmap.malloc h n = Some (p, h') \<Longrightarrow> geometry h' = geometry h"
  by (erule malloc_cases [of h n]) (auto simp: geometry_def)

interpretation placed: allocator Mem_Bitmap.malloc Mem_Bitmap.free "\<lambda>h. heap_inv h \<and> geometry h = k"
  "\<lambda>h n. True" Mem_Bitmap.live for k
proof (unfold_locales, goal_cases)
  case (1 h n)
  then show ?case using bitmap.malloc_total by blast
next
  case (2 h n p h')
  then show ?case using bitmap.malloc_inv malloc_geometry by blast
next
  case (3 h n p h')
  show ?case by (rule refl)
next
  case (4 h n h')
  then show ?case using bitmap.malloc_null by blast
next
  case (5 h n p h')
  then show ?case using bitmap.malloc_live by blast
next
  case (6 h p l)
  then obtain h' where h': "Mem_Bitmap.free h p = Some h'" "heap_inv h'" "Mem_Bitmap.live h' = Mem_Bitmap.live h - {(p, l)}"
    "h' = h\<lparr>pages := pages h'\<rparr>"
    using free_live_block [of h p l p] bitmap.live_pos by auto
  have "geometry h' = geometry h" by (subst h'(4)) (simp add: geometry_def)
  then show ?case using h'(1-3) 6 by auto
next
  case (7 h)
  then show ?case using bitmap.live_apart by blast
next
  case (8 h p l)
  then show ?case using bitmap.live_pos by blast
qed

lemma pages_for_le:
  assumes "0 < n" "n \<le> k"
  shows "pages_for n + (k - n) div PAGE_SIZE \<le> k div PAGE_SIZE + 1"
proof -
  obtain d where k: "k = d + n" using assms(2) by (metis le_add_diff_inverse2)
  have "d div 32 + n div 32 \<le> (d + n) div 32" unfolding div_add1_eq [of d n 32] by simp
  then show ?thesis unfolding k pages_for_def PAGE_SIZE_def by simp
qed

text \<open>With enough free pages behind the used ones every request succeeds.\<close>

lemma acquire_returns:
  assumes "fpu rnd" "fresh h" "t \<le> TEST_MAXMEM" "length rqs \<le> MAX_BLOCKS"
    "used h + (TEST_MAXMEM - t) div PAGE_SIZE + (MAX_BLOCKS - length rqs) \<le> page_qty h"
  shows "acquire rnd Mem_Bitmap.malloc rqs t g h \<noteq> None"
  using assms(2-)
proof (induction "MAX_BLOCKS - length rqs" arbitrary: rqs t g h)
  case 0
  then show ?case by (subst acquire.simps) simp
next
  case (Suc k)
  show ?case
  proof (cases "t < TEST_MAXMEM")
    case False
    then show ?thesis by (subst acquire.simps) simp
  next
    case True
    obtain u g' where g: "get_uniform rnd (TEST_MAXMEM - t - 1) g = (u, g')"
      by (cases "get_uniform rnd (TEST_MAXMEM - t - 1) g")
    have small: "TEST_MAXMEM < 2 ^ 32" by (simp add: TEST_MAXMEM_def)
    have u: "u \<le> TEST_MAXMEM - t - 1 - 1"
      using get_uniform_less [OF assms(1), of "TEST_MAXMEM - t - 1" g] g small by simp
    let ?n = "u + 1"
    have n: "?n \<le> TEST_MAXMEM - t" "0 < ?n" "wrap32 ?n = ?n" "wrap32 (t + ?n) = t + ?n"
      using u True small by (auto simp: wrap32_def)
    have room: "pages_for ?n + (TEST_MAXMEM - (t + ?n)) div PAGE_SIZE \<le> (TEST_MAXMEM - t) div PAGE_SIZE + 1"
      using pages_for_le [OF n(2,1)] by simp
    have fits: "used h + pages_for ?n \<le> page_qty h" using room Suc.prems(4) Suc.hyps(2) by linarith
    note gr = grab_ok [OF Suc.prems(1) n(2) fits]
    have "acquire rnd Mem_Bitmap.malloc (rqs @ [\<lparr>address = place h, rq_bytes = ?n\<rparr>]) (t + ?n) g' (grab h ?n) \<noteq> None"
      by (rule Suc.hyps(1)) (use Suc.hyps(2) Suc.prems n gr(2) room in auto)
    then show ?thesis
      by (subst acquire.simps) (use True Suc.hyps(2) g n gr(1) fresh_place [OF Suc.prems(1)] in \<open>simp del: One_nat_def\<close>)
  qed
qed

lemma turn_returns:
  assumes "fpu rnd" "fresh h" "used h + TEST_MAXMEM div PAGE_SIZE + MAX_BLOCKS \<le> page_qty h"
  shows "\<exists>g' m'. test_mm_turn rnd Mem_Bitmap.malloc Mem_Bitmap.free (g, h, m) = Some (True, g', h, m') \<and>
    (\<forall>p l i. (p, l) \<in> Mem_Bitmap.live h \<and> i < l \<longrightarrow> m' (p + i) = m (p + i))"
proof -
  have inv: "heap_inv h" using assms(2) by (simp add: fresh_def)
  have "acquire rnd Mem_Bitmap.malloc [] 0 g h \<noteq> None"
    by (rule acquire_returns) (use assms in simp_all)
  then obtain g' h' m' where t: "test_mm_turn rnd Mem_Bitmap.malloc Mem_Bitmap.free (g, h, m) = Some (True, g', h', m')"
    "heap_inv h' \<and> geometry h' = geometry h" "Mem_Bitmap.live h' = Mem_Bitmap.live h"
    "\<forall>p l i. (p, l) \<in> Mem_Bitmap.live h \<and> i < l \<longrightarrow> m' (p + i) = m (p + i)"
    using placed.turn_passes [of h "geometry h" rnd g m] inv by blast
  have "h' = h" by (rule heap_eqI) (use t inv in simp_all)
  then show ?thesis using t by blast
qed

lemma turns_return:
  assumes "fpu rnd" "fresh h" "used h + TEST_MAXMEM div PAGE_SIZE + MAX_BLOCKS \<le> page_qty h"
  shows "\<exists>g' m'. test_mm n rnd Mem_Bitmap.malloc Mem_Bitmap.free (g, h, m) = Some (True, g', h, m') \<and>
    (\<forall>p l i. (p, l) \<in> Mem_Bitmap.live h \<and> i < l \<longrightarrow> m' (p + i) = m (p + i))"
proof (induction n arbitrary: g m)
  case (Suc n)
  obtain g1 m1 where t: "test_mm_turn rnd Mem_Bitmap.malloc Mem_Bitmap.free (g, h, m) = Some (True, g1, h, m1)"
    "\<forall>p l i. (p, l) \<in> Mem_Bitmap.live h \<and> i < l \<longrightarrow> m1 (p + i) = m (p + i)"
    using turn_returns [OF assms] by blast
  with Suc.IH [of g1 m1] show ?case by auto
qed simp

text \<open>In particular on the heap \<open>main\<close> leaves to the user programs.\<close>

lemma memory_test_after_boot:
  assumes "fpu rnd" "next_pid s = 2" "userland \<noteq> 0" "idle_at \<noteq> 0"
  shows "\<exists>s'. kernel_boot userland idle_at s = Some s' \<and>
    (\<forall>n g m. \<exists>g' m'. test_mm n rnd Mem_Bitmap.malloc Mem_Bitmap.free (g, mm s', m) = Some (True, g', mm s', m'))"
proof -
  obtain s' where s': "kernel_boot userland idle_at s = Some s'" "fresh (mm s')" "used (mm s') = 546" "page_qty (mm s') = 1277952"
    using boot_heap_left [OF assms(2-4)] by blast
  then have "used (mm s') + TEST_MAXMEM div PAGE_SIZE + MAX_BLOCKS \<le> page_qty (mm s')"
    by (simp add: TEST_MAXMEM_def PAGE_SIZE_def MAX_BLOCKS_def)
  from turns_return [OF assms(1) s'(2) this] s'(1) show ?thesis by blast
qed

text \<open>The buddy allocator passes a turn whenever it hands out the memory.\<close>

lemma buddy_passes:
  assumes "buddy_inv b" "acquire rnd Mem_Buddy.malloc [] 0 g b \<noteq> None"
  shows "\<exists>g' b' m'. test_mm_turn rnd Mem_Buddy.malloc Mem_Buddy.free (g, b, m) = Some (True, g', b', m') \<and>
    Mem_Buddy.live b' = Mem_Buddy.live b"
  using buddy.turn_passes [OF assms] by blast

text \<open>C16: the memory test of the user programs passes on the bitmap allocator. With one megabyte
  and 128 pages free behind the used pages, as after the start of the kernel, and for every
  state of the random number generator, any number of turns of \<open>test_mm\<close> returns without the
  report of an error; the heap is afterwards exactly what it was, and no byte of a block that
  was in use before is changed.\<close>

theorem memory_test_passes:
  assumes "fpu rnd" "fresh h" "used h + TEST_MAXMEM div PAGE_SIZE + MAX_BLOCKS \<le> page_qty h"
  shows "\<exists>g' m'. test_mm n rnd Mem_Bitmap.malloc Mem_Bitmap.free (g, h, m) = Some (True, g', h, m') \<and>
    (\<forall>p l i. (p, l) \<in> Mem_Bitmap.live h \<and> i < l \<longrightarrow> m' (p + i) = m (p + i))"
  by (rule turns_return [OF assms])

theorem memory_test_passes_witness:
  "\<exists>g' m'. test_mm 3 (\<lambda>x. x) Mem_Bitmap.malloc Mem_Bitmap.free (start_seeds, Mem_Bitmap.init_mm 0x600000 0x2700000 heap_zero, \<lambda>a. 0) =
    Some (True, g', Mem_Bitmap.init_mm 0x600000 0x2700000 heap_zero, m')"
  using memory_test_passes [of "\<lambda>x. x" "Mem_Bitmap.init_mm 0x600000 0x2700000 heap_zero" 3 start_seeds "\<lambda>a. 0"]
    init_mm_boot [OF refl, of heap_zero]
  by (auto simp: fpu_def TEST_MAXMEM_def PAGE_SIZE_def MAX_BLOCKS_def)

end
