(* ===== verification/Test_Processes.thy ===== *)
theory Test_Processes
  imports Blocking
begin

text \<open>
  The process test of the user programs, Userland/SampleCodeModule/test_processes.c: five
  processes are created and then killed, blocked and unblocked at random until none is left. The
  kernel answers from the status of each process; \<open>block_process_answers\<close> and
  \<open>force_kill_answers\<close> show that the calls of Blocking give these answers and statuses. Between
  two calls the scheduler may run any of the processes and remove the dead ones.
\<close>

section \<open>The kernel as the test sees it\<close>

type_synonym statuses = "int \<Rightarrow> status_t option"

definition call_block :: "int \<Rightarrow> statuses \<Rightarrow> int \<times> statuses" where
  "call_block p st =
     (case st p of
        None \<Rightarrow> (- 1, st)
      | Some x \<Rightarrow>
          if x = READY \<or> x = RUNNING then (1, st(p \<mapsto> BLOCKED))
          else if x = BLOCKED then (2, st(p \<mapsto> READY))
          else (- 1, st))"

definition call_force_kill :: "int \<Rightarrow> statuses \<Rightarrow> int \<times> statuses" where
  "call_force_kill p st =
     (if st p = None \<or> p = SHELL_PID then (- 1, st) else (1, st(p \<mapsto> DEAD)))"

section \<open>The test\<close>

text \<open>The enumeration RUNNING, BLOCKED, KILLED of the test.\<close>

datatype run_state = Running | Blocked | Killed

record p_rq =
  rq_pid :: int
  rq_state :: run_state

record process_test =
  p_rqs :: "p_rq list"
  alive :: nat
  table_of :: statuses

definition max_processes :: nat where "max_processes = 5"

definition set_rq :: "nat \<Rightarrow> run_state \<Rightarrow> process_test \<Rightarrow> process_test" where
  "set_rq rq x t = t\<lparr>p_rqs := (p_rqs t)[rq := (p_rqs t ! rq)\<lparr>rq_state := x\<rparr>]\<rparr>"

text \<open>
  The first loop, over the answers of \<open>call_create_process\<close>; \<open>None\<close> is the report of an error and
  the return of -1. A new process is ready.
\<close>

fun create_all :: "int list \<Rightarrow> process_test \<Rightarrow> process_test option" where
  "create_all [] t = Some t"
| "create_all (p # ps) t =
     (if p = - 1 then None
      else create_all ps (t\<lparr>p_rqs := p_rqs t @ [\<lparr>rq_pid = p, rq_state = Running\<rparr>], alive := alive t + 1,
             table_of := (table_of t)(p \<mapsto> READY)\<rparr>))"

text \<open>The body of the second loop; \<open>action\<close> is the random number modulo 2.\<close>

definition act_on :: "nat \<Rightarrow> nat \<Rightarrow> process_test \<Rightarrow> process_test option" where
  "act_on rq action t =
     (let r = p_rqs t ! rq
      in if action = 0 then
           (if rq_state r = Running \<or> rq_state r = Blocked then
              (case call_force_kill (rq_pid r) (table_of t) of (x, st) \<Rightarrow>
                 if x = - 1 then None
                 else Some ((set_rq rq Killed t)\<lparr>alive := alive t - 1, table_of := st\<rparr>))
            else Some t)
         else if action = 1 then
           (if rq_state r = Running then
              (case call_block (rq_pid r) (table_of t) of (x, st) \<Rightarrow>
                 if x = - 1 then None else Some ((set_rq rq Blocked t)\<lparr>table_of := st\<rparr>))
            else Some t)
         else Some t)"

text \<open>The body of the third loop.\<close>

definition unblock :: "nat \<Rightarrow> nat \<Rightarrow> process_test \<Rightarrow> process_test option" where
  "unblock rq action t =
     (let r = p_rqs t ! rq
      in if rq_state r = Blocked \<and> action \<noteq> 0 then
           (case call_block (rq_pid r) (table_of t) of (x, st) \<Rightarrow>
              if x = - 1 then None else Some ((set_rq rq Running t)\<lparr>table_of := st\<rparr>))
         else Some t)"

text \<open>What the scheduler may do meanwhile: run ready processes, stop running ones, remove dead ones.\<close>

definition same_for_test :: "status_t option \<Rightarrow> status_t option \<Rightarrow> bool" where
  "same_for_test x y \<longleftrightarrow> x = y \<or> x \<in> {Some READY, Some RUNNING} \<and> y \<in> {Some READY, Some RUNNING} \<or>
     x = Some DEAD \<and> y = None"

text \<open>The states of the test, each call a step; a pid that was never given out is free.\<close>

inductive testing :: "process_test \<Rightarrow> bool" where
  created: "distinct ps \<Longrightarrow> length ps = max_processes \<Longrightarrow> SHELL_PID \<notin> set ps \<Longrightarrow>
     create_all ps \<lparr>p_rqs = [], alive = 0, table_of = st\<rparr> = Some t \<Longrightarrow> testing t"
| acted: "testing t \<Longrightarrow> rq < max_processes \<Longrightarrow> act_on rq action t = Some t' \<Longrightarrow> testing t'"
| unblocked: "testing t \<Longrightarrow> rq < max_processes \<Longrightarrow> unblock rq action t = Some t' \<Longrightarrow> testing t'"
| scheduled: "testing t \<Longrightarrow> (\<And>p. same_for_test (table_of t p) (st p)) \<Longrightarrow> testing (t\<lparr>table_of := st\<rparr>)"

section \<open>The answers of the kernel\<close>

lemma block_process_answers:
  assumes "get_pcb_entry s p = Some pcb" "pcb \<noteq> 0" "pcb \<noteq> current_pcb s" "st p = Some (status_of s pcb)"
  shows "\<exists>s'. block_process p s = Some (fst (call_block p st), s') \<and>
    snd (call_block p st) p = Some (status_of s' pcb)"
  using assms by (auto simp: block_process_def call_block_def set_status_def status_of_def process_of_def Let_def)

lemma force_kill_answers:
  assumes "force_kill p s = Some (r, s')" "get_pcb_entry s p = Some pcb" "process (pcbs s pcb) \<noteq> 0"
    "st p = (if pcb = 0 then None else Some (status_of s pcb))"
  shows "r = fst (call_force_kill p st)"
  using assms by (auto simp: force_kill_def not_killable_def call_force_kill_def bind_eq_Some_conv Let_def split: if_splits)

section \<open>The invariant\<close>

text \<open>What the test believes of a process and what the kernel has.\<close>

fun believed :: "run_state \<Rightarrow> status_t option \<Rightarrow> bool" where
  "believed Running x \<longleftrightarrow> x = Some READY \<or> x = Some RUNNING"
| "believed Blocked x \<longleftrightarrow> x = Some BLOCKED"
| "believed Killed x \<longleftrightarrow> x = Some DEAD \<or> x = None"

definition test_inv :: "process_test \<Rightarrow> bool" where
  "test_inv t \<longleftrightarrow> length (p_rqs t) = max_processes \<and> distinct (map rq_pid (p_rqs t)) \<and>
     SHELL_PID \<notin> rq_pid ` set (p_rqs t) \<and>
     (\<forall>r\<in>set (p_rqs t). believed (rq_state r) (table_of t (rq_pid r))) \<and>
     alive t = length (filter (\<lambda>r. rq_state r \<noteq> Killed) (p_rqs t))"

lemma create_all_result:
  "create_all ps t = Some t' \<Longrightarrow>
   p_rqs t' = p_rqs t @ map (\<lambda>p. \<lparr>rq_pid = p, rq_state = Running\<rparr>) ps \<and> alive t' = alive t + length ps \<and>
   table_of t' q = (if q \<in> set ps then Some READY else table_of t q)"
proof (induction ps arbitrary: t)
  case (Cons p ps)
  let ?t = "t\<lparr>p_rqs := p_rqs t @ [\<lparr>rq_pid = p, rq_state = Running\<rparr>], alive := alive t + 1,
    table_of := (table_of t)(p \<mapsto> READY)\<rparr>"
  have "create_all ps ?t = Some t'" using Cons.prems by (simp split: if_splits)
  from Cons.IH [OF this] show ?case by simp
qed simp

text \<open>Changing the state of one process and the status the kernel has of it.\<close>

lemma inv_change:
  assumes "test_inv t" "rq < max_processes" "r = p_rqs t ! rq" "believed x y"
    "n = alive t - (if rq_state r \<noteq> Killed then 1 else 0) + (if x \<noteq> Killed then 1 else 0)"
  shows "test_inv ((set_rq rq x t)\<lparr>alive := n, table_of := (table_of t)(rq_pid r := y)\<rparr>)"
proof -
  have len: "rq < length (p_rqs t)" using assms(1,2) by (simp add: test_inv_def)
  define as bs where "as = take rq (p_rqs t)" and "bs = drop (Suc rq) (p_rqs t)"
  have split: "p_rqs t = as @ r # bs" "length as = rq"
    using id_take_nth_drop [OF len] len by (simp_all add: as_def bs_def assms(3))
  have dist: "distinct (map rq_pid (as @ r # bs))" and bel: "\<forall>v\<in>set (as @ r # bs). believed (rq_state v) (table_of t (rq_pid v))"
    using assms(1) unfolding test_inv_def split(1) by simp_all
  have other: "rq_pid r \<notin> rq_pid ` (set as \<union> set bs)" using dist by auto
  have "believed (rq_state v) (((table_of t)(rq_pid r := y)) (rq_pid v))" if v: "v \<in> set as \<union> set bs" for v
  proof -
    have "rq_pid v \<noteq> rq_pid r" using other v by (metis imageI)
    then show ?thesis using bel v by simp
  qed
  moreover have "p_rqs (set_rq rq x t) = as @ r\<lparr>rq_state := x\<rparr> # bs"
    unfolding set_rq_def assms(3) [symmetric] by (simp add: split)
  moreover have "n = length (filter (\<lambda>r. rq_state r \<noteq> Killed) (as @ r\<lparr>rq_state := x\<rparr> # bs))"
    using assms(1,5) unfolding test_inv_def split(1) by auto
  ultimately show ?thesis
    using assms(1,4) unfolding test_inv_def split(1) by simp
qed

lemma killable:
  "believed x (st p) \<Longrightarrow> x \<noteq> Killed \<Longrightarrow> p \<noteq> SHELL_PID \<Longrightarrow> call_force_kill p st = (1, st(p \<mapsto> DEAD))"
  by (cases x) (auto simp: call_force_kill_def)

lemma blockable:
  "believed Running (st p) \<Longrightarrow> call_block p st = (1, st(p \<mapsto> BLOCKED))"
  "believed Blocked (st p) \<Longrightarrow> call_block p st = (2, st(p \<mapsto> READY))"
  by (auto simp: call_block_def)

lemma rq_facts:
  assumes "test_inv t" "rq < max_processes"
  shows "believed (rq_state (p_rqs t ! rq)) (table_of t (rq_pid (p_rqs t ! rq)))" "rq_pid (p_rqs t ! rq) \<noteq> SHELL_PID"
    "rq_state (p_rqs t ! rq) \<noteq> Killed \<Longrightarrow> 0 < alive t"
proof -
  have r: "p_rqs t ! rq \<in> set (p_rqs t)" using assms by (simp add: test_inv_def)
  show "believed (rq_state (p_rqs t ! rq)) (table_of t (rq_pid (p_rqs t ! rq)))" "rq_pid (p_rqs t ! rq) \<noteq> SHELL_PID"
    using assms(1) r unfolding test_inv_def by (blast, metis imageI)
  show "rq_state (p_rqs t ! rq) \<noteq> Killed \<Longrightarrow> 0 < alive t"
    using assms(1) r unfolding test_inv_def by (auto simp: filter_empty_conv)
qed

lemma inv_live:
  assumes "test_inv t" "rq < max_processes" "rq_state (p_rqs t ! rq) \<noteq> Killed" "x \<noteq> Killed" "believed x y"
  shows "test_inv ((set_rq rq x t)\<lparr>table_of := (table_of t)(rq_pid (p_rqs t ! rq) := y)\<rparr>)"
proof -
  have "(set_rq rq x t)\<lparr>alive := alive t, table_of := st\<rparr> = (set_rq rq x t)\<lparr>table_of := st\<rparr>" for st
    by (cases t) (simp add: set_rq_def)
  then show ?thesis
    using inv_change [OF assms(1,2) refl assms(5), of "alive t"] assms(3,4) rq_facts(3) [OF assms(1-3)] by simp
qed

lemma act_on_ok:
  assumes "test_inv t" "rq < max_processes"
  shows "\<exists>t'. act_on rq action t = Some t' \<and> test_inv t'"
proof -
  let ?r = "p_rqs t ! rq"
  note f = rq_facts [OF assms]
  consider "action = 0" "rq_state ?r \<noteq> Killed" | "action = 1" "rq_state ?r = Running" |
    "action = 0" "rq_state ?r = Killed" | "action = 1" "rq_state ?r \<noteq> Running" | "action \<noteq> 0" "action \<noteq> 1"
    by blast
  then show ?thesis
  proof cases
    case 1
    have "rq_state ?r = Running \<or> rq_state ?r = Blocked" using 1(2) by (cases "rq_state ?r") simp_all
    then have "act_on rq action t = Some ((set_rq rq Killed t)\<lparr>alive := alive t - 1,
        table_of := (table_of t)(rq_pid ?r \<mapsto> DEAD)\<rparr>)"
      using killable [of "rq_state ?r" "table_of t" "rq_pid ?r", OF f(1) 1(2) f(2)] 1(1) by (auto simp: act_on_def Let_def)
    moreover have "test_inv ((set_rq rq Killed t)\<lparr>alive := alive t - 1, table_of := (table_of t)(rq_pid ?r \<mapsto> DEAD)\<rparr>)"
      by (rule inv_change [OF assms refl]) (use 1(2) in simp_all)
    ultimately show ?thesis by blast
  next
    case 2
    then have "act_on rq action t = Some ((set_rq rq Blocked t)\<lparr>table_of := (table_of t)(rq_pid ?r \<mapsto> BLOCKED)\<rparr>)"
      using blockable(1) [of "table_of t" "rq_pid ?r"] f(1) by (simp add: act_on_def Let_def)
    moreover have "test_inv ((set_rq rq Blocked t)\<lparr>table_of := (table_of t)(rq_pid ?r \<mapsto> BLOCKED)\<rparr>)"
      by (rule inv_live [OF assms]) (use 2 in simp_all)
    ultimately show ?thesis by blast
  qed (use assms(1) in \<open>simp_all add: act_on_def Let_def\<close>)
qed

lemma unblock_ok:
  assumes "test_inv t" "rq < max_processes"
  shows "\<exists>t'. unblock rq action t = Some t' \<and> test_inv t'"
proof (cases "rq_state (p_rqs t ! rq) = Blocked \<and> action \<noteq> 0")
  case True
  let ?r = "p_rqs t ! rq"
  have "unblock rq action t = Some ((set_rq rq Running t)\<lparr>table_of := (table_of t)(rq_pid ?r \<mapsto> READY)\<rparr>)"
    using blockable(2) [of "table_of t" "rq_pid ?r"] rq_facts(1) [OF assms] True by (simp add: unblock_def Let_def)
  moreover have "test_inv ((set_rq rq Running t)\<lparr>table_of := (table_of t)(rq_pid ?r \<mapsto> READY)\<rparr>)"
    by (rule inv_live [OF assms]) (use True in simp_all)
  ultimately show ?thesis by blast
qed (use assms(1) in \<open>auto simp: unblock_def Let_def\<close>)

lemma testing_inv: "testing t \<Longrightarrow> test_inv t"
proof (induction rule: testing.induct)
  case (created ps st t)
  have "p_rqs t = map (\<lambda>p. \<lparr>rq_pid = p, rq_state = Running\<rparr>) ps" "alive t = length ps"
    "\<forall>q\<in>set ps. table_of t q = Some READY"
    using create_all_result [OF created(4)] by auto
  then show ?case using created(1-3) by (auto simp: test_inv_def comp_def)
next
  case (acted t rq action t')
  then show ?case using act_on_ok [of t rq action] by simp
next
  case (unblocked t rq action t')
  then show ?case using unblock_ok [of t rq action] by simp
next
  case (scheduled t st)
  have "believed x (st p)" if "believed x (table_of t p)" for x p
    using scheduled(2) [of p] that by (cases x) (auto simp: same_for_test_def)
  then show ?case using scheduled.IH by (simp add: test_inv_def)
qed



end
