(* ===== verification/Test_Sync.thy ===== *)
theory Test_Sync
  imports Blocking "HOL-Library.Word"
begin

text \<open>
  The synchronisation test of the user programs, Userland/SampleCodeModule/test_sync.c: twenty
  processes add to and subtract from one variable, each giving up the processor between reading
  and writing it, with or without a semaphore around. A run is any interleaving of the steps
  between two points where a process can be switched out. Of the semaphore it keeps the lock
  word, \<open>None\<close> before it is opened; the lemmas on \<open>lock_of\<close> show that the calls of the kernel
  do with their lock word what the steps do. A process that meets a held lock has no step.
\<close>

section \<open>The processes\<close>

definition TOTAL_PAIR_PROCESSES :: nat where "TOTAL_PAIR_PROCESSES = 10"

text \<open>The constant \<open>n = 5\<close> that replaces the first argument.\<close>

definition turns :: nat where "turns = 5"

datatype pc = Opening | Waiting | Loading | Storing | Posting | Ended

record worker =
  pc :: pc
  done_turns :: nat
  aux :: "64 word"
  inc :: "64 word"

record sync =
  lock :: "nat option"
  global :: "64 word"
  workers :: "worker list"

text \<open>The head of the loop \<open>for (i = 0; i < n; i++)\<close>.\<close>

definition loop_head :: "bool \<Rightarrow> worker \<Rightarrow> worker" where
  "loop_head use_sem w =
     w\<lparr>pc := (if done_turns w < turns then (if use_sem then Waiting else Loading) else Ended)\<rparr>"

text \<open>
  The lock word under \<open>call_sem_open(0, argv[4])\<close>, the exchange in \<open>enter_region\<close> and the one in
  \<open>leave_region\<close>. \<open>my_sem_wait\<close> of a semaphore that is not open returns at once.
\<close>

definition opened_lock :: "nat option \<Rightarrow> nat option" where
  "opened_lock l = (case l of None \<Rightarrow> Some 0 | Some x \<Rightarrow> Some x)"

definition taken_lock :: "nat option \<Rightarrow> nat option option" where
  "taken_lock l = (case l of None \<Rightarrow> Some None | Some x \<Rightarrow> if x = 0 then Some (Some 1) else None)"

definition left_lock :: "nat option \<Rightarrow> nat option" where
  "left_lock l = map_option (\<lambda>x. 0) l"

text \<open>\<open>slow_inc\<close> reads the variable, yields, and writes it; \<open>my_process_inc\<close> is the rest.\<close>

definition my_process_inc :: "bool \<Rightarrow> nat option \<times> 64 word \<times> worker \<Rightarrow> (nat option \<times> 64 word \<times> worker) option" where
  "my_process_inc use_sem = (\<lambda>(l, g, w). case pc w of
     Opening \<Rightarrow> Some (if use_sem then opened_lock l else l, g, loop_head use_sem w)
   | Waiting \<Rightarrow> map_option (\<lambda>l. (l, g, w\<lparr>pc := Loading\<rparr>)) (taken_lock l)
   | Loading \<Rightarrow> Some (l, g, w\<lparr>aux := g, pc := Storing\<rparr>)
   | Storing \<Rightarrow>
       Some (l, aux w + inc w,
         if use_sem then w\<lparr>pc := Posting\<rparr> else loop_head use_sem (w\<lparr>done_turns := done_turns w + 1\<rparr>))
   | Posting \<Rightarrow> Some (left_lock l, g, loop_head use_sem (w\<lparr>done_turns := done_turns w + 1\<rparr>))
   | Ended \<Rightarrow> None)"

definition sync_step :: "bool \<Rightarrow> nat \<Rightarrow> sync \<Rightarrow> sync option" where
  "sync_step use_sem k s =
     (if k < length (workers s) then
        (case my_process_inc use_sem (lock s, global s, workers s ! k) of
           None \<Rightarrow> None
         | Some (l, g, w) \<Rightarrow> Some \<lparr>lock = l, global = g, workers = (workers s)[k := w]\<rparr>)
      else None)"

text \<open>The processes \<open>test_sync\<close> creates, a decreaser and an increaser in turn.\<close>

definition new_worker :: "64 word \<Rightarrow> worker" where
  "new_worker i = \<lparr>pc = Opening, done_turns = 0, aux = 0, inc = i\<rparr>"

definition created :: "worker list" where
  "created = concat (replicate TOTAL_PAIR_PROCESSES [new_worker (- 1), new_worker 1])"

definition test_sync :: "nat option \<Rightarrow> sync" where
  "test_sync l = \<lparr>lock = l, global = 0, workers = created\<rparr>"

text \<open>A run starts with the semaphore not open, or left open and free by an earlier test.\<close>

inductive sync_run :: "bool \<Rightarrow> sync \<Rightarrow> bool" for use_sem :: bool where
  start: "l = None \<or> l = Some 0 \<Longrightarrow> sync_run use_sem (test_sync l)"
| step: "sync_run use_sem s \<Longrightarrow> sync_step use_sem k s = Some s' \<Longrightarrow> sync_run use_sem s'"

definition finished :: "sync \<Rightarrow> bool" where
  "finished s \<longleftrightarrow> (\<forall>w\<in>set (workers s). pc w = Ended)"

section \<open>The lock word in the kernel\<close>

definition lock_of :: "string \<Rightarrow> kernel \<Rightarrow> nat option" where
  "lock_of n s = map_option (\<lambda>i. is_locked (sem_at s i)) (locate_sem n s)"

definition lock_view :: "space_t list \<Rightarrow> (nat \<times> string \<times> nat) list" where
  "lock_view sps = map (\<lambda>sp. (sem_status sp, sem_id (sem sp), is_locked (sem sp))) sps"

fun find_lock :: "string \<Rightarrow> (nat \<times> string \<times> nat) list \<Rightarrow> nat option" where
  "find_lock n [] = None"
| "find_lock n ((x, m, l) # v) = (if x = UNAVAILABLE \<and> m = n then Some l else find_lock n v)"

lemma locate_loop_view:
  "map_option (\<lambda>j. is_locked (sem (sps ! (j - i)))) (locate_loop sps n i) = find_lock n (lock_view sps)"
proof (induction sps n i rule: locate_loop.induct)
  case (2 sp sps n i)
  have "map_option (\<lambda>j. is_locked (sem ((sp # sps) ! (j - i)))) (locate_loop sps n (i + 1)) =
      map_option (\<lambda>j. is_locked (sem (sps ! (j - (i + 1))))) (locate_loop sps n (i + 1))"
    by (cases "locate_loop sps n (i + 1)") (auto dest!: locate_loop_Some simp: nth_Cons' Suc_le_eq diff_diff_left)
  then show ?case using 2 by (auto simp: lock_view_def)
qed (simp add: lock_view_def)

lemma lock_of_view: "lock_of n s = find_lock n (lock_view (sem_spaces s))"
  using locate_loop_view [of "sem_spaces s" 0 n] by (simp add: lock_of_def locate_sem_def sem_at_def)

lemma lock_of_at: "locate_sem n s = Some i \<Longrightarrow> i < length (sem_spaces s) \<and> lock_of n s = Some (is_locked (sem_at s i))"
  using locate_loop_Some [of "sem_spaces s" n 0 i] by (simp add: locate_sem_def lock_of_def)

lemma locate_loop_found: "locate_loop sps n i = Some j \<Longrightarrow>
    sem_status (sps ! (j - i)) = UNAVAILABLE \<and> sem_id (sem (sps ! (j - i))) = n"
proof (induction sps n i rule: locate_loop.induct)
  case (2 sp sps n i)
  then show ?case by (auto dest!: locate_loop_Some simp: nth_Cons' Suc_le_eq diff_diff_left split: if_splits)
qed simp

lemma find_lock_here: "find_lock n v = Some l \<Longrightarrow> \<exists>i<length v. v ! i = (UNAVAILABLE, n, l)"
  by (induction n v rule: find_lock.induct) (auto split: if_splits)

lemma find_lock_update:
  "locate_loop sps n i = Some (i + j) \<Longrightarrow> sem_status sp = UNAVAILABLE \<Longrightarrow> sem_id (sem sp) = n \<Longrightarrow>
   find_lock n (lock_view (sps[j := sp])) = Some (is_locked (sem sp))"
proof (induction sps n i arbitrary: j rule: locate_loop.induct)
  case (2 sp' sps n i)
  then show ?case
    by (cases j) (auto simp: lock_view_def dest!: locate_loop_Some split: if_splits)
qed simp

lemma find_lock_new:
  "find_available sps i = Some (i + j) \<Longrightarrow> find_lock n (lock_view sps) = None \<Longrightarrow> sem_status sp = UNAVAILABLE \<Longrightarrow>
   sem_id (sem sp) = n \<Longrightarrow> find_lock n (lock_view (sps[j := sp])) = Some (is_locked (sem sp))"
proof (induction sps i arbitrary: j rule: find_available.induct)
  case (2 sp' sps i)
  show ?case
  proof (cases j)
    case 0
    then show ?thesis using 2 by (simp add: lock_view_def)
  next
    case (Suc j')
    then have "sem_status sp' \<noteq> AVAILABLE" "find_available sps (i + 1) = Some (i + 1 + j')"
      using 2(2) by (auto split: if_splits)
    then show ?thesis using 2(1) [of j'] 2(3-5) Suc by (auto simp: lock_view_def split: if_splits)
  qed
qed simp

text \<open>\<open>my_sem_open\<close> with 0, \<open>my_sem_wait\<close> and \<open>my_sem_post\<close> do to the lock word what the steps do.\<close>

lemma open_opens:
  assumes "my_sem_open 0 n s = Some (r, s')" "r \<noteq> - 1"
  shows "lock_of n s' = opened_lock (lock_of n s)"
proof (cases "locate_sem n s")
  case None
  then have no: "find_lock n (lock_view (sem_spaces s)) = None" by (simp flip: lock_of_view add: lock_of_def)
  from None assms obtain i where i: "find_available (sem_spaces s) 0 = Some i"
    by (auto simp: my_sem_open_def split: option.splits)
  then have "i < length (sem_spaces s)" using find_available_less by fastforce
  let ?x = "\<lambda>x. x\<lparr>counter := to_int32 0, is_locked := 0, sem_id := n, queue_size := 0, waiting := [],
    allowed_process_count := 1, allowed_processes := (allowed_processes (sem_at s i))[0 := current_process_id s], being_cleared := 0\<rparr>"
  have "sem_spaces s' = (sem_spaces s)[i := (sem_spaces s ! i)\<lparr>sem_status := UNAVAILABLE, sem := ?x (sem_at s i)\<rparr>]"
    using assms None i \<open>i < length (sem_spaces s)\<close> by (auto simp: my_sem_open_def set_sem_def set_sem_status_def sem_at_def Let_def nth_list_update split: if_splits)
  then show ?thesis
    using find_lock_new [of "sem_spaces s" 0 i n] i no None by (simp add: lock_of_view opened_lock_def)
next
  case (Some i)
  then show ?thesis
    using assms find_lock_update [of "sem_spaces s" n 0 i] lock_of_at [OF Some] locate_loop_found [of "sem_spaces s" n 0 i]
    by (auto simp: my_sem_open_def lock_of_view opened_lock_def set_sem_def Let_def locate_sem_def sem_at_def split: if_splits)
qed

lemma wait_takes:
  assumes "locate_sem n s = Some i" "sem_allowed (current_process_id s) (sem_at s i) = Some True"
  shows "taken_lock (lock_of n s) = Some l \<Longrightarrow>
      \<exists>s'. my_sem_wait n s = Some (Returned 0, s') \<and> lock_of n s' = l"
    and "taken_lock (lock_of n s) = None \<Longrightarrow> my_sem_wait n s = Some (r, s') \<Longrightarrow> r = Sleeping"
proof -
  let ?t = "set_sem i ((sem_at s i)\<lparr>is_locked := 1\<rparr>) s"
  note at = lock_of_at [OF assms(1)]
  have "lock_of n ?t = Some 1"
    using find_lock_update [of "sem_spaces s" n 0 i] locate_loop_found [of "sem_spaces s" n 0 i] assms(1) at
    by (simp add: lock_of_view locate_sem_def sem_at_def set_sem_def)
  then show "taken_lock (lock_of n s) = Some l \<Longrightarrow>
      \<exists>s'. my_sem_wait n s = Some (Returned 0, s') \<and> lock_of n s' = l"
    using assms at by (auto simp: my_sem_wait_def enter_region_def taken_lock_def Let_def split: if_splits)
  show "taken_lock (lock_of n s) = None \<Longrightarrow> my_sem_wait n s = Some (r, s') \<Longrightarrow> r = Sleeping"
    using assms at by (auto simp: my_sem_wait_def enter_region_def taken_lock_def Let_def bind_eq_Some_conv split: if_splits)
qed

lemma view_update:
  "i < length sps \<Longrightarrow> sem_status sp = sem_status (sps ! i) \<Longrightarrow> sem_id (sem sp) = sem_id (sem (sps ! i)) \<Longrightarrow>
   is_locked (sem sp) = is_locked (sem (sps ! i)) \<Longrightarrow> lock_view (sps[i := sp]) = lock_view sps"
  unfolding lock_view_def by (metis (mono_tags, lifting) list_update_id map_update)

lemma remove_view:
  assumes "remove_from_queue i s = Some (p, s')" "i < length (sem_spaces s)"
  shows "lock_view (sem_spaces s') = lock_view (sem_spaces s) \<and> length (sem_spaces s') = length (sem_spaces s)"
  using assms view_update [of i "sem_spaces s"]
  by (auto simp: remove_from_queue_def kfree_def set_sem_def sem_at_def Let_def bind_eq_Some_conv split: if_splits list.splits)

lemma wake_view:
  assumes "wake_loop i j s = Some s'" "i < length (sem_spaces s)"
  shows "lock_view (sem_spaces s') = lock_view (sem_spaces s)"
proof -
  let ?P = "\<lambda>i j s s'. i < length (sem_spaces s) \<longrightarrow> lock_view (sem_spaces s') = lock_view (sem_spaces s)"
  have "?P i j s s'"
  proof (rule wake_loop.raw_induct [where P = ?P, OF _ assms(1)], intro impI)
    fix wake i j and s s' :: kernel
    assume IH: "\<And>i j s s'. wake i j s = Some s' \<Longrightarrow> ?P i j s s'"
      and step: "(if j < queue_size (sem_at s i) then do {
        (p, s) \<leftarrow> remove_from_queue i s;
        s \<leftarrow> os_revive_process p s;
        wake i (j + 1) s
      } else Some s) = Some s'" and i: "i < length (sem_spaces s)"
    show "lock_view (sem_spaces s') = lock_view (sem_spaces s)"
    proof (cases "j < queue_size (sem_at s i)")
      case True
      then obtain p s1 s2 where "remove_from_queue i s = Some (p, s1)" "os_revive_process p s1 = Some s2" "wake i (j + 1) s2 = Some s'"
        using step by (auto simp: bind_eq_Some_conv)
      moreover from this(2) have "sem_spaces s2 = sem_spaces s1"
        by (auto simp: os_revive_process_def set_status_def bind_eq_Some_conv split: if_splits)
      ultimately show ?thesis using IH [of i "j + 1" s2 s'] remove_view [of i s p s1] i by simp
    qed (use step in auto)
  qed
  with assms show ?thesis by blast
qed

lemma post_leaves:
  assumes "my_sem_post n s = Some (r, s')"
  shows "lock_of n s' = left_lock (lock_of n s)"
proof (cases "locate_sem n s")
  case None
  then show ?thesis using assms by (simp add: my_sem_post_def lock_of_def left_lock_def)
next
  case (Some i)
  let ?t = "set_sem i ((sem_at s i)\<lparr>is_locked := 0\<rparr>) s"
  note at = lock_of_at [OF Some]
  have w: "wake_loop i 0 ?t = Some s'"
    using assms Some by (auto simp: my_sem_post_def leave_region_def wake_up_processes_def bind_eq_Some_conv)
  have "lock_of n ?t = Some 0"
    using find_lock_update [of "sem_spaces s" n 0 i] locate_loop_found [of "sem_spaces s" n 0 i] Some at
    by (simp add: lock_of_view locate_sem_def sem_at_def set_sem_def)
  moreover have "lock_of n s' = lock_of n ?t"
    using wake_view [OF w] at by (simp add: lock_of_view set_sem_def)
  ultimately show ?thesis using at by (simp add: left_lock_def)
qed

section \<open>The invariant\<close>

text \<open>What a process has added so far, and whether it is between wait and post.\<close>

definition worth :: "worker \<Rightarrow> 64 word" where
  "worth w = of_nat (done_turns w) * inc w + (if pc w = Posting then inc w else 0)"

definition critical :: "worker \<Rightarrow> bool" where
  "critical w \<longleftrightarrow> pc w = Loading \<or> pc w = Storing \<or> pc w = Posting"

definition worker_ok :: "sync \<Rightarrow> worker \<Rightarrow> bool" where
  "worker_ok s w \<longleftrightarrow> done_turns w \<le> turns \<and> (pc w = Ended \<longrightarrow> done_turns w = turns) \<and>
     (pc w = Waiting \<or> critical w \<longrightarrow> done_turns w < turns) \<and> (pc w = Storing \<longrightarrow> aux w = global s) \<and>
     (lock s = None \<longrightarrow> pc w = Opening)"

definition sync_inv :: "sync \<Rightarrow> bool" where
  "sync_inv s \<longleftrightarrow> global s = sum_list (map worth (workers s)) \<and> lock s \<in> {None, Some 0, Some 1} \<and>
     length (filter critical (workers s)) = (case lock s of None \<Rightarrow> 0 | Some x \<Rightarrow> x) \<and>
     (\<forall>w\<in>set (workers s). worker_ok s w) \<and> map inc (workers s) = map inc created"

text \<open>An upper bound of the steps still to come.\<close>

definition todo_of :: "worker \<Rightarrow> nat" where
  "todo_of w = 5 * (turns - done_turns w) +
     (case pc w of Opening \<Rightarrow> 5 | Waiting \<Rightarrow> 4 | Loading \<Rightarrow> 3 | Storing \<Rightarrow> 2 | Posting \<Rightarrow> 1 | Ended \<Rightarrow> 0)"

definition todo :: "sync \<Rightarrow> nat" where
  "todo s = sum_list (map todo_of (workers s))"

lemma sync_step_elim:
  assumes "sync_step use_sem k s = Some s'"
  obtains xs w ys w' where "workers s = xs @ w # ys" "workers s' = xs @ w' # ys"
    "my_process_inc use_sem (lock s, global s, w) = Some (lock s', global s', w')"
proof -
  have k: "k < length (workers s)" using assms by (auto simp: sync_step_def split: if_splits)
  from assms k obtain w' where w': "my_process_inc use_sem (lock s, global s, workers s ! k) = Some (lock s', global s', w')"
    "workers s' = (workers s)[k := w']"
    by (auto simp: sync_step_def split: option.splits prod.splits)
  show thesis
    by (rule that [OF id_take_nth_drop [OF k] _ w'(1)]) (simp add: w'(2) upd_conv_take_nth_drop k)
qed

lemmas work_defs = my_process_inc_def loop_head_def opened_lock_def taken_lock_def left_lock_def

lemma inc_unchanged: "my_process_inc use_sem (l, g, w) = Some (l', g', w') \<Longrightarrow> inc w' = inc w"
  by (auto simp: work_defs split: pc.splits option.splits if_splits)

lemma step_inv:
  assumes "sync_inv s" "sync_step True k s = Some s'"
  shows "sync_inv s'"
proof -
  obtain xs w ys w' where st: "workers s = xs @ w # ys" "workers s' = xs @ w' # ys"
    "my_process_inc True (lock s, global s, w) = Some (lock s', global s', w')"
    using sync_step_elim [OF assms(2)] .
  have ok: "worker_ok s w" "\<And>v. v \<in> set xs \<union> set ys \<Longrightarrow> worker_ok s v"
    and l: "lock s \<in> {None, Some 0, Some 1}"
    and crit: "length (filter critical (xs @ w # ys)) = (case lock s of None \<Rightarrow> 0 | Some x \<Rightarrow> x)"
    and sum: "global s = sum_list (map worth xs) + worth w + sum_list (map worth ys)"
    using assms(1) st(1) by (auto simp: sync_inv_def add.assoc)
  have alone: "\<not> critical v" if "critical w" "v \<in> set xs \<union> set ys" for v
    using crit l that by (auto simp: filter_empty_conv)
  have "global s' = global s + (worth w' - worth w)"
    using st(3) ok(1)
    by (auto simp: work_defs worth_def worker_ok_def algebra_simps split: pc.splits option.splits if_splits)
  then have "global s' = sum_list (map worth xs) + worth w' + sum_list (map worth ys)"
    unfolding sum by simp
  moreover have "lock s' \<in> {None, Some 0, Some 1} \<and>
      length (filter critical (xs @ w' # ys)) = (case lock s' of None \<Rightarrow> 0 | Some x \<Rightarrow> x)"
    using st(3) crit l ok(1)
    by (auto simp: work_defs critical_def worker_ok_def split: pc.splits option.splits if_splits)
  moreover have "worker_ok s' w'"
    using st(3) ok(1)
    by (auto simp: work_defs worker_ok_def critical_def split: pc.splits option.splits if_splits)
  moreover have "worker_ok s' v" if v: "v \<in> set xs \<union> set ys" for v
  proof -
    have "global s' = global s \<or> \<not> critical v"
      using st(3) alone [OF _ v]
      by (auto simp: work_defs critical_def split: pc.splits option.splits if_splits)
    moreover have "lock s' = None \<longrightarrow> lock s = None"
      using st(3) by (cases "lock s'") (auto simp: work_defs split: pc.splits option.splits if_splits)
    ultimately show ?thesis using ok(2) [OF v] by (auto simp: worker_ok_def critical_def)
  qed
  moreover have "map inc (xs @ w' # ys) = map inc created"
    using assms(1) st(1) inc_unchanged [OF st(3)] by (simp add: sync_inv_def)
  ultimately show ?thesis unfolding sync_inv_def st(2) by (auto simp: add.assoc)
qed

lemma created_sum: "sum_list (map inc created) = 0" "\<forall>w\<in>set created. pc w = Opening \<and> done_turns w = 0"
  by (simp_all add: created_def TOTAL_PAIR_PROCESSES_def new_worker_def numeral_eq_Suc)

lemma run_inv: "sync_run True s \<Longrightarrow> sync_inv s"
proof (induction rule: sync_run.induct)
  case (start l)
  have "map worth created = map (\<lambda>w. 0) created" by (rule map_cong) (use created_sum(2) in \<open>auto simp: worth_def\<close>)
  then have "sum_list (map worth created) = sum_list (map (\<lambda>w. 0) created)" by (rule arg_cong)
  moreover have "filter critical created = []"
    using created_sum(2) by (auto simp: critical_def filter_empty_conv)
  ultimately show ?case using start created_sum(2)
    by (auto simp: sync_inv_def test_sync_def worker_ok_def critical_def)
qed (rule step_inv)

section \<open>The outcome\<close>

lemma step_todo:
  assumes "sync_inv s" "sync_step True k s = Some s'"
  shows "todo s' < todo s"
proof -
  obtain xs w ys w' where st: "workers s = xs @ w # ys" "workers s' = xs @ w' # ys"
    "my_process_inc True (lock s, global s, w) = Some (lock s', global s', w')"
    using sync_step_elim [OF assms(2)] .
  have "worker_ok s w" using assms(1) st(1) by (simp add: sync_inv_def)
  then have "todo_of w' < todo_of w"
    using st(3) by (auto simp: work_defs worker_ok_def critical_def todo_of_def split: pc.splits option.splits if_splits)
  then show ?thesis by (simp add: todo_def st)
qed

lemma finished_zero:
  assumes "sync_inv s" "finished s"
  shows "global s = 0"
proof -
  have "worth w = of_nat turns * inc w" if "w \<in> set (workers s)" for w
    using assms that by (auto simp: sync_inv_def finished_def worker_ok_def worth_def)
  then have "map worth (workers s) = map (\<lambda>w. of_nat turns * inc w) (workers s)" by simp
  then have "sum_list (map worth (workers s)) = of_nat turns * sum_list (map inc (workers s))"
    unfolding sum_list_const_mult [symmetric] by (rule arg_cong)
  moreover have "sum_list (map inc (workers s)) = 0"
    using assms(1) created_sum(1) unfolding sync_inv_def by metis
  ultimately show ?thesis using assms(1) by (simp add: sync_inv_def)
qed

text \<open>While a process is between wait and post it can go on; otherwise the lock is free.\<close>

lemma unfinished_step:
  assumes "sync_inv s" "\<not> finished s"
  shows "\<exists>k. sync_step True k s \<noteq> None"
proof -
  have "\<exists>w\<in>set (workers s). my_process_inc True (lock s, global s, w) \<noteq> None"
  proof (cases "filter critical (workers s)")
    case (Cons v vs)
    then have "v \<in> set (workers s)" "critical v" by (auto dest: filter_eq_ConsD)
    then show ?thesis by (intro bexI [of _ v]) (auto simp: my_process_inc_def critical_def)
  next
    case Nil
    obtain w where w: "w \<in> set (workers s)" "pc w \<noteq> Ended" using assms(2) by (auto simp: finished_def)
    have "\<not> critical w" using Nil w(1) by (auto simp: filter_empty_conv)
    moreover have "lock s \<noteq> Some 1" using assms(1) Nil by (auto simp: sync_inv_def)
    ultimately show ?thesis using w assms(1)
      by (intro bexI [of _ w]) (auto simp: my_process_inc_def critical_def taken_lock_def sync_inv_def split: pc.splits)
  qed
  then obtain k where "k < length (workers s)" "my_process_inc True (lock s, global s, workers s ! k) \<noteq> None"
    by (auto simp: in_set_conv_nth)
  then show ?thesis by (intro exI [of _ k]) (auto simp: sync_step_def)
qed

text \<open>A schedule, the processes in the order in which they step.\<close>

primrec sync_exec :: "bool \<Rightarrow> nat list \<Rightarrow> sync \<Rightarrow> sync option" where
  "sync_exec use_sem [] s = Some s"
| "sync_exec use_sem (k # ks) s = do { s \<leftarrow> sync_step use_sem k s; sync_exec use_sem ks s }"

lemma exec_run: "sync_run use_sem s \<Longrightarrow> sync_exec use_sem ks s = Some s' \<Longrightarrow> sync_run use_sem s'"
  by (induction ks arbitrary: s) (auto simp: bind_eq_Some_conv intro: sync_run.step)

text \<open>The first decreaser reads, all others run one after the other, then it writes.\<close>

definition lost_update :: "nat list" where
  "lost_update = [0, 0] @ concat (map (\<lambda>k. replicate 11 k) [1..<20]) @ replicate 9 0"

lemma lost_update_result:
  "case sync_exec False lost_update (test_sync None) of None \<Rightarrow> False | Some s \<Rightarrow> finished s \<and> global s = - 5"
  by code_simp



end
